(* ===== verification/GoBase.thy ===== *)
theory GoBase
  imports Main
begin

text \<open>
  Prelude of the development: the parts of Go that every component uses.

  \<^item> An \<open>error\<close> is its text and a call that returns \<open>(x, err)\<close> is a sum,
    \<open>Inl\<close> the error and \<open>Inr\<close> the value.
  \<^item> An \<open>outcome\<close> is what a goroutine's operation does when no other goroutine runs
    in between: it finishes in a state, it waits, or it panics.
  \<^item> A buffered channel is a record of its buffer, its capacity and its closed flag.
  \<^item> A \<open>sync.RWMutex\<close> is a count of readers and a writer flag.
  \<^item> A \<open>for ... range\<close> over a map is \<open>foreach\<close> over a list of its keys, in
    whatever order the runtime chose.

  The lemmas about these are collected in \<open>go_simps\<close>; the interface that a broadcast
  relies on is the locale \<open>cell_store\<close>.
\<close>

named_theorems go_simps "rules that evaluate the Go primitives"

section \<open>Errors and outcomes\<close>

type_synonym error = string

type_synonym 'a result = "error + 'a"

datatype 'a outcome = Done 'a | Blocked | Panicked string

primrec obind :: "'a outcome \<Rightarrow> ('a \<Rightarrow> 'b outcome) \<Rightarrow> 'b outcome" where
  "obind (Done x) f = f x"
| "obind Blocked f = Blocked"
| "obind (Panicked e) f = Panicked e"

lemma obind_Done_right [simp]: "obind m Done = m"
  by (cases m) auto

lemma obind_assoc: "obind (obind m f) g = obind m (\<lambda>x. obind (f x) g)"
  by (cases m) auto

lemma obind_cong [fundef_cong, cong]:
  "m = m' \<Longrightarrow> (\<And>x. m' = Done x \<Longrightarrow> f x = g x) \<Longrightarrow> obind m f = obind m' g"
  by (cases m') auto

lemma obind_eq_Done_iff: "obind m f = Done y \<longleftrightarrow> (\<exists>x. m = Done x \<and> f x = Done y)"
  by (cases m) auto

primrec rbind :: "'a result \<Rightarrow> ('a \<Rightarrow> 'b result) \<Rightarrow> 'b result" where
  "rbind (Inl e) f = Inl e"
| "rbind (Inr x) f = f x"

lemma rbind_eq_Inr_iff: "rbind m f = Inr y \<longleftrightarrow> (\<exists>x. m = Inr x \<and> f x = Inr y)"
  by (cases m) auto

text \<open>\<open>fmt.Errorf("context: %w", err)\<close>.\<close>

definition wrap_err :: "string \<Rightarrow> 'a result \<Rightarrow> 'a result" where
  "wrap_err ctxt r = (case r of Inl e \<Rightarrow> Inl (ctxt @ '': '' @ e) | Inr x \<Rightarrow> Inr x)"

lemma wrap_err_simps [simp]:
  "wrap_err ctxt (Inl e) = Inl (ctxt @ '': '' @ e)"
  "wrap_err ctxt (Inr x) = Inr x"
  by (simp_all add: wrap_err_def)

lemma wrap_err_eq_Inr_iff [simp]: "wrap_err ctxt r = Inr x \<longleftrightarrow> r = Inr x"
  by (cases r) auto

section \<open>Loops over a map\<close>

primrec foreach :: "('k \<Rightarrow> 's \<Rightarrow> 's outcome) \<Rightarrow> 'k list \<Rightarrow> 's \<Rightarrow> 's outcome" where
  "foreach f [] s = Done s"
| "foreach f (k # ks) s = obind (f k s) (foreach f ks)"

lemma foreach_append: "foreach f (xs @ ys) s = obind (foreach f xs s) (foreach f ys)"
  by (induction xs arbitrary: s) (auto simp: obind_assoc)

lemma foreach_cong [fundef_cong]:
  "ks = ls \<Longrightarrow> s = t \<Longrightarrow> (\<And>k u. k \<in> set ls \<Longrightarrow> f k u = g k u) \<Longrightarrow>
   foreach f ks s = foreach g ls t"
  by (induction ks arbitrary: ls s t) auto

text \<open>Loops whose body keeps a predicate of the state keep it.\<close>

lemma foreach_invariant:
  "foreach f ks s = Done s' \<Longrightarrow> P s \<Longrightarrow>
   (\<And>k u u'. k \<in> set ks \<Longrightarrow> P u \<Longrightarrow> f k u = Done u' \<Longrightarrow> P u') \<Longrightarrow> P s'"
proof (induction ks arbitrary: s)
  case Nil
  then show ?case by simp
next
  case (Cons k ks)
  then obtain u where "f k s = Done u" and "foreach f ks u = Done s'"
    by (auto simp: obind_eq_Done_iff)
  with Cons show ?case by (metis list.set_intros)
qed

text \<open>
  The order in which a \<open>range\<close> loop visits the keys of a map: any list that has every
  key once. The model takes such a list as an argument wherever the source ranges over a map.
\<close>

definition visits :: "'k list \<Rightarrow> ('k \<rightharpoonup> 'v) \<Rightarrow> bool" where
  "visits ord m \<longleftrightarrow> distinct ord \<and> set ord = dom m"

lemma visits_finite: "visits ord m \<Longrightarrow> finite (dom m)"
  by (metis List.finite_set visits_def)

section \<open>Channels\<close>

record 'm chan =
  buf :: "'m list"
  capacity :: nat
  closed :: bool

definition make_chan :: "nat \<Rightarrow> 'm chan" where
  "make_chan n = \<lparr>buf = [], capacity = n, closed = False\<rparr>"

abbreviation full :: "'m chan \<Rightarrow> bool" where
  "full c \<equiv> capacity c \<le> length (buf c)"

text \<open>\<open>c <- m\<close>: waits while the buffer is full, panics on a closed channel.\<close>

definition chan_send :: "'m \<Rightarrow> 'm chan \<Rightarrow> 'm chan outcome" where
  "chan_send m c =
     (if closed c then Panicked ''send on closed channel''
      else if full c then Blocked
      else Done (c\<lparr>buf := buf c @ [m]\<rparr>))"

text \<open>\<open>select { case c <- m: default: }\<close>: a full buffer loses the message.\<close>

definition chan_offer :: "'m \<Rightarrow> 'm chan \<Rightarrow> 'm chan outcome" where
  "chan_offer m c =
     (if closed c then Panicked ''send on closed channel''
      else if full c then Done c
      else Done (c\<lparr>buf := buf c @ [m]\<rparr>))"

text \<open>\<open>m, ok := <-c\<close>: \<open>None\<close> is \<open>ok = false\<close>, a closed and drained channel.\<close>

definition chan_recv :: "'m chan \<Rightarrow> ('m option \<times> 'm chan) outcome" where
  "chan_recv c =
     (case buf c of
        m # ms \<Rightarrow> Done (Some m, c\<lparr>buf := ms\<rparr>)
      | [] \<Rightarrow> if closed c then Done (None, c) else Blocked)"

definition chan_close :: "'m chan \<Rightarrow> 'm chan outcome" where
  "chan_close c =
     (if closed c then Panicked ''close of closed channel'' else Done (c\<lparr>closed := True\<rparr>))"

text \<open>What a non-blocking send leaves in an open channel.\<close>

definition offered :: "'m \<Rightarrow> 'm chan \<Rightarrow> 'm chan" where
  "offered m c = (if full c then c else c\<lparr>buf := buf c @ [m]\<rparr>)"

lemma chan_offer_open: "\<not> closed c \<Longrightarrow> chan_offer m c = Done (offered m c)"
  by (simp add: chan_offer_def offered_def)

lemma chan_send_room: "\<not> closed c \<Longrightarrow> \<not> full c \<Longrightarrow> chan_send m c = Done (offered m c)"
  by (simp add: chan_send_def offered_def)

lemma offered_simps [simp]:
  "closed (offered m c) = closed c"
  "capacity (offered m c) = capacity c"
  "length (buf c) < capacity c \<Longrightarrow> buf (offered m c) = buf c @ [m]"
  "full c \<Longrightarrow> offered m c = c"
  by (auto simp: offered_def)

lemma make_chan_simps [simp]:
  "buf (make_chan n) = []" "capacity (make_chan n) = n" "closed (make_chan n) = False"
  by (simp_all add: make_chan_def)

lemma offered_bound: "length (buf c) \<le> capacity c \<Longrightarrow> length (buf (offered m c)) \<le> capacity c"
  by (auto simp: offered_def)

text \<open>A send, blocking or not, never reorders or drops what is already in the buffer.\<close>

lemma offered_extends: "\<exists>ms. buf (offered m c) = buf c @ ms \<and> set ms \<subseteq> {m}"
  by (auto simp: offered_def)

lemma chan_recv_offered:
  "buf c = x # xs \<Longrightarrow> chan_recv (offered m c) =
     Done (Some x, c\<lparr>buf := xs @ (if full c then [] else [m])\<rparr>)"
  by (simp add: chan_recv_def offered_def)

section \<open>Read/write locks\<close>

text \<open>
  \<open>sync.RWMutex\<close>. A lock that is not available makes the caller wait; releasing a lock that
  is not held ends the process.
\<close>

record rwmutex =
  readers :: nat
  writer :: bool

definition free_mutex :: rwmutex where
  "free_mutex = \<lparr>readers = 0, writer = False\<rparr>"

definition rw_Lock :: "rwmutex \<Rightarrow> rwmutex outcome" where
  "rw_Lock m = (if writer m \<or> 0 < readers m then Blocked else Done (m\<lparr>writer := True\<rparr>))"

definition rw_Unlock :: "rwmutex \<Rightarrow> rwmutex outcome" where
  "rw_Unlock m =
     (if writer m then Done (m\<lparr>writer := False\<rparr>) else Panicked ''sync: Unlock of unlocked RWMutex'')"

definition rw_RLock :: "rwmutex \<Rightarrow> rwmutex outcome" where
  "rw_RLock m = (if writer m then Blocked else Done (m\<lparr>readers := Suc (readers m)\<rparr>))"

definition rw_RUnlock :: "rwmutex \<Rightarrow> rwmutex outcome" where
  "rw_RUnlock m =
     (if readers m = 0 then Panicked ''sync: RUnlock of unlocked RWMutex''
      else Done (m\<lparr>readers := readers m - 1\<rparr>))"

lemma rw_simps [go_simps]:
  "rw_Lock free_mutex = Done \<lparr>readers = 0, writer = True\<rparr>"
  "rw_Unlock \<lparr>readers = 0, writer = True\<rparr> = Done free_mutex"
  "rw_RLock free_mutex = Done \<lparr>readers = Suc 0, writer = False\<rparr>"
  "rw_RUnlock \<lparr>readers = Suc 0, writer = False\<rparr> = Done free_mutex"
  "rw_RLock \<lparr>readers = n, writer = True\<rparr> = Blocked"
  "rw_Lock \<lparr>readers = n, writer = True\<rparr> = Blocked"
  "rw_Unlock \<lparr>readers = n, writer = False\<rparr> = Panicked ''sync: Unlock of unlocked RWMutex''"
  by (simp_all add: rw_Lock_def rw_Unlock_def rw_RLock_def rw_RUnlock_def free_mutex_def)

section \<open>Loops over independent cells\<close>

text \<open>
  The interface a broadcast relies on: a state made of cells and a rest, and a step that
  changes one cell only. Visiting distinct cells then updates each visited cell once,
  whatever the order.
\<close>

locale cell_store =
  fixes put :: "'k \<Rightarrow> 's \<Rightarrow> 's outcome"
    and cell :: "'s \<Rightarrow> 'k \<Rightarrow> 'c"
    and upd :: "'c \<Rightarrow> 'c"
    and rest :: "'s \<Rightarrow> 'r"
    and usable :: "'c \<Rightarrow> bool"
  assumes put_usable: "usable (cell s k) \<Longrightarrow>
      \<exists>t. put k s = Done t \<and> cell t = (cell s)(k := upd (cell s k)) \<and> rest t = rest s"
    and state_ext: "cell s = cell t \<Longrightarrow> rest s = rest t \<Longrightarrow> s = t"
begin

lemma foreach_put:
  assumes "distinct ks" and "\<And>k. k \<in> set ks \<Longrightarrow> usable (cell s k)"
  shows "\<exists>t. foreach put ks s = Done t
    \<and> cell t = (\<lambda>k. if k \<in> set ks then upd (cell s k) else cell s k) \<and> rest t = rest s"
  using assms
proof (induction ks arbitrary: s)
  case Nil
  then show ?case by simp
next
  case (Cons k ks)
  then obtain u where u: "put k s = Done u" "cell u = (cell s)(k := upd (cell s k))" "rest u = rest s"
    using put_usable[of s k] by auto
  have "\<And>j. j \<in> set ks \<Longrightarrow> usable (cell u j)"
    using Cons.prems by (auto simp: u(2))
  then obtain t where t: "foreach put ks u = Done t" "rest t = rest u"
      "cell t = (\<lambda>k. if k \<in> set ks then upd (cell u k) else cell u k)"
    using Cons.IH[of u] Cons.prems(1) by auto
  then show ?case
    using Cons.prems(1) by (auto simp: u)
qed

lemma foreach_put_order:
  assumes "distinct ks" "distinct ls" "set ks = set ls"
    and "\<And>k. k \<in> set ks \<Longrightarrow> usable (cell s k)"
  shows "foreach put ks s = foreach put ls s"
proof -
  obtain t where t: "foreach put ks s = Done t" "rest t = rest s"
      "cell t = (\<lambda>k. if k \<in> set ks then upd (cell s k) else cell s k)"
    using foreach_put[of ks s] assms by blast
  obtain u where u: "foreach put ls s = Done u" "rest u = rest s"
      "cell u = (\<lambda>k. if k \<in> set ls then upd (cell s k) else cell s k)"
    using foreach_put[of ls s] assms by blast
  have "t = u"
    by (rule state_ext) (simp_all add: t u assms(3))
  then show ?thesis by (simp add: t u)
qed

end

section \<open>Simulation\<close>

text \<open>
  The interface of a component that implements an abstract specification: a step of the
  component is a step of the specification on the abstracted state, in every outcome, as
  long as the invariant holds and the environment keeps its side (\<open>ok\<close>).
\<close>

primrec omap :: "('a \<Rightarrow> 'b) \<Rightarrow> 'a outcome \<Rightarrow> 'b outcome" where
  "omap f (Done x) = Done (f x)"
| "omap f Blocked = Blocked"
| "omap f (Panicked e) = Panicked e"

primrec all_ok ::
  "('e \<Rightarrow> 's \<Rightarrow> 's outcome) \<Rightarrow> ('e \<Rightarrow> 's \<Rightarrow> bool) \<Rightarrow> 'e list \<Rightarrow> 's \<Rightarrow> bool" where
  "all_ok step ok [] s = True"
| "all_ok step ok (e # es) s =
     (ok e s \<and> (case step e s of Done t \<Rightarrow> all_ok step ok es t | _ \<Rightarrow> True))"

locale simulation =
  fixes step :: "'e \<Rightarrow> 's \<Rightarrow> 's outcome"
    and spec :: "'e \<Rightarrow> 'a \<Rightarrow> 'a outcome"
    and abst :: "'s \<Rightarrow> 'a"
    and inv :: "'s \<Rightarrow> bool"
    and ok :: "'e \<Rightarrow> 's \<Rightarrow> bool"
  assumes sim_step: "inv s \<Longrightarrow> ok e s \<Longrightarrow> spec e (abst s) = omap abst (step e s)"
    and inv_step: "inv s \<Longrightarrow> ok e s \<Longrightarrow> step e s = Done t \<Longrightarrow> inv t"
    and no_panic: "inv s \<Longrightarrow> ok e s \<Longrightarrow> step e s \<noteq> Panicked msg"
begin

lemma run_inv: "inv s \<Longrightarrow> all_ok step ok es s \<Longrightarrow> foreach step es s = Done t \<Longrightarrow> inv t"
proof (induction es arbitrary: s)
  case (Cons e es)
  then obtain u where "step e s = Done u" "foreach step es u = Done t"
    by (auto simp: obind_eq_Done_iff)
  with Cons show ?case using inv_step by auto
qed simp

lemma run_no_panic: "inv s \<Longrightarrow> all_ok step ok es s \<Longrightarrow> foreach step es s \<noteq> Panicked msg"
proof (induction es arbitrary: s)
  case (Cons e es)
  then show ?case
    by (cases "step e s") (auto simp: no_panic inv_step)
qed simp

lemma run_sim:
  "inv s \<Longrightarrow> all_ok step ok es s \<Longrightarrow> foreach spec es (abst s) = omap abst (foreach step es s)"
proof (induction es arbitrary: s)
  case (Cons e es)
  then show ?case
    by (cases "step e s") (auto simp: sim_step inv_step)
qed simp

end

end
