(* ===== verification/Strconv.thy ===== *)
theory Strconv
  imports GoBase "HOL-Library.Word"
begin

unbundle bit_operations_syntax

text \<open>
  The conversions of Go's \<open>strconv\<close> and \<open>encoding/hex\<close> that the program uses: decimal
  text of an integer (\<open>Itoa\<close>, the \<open>%d\<close> verb), its parser with the range check of a
  given width (\<open>ParseInt\<close>, \<open>ParseUint\<close>) and lower-case hexadecimal. Strings are byte
  sequences, as in Go. The lemmas say that printing then parsing is the identity on every
  value in range, and which bytes a number can consist of.
\<close>

section \<open>Decimal digits\<close>

definition digit_char :: "nat \<Rightarrow> char" where
  "digit_char d = char_of (48 + d)"

definition digit_val :: "char \<Rightarrow> nat option" where
  "digit_val c =
     (let n = of_char c :: nat in if 48 \<le> n \<and> n \<le> 57 then Some (n - 48) else None)"

abbreviation is_digit :: "char \<Rightarrow> bool" where
  "is_digit c \<equiv> digit_val c \<noteq> None"

fun digits :: "nat \<Rightarrow> string" where
  "digits n = (if n < 10 then [digit_char n] else digits (n div 10) @ [digit_char (n mod 10)])"

declare digits.simps [simp del]

fun digits_val :: "nat \<Rightarrow> string \<Rightarrow> nat option" where
  "digits_val acc [] = Some acc"
| "digits_val acc (c # cs) =
     (case digit_val c of None \<Rightarrow> None | Some d \<Rightarrow> digits_val (10 * acc + d) cs)"

lemma digit_val_char [simp]: "d < 10 \<Longrightarrow> digit_val (digit_char d) = Some d"
  by (simp add: digit_val_def digit_char_def of_char_of)

lemma digit_val_less: "digit_val c = Some d \<Longrightarrow> d < 10"
  by (auto simp: digit_val_def Let_def split: if_splits)

lemma digits_nonempty [simp]: "digits n \<noteq> []"
  by (subst digits.simps) simp

lemma digits_are_digits: "c \<in> set (digits n) \<Longrightarrow> is_digit c"
proof (induction n rule: digits.induct)
  case (1 n)
  show ?case
  proof (cases "n < 10")
    case True
    with "1.prems" show ?thesis by (auto simp: digits.simps[of n])
  next
    case False
    with "1.prems" have "c \<in> set (digits (n div 10)) \<or> c = digit_char (n mod 10)"
      by (auto simp: digits.simps[of n])
    with False "1.IH" show ?thesis by auto
  qed
qed

lemma digits_val_append:
  "digits_val acc (xs @ ys) = (case digits_val acc xs of None \<Rightarrow> None | Some a \<Rightarrow> digits_val a ys)"
  by (induction xs arbitrary: acc) (auto split: option.split)

lemma digits_val_digits [simp]: "digits_val 0 (digits n) = Some n"
proof (induction n rule: digits.induct)
  case (1 n)
  show ?case
  proof (cases "n < 10")
    case True
    then show ?thesis by (simp add: digits.simps[of n])
  next
    case False
    with "1.IH" show ?thesis
      by (simp add: digits.simps[of n] digits_val_append)
  qed
qed

lemma digits_inj: "digits m = digits n \<Longrightarrow> m = n"
  by (metis digits_val_digits option.inject)

lemma not_digit [simp]:
  "digit_val (CHR ''-'') = None" "digit_val (CHR ''+'') = None"
  "digit_val (CHR '' '') = None" "digit_val (CHR 0x0A) = None"
  by (simp_all add: digit_val_def)

lemma hd_digits [simp]: "is_digit (hd (digits n))"
  using digits_are_digits[of "hd (digits n)" n] by simp

section \<open>Itoa, ParseInt, ParseUint\<close>

definition itoa :: "int \<Rightarrow> string" where
  "itoa i = (if i < 0 then CHR ''-'' # digits (nat (- i)) else digits (nat i))"

definition in_int :: "nat \<Rightarrow> int \<Rightarrow> bool" where
  "in_int bits i \<longleftrightarrow> - (2 ^ (bits - 1)) \<le> i \<and> i < 2 ^ (bits - 1)"

definition parse_uint :: "nat \<Rightarrow> string \<Rightarrow> nat result" where
  "parse_uint bits s =
     (case (if s = [] then None else digits_val 0 s) of
        None \<Rightarrow> Inl ''invalid syntax''
      | Some n \<Rightarrow> if n < 2 ^ bits then Inr n else Inl ''value out of range'')"

text \<open>An optional sign, then decimal digits; the value must fit the width.\<close>

definition split_sign :: "string \<Rightarrow> bool \<times> string" where
  "split_sign s =
     (case s of
        c # cs \<Rightarrow> if c = CHR ''-'' then (True, cs) else if c = CHR ''+'' then (False, cs) else (False, s)
      | [] \<Rightarrow> (False, []))"

definition parse_int :: "nat \<Rightarrow> string \<Rightarrow> int result" where
  "parse_int bits s =
     (let (neg, ds) = split_sign s in
      case (if ds = [] then None else digits_val 0 ds) of
        None \<Rightarrow> Inl ''invalid syntax''
      | Some n \<Rightarrow>
          (let i = (if neg then - int n else int n)
           in if in_int bits i then Inr i else Inl ''value out of range''))"

lemma split_sign_digits [simp]: "split_sign (digits n) = (False, digits n)"
proof -
  obtain c cs where d: "digits n = c # cs" by (cases "digits n") auto
  have "is_digit c" using hd_digits[of n] by (simp add: d)
  then have "c \<noteq> CHR ''-''" "c \<noteq> CHR ''+''" by auto
  then show ?thesis by (simp add: d split_sign_def)
qed

lemma split_sign_neg [simp]: "split_sign (CHR ''-'' # s) = (True, s)"
  by (simp add: split_sign_def)

lemma parse_int_itoa: "in_int bits i \<Longrightarrow> parse_int bits (itoa i) = Inr i"
  by (simp add: parse_int_def itoa_def)

lemma parse_uint_digits: "n < 2 ^ bits \<Longrightarrow> parse_uint bits (digits n) = Inr n"
  by (simp add: parse_uint_def)

lemma parse_int_in_range: "parse_int bits s = Inr i \<Longrightarrow> in_int bits i"
  by (auto simp: parse_int_def Let_def split: prod.splits option.splits if_splits)

lemma parse_uint_in_range: "parse_uint bits s = Inr n \<Longrightarrow> n < 2 ^ bits"
  by (auto simp: parse_uint_def split: option.splits if_splits)

lemma itoa_inj: "itoa i = itoa j \<Longrightarrow> i = j"
proof -
  assume eq: "itoa i = itoa j"
  define b where "b = Suc (nat (\<bar>i\<bar> + \<bar>j\<bar>))"
  have "int (nat (\<bar>i\<bar> + \<bar>j\<bar>)) < int (2 ^ nat (\<bar>i\<bar> + \<bar>j\<bar>))"
    by (rule less_exp[THEN of_nat_less_iff[THEN iffD2]])
  then have "\<bar>i\<bar> + \<bar>j\<bar> < 2 ^ (b - 1)"
    by (simp add: b_def)
  then have "in_int b i" "in_int b j" by (auto simp: in_int_def)
  with eq show "i = j" by (metis parse_int_itoa sum.inject(2))
qed

lemma itoa_chars: "c \<in> set (itoa i) \<Longrightarrow> is_digit c \<or> c = CHR ''-''"
  using digits_are_digits by (auto simp: itoa_def split: if_splits)

lemma itoa_nonempty [simp]: "itoa i \<noteq> []"
  by (simp add: itoa_def)

section \<open>Hexadecimal\<close>

definition hex_char :: "nat \<Rightarrow> char" where
  "hex_char d = char_of (if d < 10 then 48 + d else 87 + d)"

definition hex_byte :: "8 word \<Rightarrow> string" where
  "hex_byte b = [hex_char (unat (drop_bit 4 b)), hex_char (unat (b AND 15))]"

text \<open>\<open>hex.EncodeToString\<close>.\<close>

definition hex_encode :: "8 word list \<Rightarrow> string" where
  "hex_encode bs = concat (map hex_byte bs)"

lemma hex_char_inj: "i < 16 \<Longrightarrow> j < 16 \<Longrightarrow> hex_char i = hex_char j \<Longrightarrow> i = j"
  by (auto simp: hex_char_def char_of_eq_iff take_bit_eq_mod split: if_splits)

lemma low_nibble: "unat (b AND 15) = unat b mod 16" for b :: "8 word"
proof -
  have "b AND 15 = take_bit 4 b"
    by (simp add: take_bit_eq_mask mask_eq_exp_minus_1)
  then show ?thesis
    by (simp add: take_bit_eq_mod unat_mod)
qed

lemma nibble_bounds: "unat (drop_bit 4 (b :: 8 word)) < 16" "unat (b AND 15 :: 8 word) < 16"
proof -
  have "unat (drop_bit 4 b) = unat b div 16"
    by (simp add: drop_bit_eq_div unat_div)
  then show "unat (drop_bit 4 b) < 16" using unsigned_less[of b, where 'a = nat] by simp
  have "unat (b AND 15) = unat b mod 16"
    by (rule low_nibble)
  then show "unat (b AND 15) < 16" by simp
qed

lemma byte_of_nibbles: "unat b = 16 * unat (drop_bit 4 b) + unat (b AND 15)" for b :: "8 word"
proof -
  have "unat (drop_bit 4 b) = unat b div 16"
    by (simp add: drop_bit_eq_div unat_div)
  moreover have "unat (b AND 15) = unat b mod 16"
    by (rule low_nibble)
  ultimately show ?thesis by simp
qed

lemma hex_byte_inj: "hex_byte b = hex_byte c \<Longrightarrow> b = c"
proof -
  assume eq: "hex_byte b = hex_byte c"
  have "unat (drop_bit 4 b) = unat (drop_bit 4 c)" "unat (b AND 15) = unat (c AND 15)"
    using eq nibble_bounds[of b] nibble_bounds[of c] by (auto simp: hex_byte_def dest: hex_char_inj)
  then show "b = c"
    by (metis byte_of_nibbles unsigned_word_eqI)
qed

lemma hex_encode_length: "length (hex_encode bs) = 2 * length bs"
  by (induction bs) (simp_all add: hex_encode_def hex_byte_def)

lemma hex_encode_inj: "hex_encode bs = hex_encode cs \<Longrightarrow> bs = cs"
proof (induction bs arbitrary: cs)
  case Nil
  then show ?case by (cases cs) (simp_all add: hex_encode_def hex_byte_def)
next
  case (Cons b bs)
  then obtain c cs' where cs: "cs = c # cs'"
    by (cases cs) (simp_all add: hex_encode_def hex_byte_def)
  have "hex_byte b @ hex_encode bs = hex_byte c @ hex_encode cs'"
    using Cons.prems by (simp add: cs hex_encode_def)
  then have "hex_byte b = hex_byte c" "hex_encode bs = hex_encode cs'"
    by (simp_all add: hex_byte_def)
  then show ?case using Cons.IH by (auto simp: cs dest: hex_byte_inj)
qed

definition is_hex :: "char \<Rightarrow> bool" where
  "is_hex c \<longleftrightarrow>
     (let n = of_char c :: nat in 48 \<le> n \<and> n \<le> 57 \<or> 97 \<le> n \<and> n \<le> 102)"

lemma hex_char_is_hex: "d < 16 \<Longrightarrow> is_hex (hex_char d)"
  by (simp add: hex_char_def is_hex_def of_char_of take_bit_eq_mod Let_def)

lemma hex_encode_chars: "c \<in> set (hex_encode bs) \<Longrightarrow> is_hex c"
  by (auto simp: hex_encode_def hex_byte_def nibble_bounds intro!: hex_char_is_hex)

end
