(* ===== verification/Json.thy ===== *)
theory Json
  imports Strconv
begin

text \<open>
  The part of \<open>encoding/json\<close> the program uses: JSON values, \<open>json.RawMessage\<close>, and
  marshalling to and unmarshalling from structs with tagged fields.

  A JSON text is represented by its value: objects keep their members in order and with
  duplicates, a number keeps the literal as it was written (Go converts it only when it is
  stored in a field). What is abstracted away here is white space and the spelling of strings;
  the texts themselves, and what happens to bytes that are not UTF-8, are in \<^verbatim>\<open>JsonText\<close>. A
  \<open>json.RawMessage\<close> is the value of its bytes, or \<open>None\<close> when it is nil.

  Unmarshalling into a struct follows Go: an unknown member is skipped, a missing member
  leaves its field, \<open>null\<close> leaves its field, a later member overwrites an earlier one, a
  member whose JSON type does not fit is an error, and names match without regard to case.
  The callers discard the partly filled struct when there is an error, so the model returns
  the error alone.

  The locale \<open>json_codec\<close> is the contract between a struct's encoder and its decoder.
\<close>

section \<open>Values\<close>

datatype json =
    JNull
  | JBool bool
  | JNum string
  | JStr string
  | JArr "json list"
  | JObj "(string \<times> json) list"

type_synonym raw = "json option"

definition enc_raw :: "raw \<Rightarrow> json" where
  "enc_raw r = (case r of None \<Rightarrow> JNull | Some j \<Rightarrow> j)"

definition enc_int :: "int \<Rightarrow> json" where
  "enc_int i = JNum (itoa i)"

text \<open>A member tagged \<open>omitempty\<close> is left out when its string is empty or its number 0.\<close>

definition omit_empty :: "bool \<Rightarrow> string \<times> json \<Rightarrow> (string \<times> json) list" where
  "omit_empty e m = (if e then [] else [m])"

section \<open>Member names\<close>

text \<open>
  \<open>foldName\<close> of \<open>encoding/json\<close>: ASCII letters to upper case, and the two other runes
  that fold to an ASCII letter, U+017F (long s) and U+212A (Kelvin sign), to that letter.
  Other non-ASCII runes never match a name that is all ASCII, so their bytes stay.
\<close>

definition upper_char :: "char \<Rightarrow> char" where
  "upper_char c = (let n = of_char c :: nat in if 97 \<le> n \<and> n \<le> 122 then char_of (n - 32) else c)"

function fold_name :: "string \<Rightarrow> string" where
  "fold_name s =
     (case s of
        [] \<Rightarrow> []
      | c # cs \<Rightarrow>
          if take 2 s = [CHR 0xC5, CHR 0xBF] then CHR ''S'' # fold_name (drop 2 s)
          else if take 3 s = [CHR 0xE2, CHR 0x84, CHR 0xAA] then CHR ''K'' # fold_name (drop 3 s)
          else upper_char c # fold_name cs)"
  by pat_completeness auto
termination
  by (relation "measure length") auto

declare fold_name.simps [simp del]

lemma fold_name_Nil [simp]: "fold_name [] = []"
  by (subst fold_name.simps) simp

lemma fold_name_Cons [simp]:
  "c \<noteq> CHR 0xC5 \<Longrightarrow> c \<noteq> CHR 0xE2 \<Longrightarrow> fold_name (c # cs) = upper_char c # fold_name cs"
  by (subst fold_name.simps) (simp add: numeral_2_eq_2 numeral_3_eq_3)

section \<open>Unmarshalling into a struct\<close>

type_synonym 'r field = "string \<times> (json \<Rightarrow> 'r \<Rightarrow> 'r result)"

definition type_error :: "'r result" where
  "type_error = Inl ''json: cannot unmarshal into Go struct field''"

definition set_field :: "'r field list \<Rightarrow> string \<Rightarrow> json \<Rightarrow> 'r \<Rightarrow> 'r result" where
  "set_field fs k j r =
     (case find (\<lambda>f. fold_name (fst f) = fold_name k) fs of None \<Rightarrow> Inr r | Some f \<Rightarrow> snd f j r)"

primrec dec_members :: "'r field list \<Rightarrow> (string \<times> json) list \<Rightarrow> 'r \<Rightarrow> 'r result" where
  "dec_members fs [] r = Inr r"
| "dec_members fs (m # ms) r = rbind (set_field fs (fst m) (snd m) r) (dec_members fs ms)"

definition dec_struct :: "'r field list \<Rightarrow> json \<Rightarrow> 'r \<Rightarrow> 'r result" where
  "dec_struct fs j r =
     (case j of JNull \<Rightarrow> Inr r | JObj ms \<Rightarrow> dec_members fs ms r | _ \<Rightarrow> type_error)"

definition string_field :: "string \<Rightarrow> (string \<Rightarrow> 'r \<Rightarrow> 'r) \<Rightarrow> 'r field" where
  "string_field k upd =
     (k, \<lambda>j r. case j of JNull \<Rightarrow> Inr r | JStr s \<Rightarrow> Inr (upd s r) | _ \<Rightarrow> type_error)"

definition int_field :: "string \<Rightarrow> nat \<Rightarrow> (int \<Rightarrow> 'r \<Rightarrow> 'r) \<Rightarrow> 'r field" where
  "int_field k bits upd =
     (k, \<lambda>j r. case j of
           JNull \<Rightarrow> Inr r
         | JNum lit \<Rightarrow> (case parse_int bits lit of Inl e \<Rightarrow> type_error | Inr i \<Rightarrow> Inr (upd i r))
         | _ \<Rightarrow> type_error)"

definition uint_field :: "string \<Rightarrow> nat \<Rightarrow> (nat \<Rightarrow> 'r \<Rightarrow> 'r) \<Rightarrow> 'r field" where
  "uint_field k bits upd =
     (k, \<lambda>j r. case j of
           JNull \<Rightarrow> Inr r
         | JNum lit \<Rightarrow> (case parse_uint bits lit of Inl e \<Rightarrow> type_error | Inr n \<Rightarrow> Inr (upd n r))
         | _ \<Rightarrow> type_error)"

text \<open>A \<open>json.RawMessage\<close> field takes any value, \<open>null\<close> too.\<close>

definition raw_field :: "string \<Rightarrow> (raw \<Rightarrow> 'r \<Rightarrow> 'r) \<Rightarrow> 'r field" where
  "raw_field k upd = (k, \<lambda>j r. Inr (upd (Some j) r))"

text \<open>A nested struct is decoded into the value the field already has.\<close>

definition struct_field ::
  "string \<Rightarrow> 'a field list \<Rightarrow> ('r \<Rightarrow> 'a) \<Rightarrow> ('a \<Rightarrow> 'r \<Rightarrow> 'r) \<Rightarrow> 'r field" where
  "struct_field k fs get upd =
     (k, \<lambda>j r. rbind (dec_struct fs j (get r)) (\<lambda>a. Inr (upd a r)))"

text \<open>
  A slice of structs: element \<open>i\<close> is decoded into the element the slice already has there,
  else into a zero value; \<open>null\<close> makes the slice nil, which the code uses as an empty one.
\<close>

fun dec_elems :: "'a field list \<Rightarrow> 'a \<Rightarrow> 'a list \<Rightarrow> json list \<Rightarrow> 'a list result" where
  "dec_elems fs zero old [] = Inr []"
| "dec_elems fs zero old (j # js) =
     rbind (dec_struct fs j (case old of [] \<Rightarrow> zero | a # _ \<Rightarrow> a))
       (\<lambda>a. rbind (dec_elems fs zero (tl old) js) (\<lambda>as. Inr (a # as)))"

definition slice_field ::
  "string \<Rightarrow> 'a field list \<Rightarrow> 'a \<Rightarrow> ('r \<Rightarrow> 'a list) \<Rightarrow> ('a list \<Rightarrow> 'r \<Rightarrow> 'r) \<Rightarrow> 'r field" where
  "slice_field k fs zero get upd =
     (k, \<lambda>j r. case j of
           JNull \<Rightarrow> Inr (upd [] r)
         | JArr js \<Rightarrow> rbind (dec_elems fs zero (get r) js) (\<lambda>as. Inr (upd as r))
         | _ \<Rightarrow> type_error)"

text \<open>\<open>json.Unmarshal(raw, &v)\<close>: nil or empty bytes are a syntax error.\<close>

definition unmarshal_raw :: "(json \<Rightarrow> 'r result) \<Rightarrow> raw \<Rightarrow> 'r result" where
  "unmarshal_raw dec r =
     (case r of None \<Rightarrow> Inl ''unexpected end of JSON input'' | Some j \<Rightarrow> dec j)"

section \<open>Evaluation rules\<close>

named_theorems json_simps "rules that evaluate encoders and decoders"

lemma dec_struct_simps [json_simps]:
  "dec_struct fs JNull r = Inr r"
  "dec_struct fs (JObj ms) r = dec_members fs ms r"
  "dec_struct fs (JBool b) r = type_error"
  "dec_struct fs (JNum l) r = type_error"
  "dec_struct fs (JStr s) r = type_error"
  "dec_struct fs (JArr js) r = type_error"
  by (simp_all add: dec_struct_def)

lemma dec_members_append:
  "dec_members fs (xs @ ys) r = rbind (dec_members fs xs r) (dec_members fs ys)"
proof (induction xs arbitrary: r)
  case (Cons m xs)
  then show ?case by (cases "set_field fs (fst m) (snd m) r") auto
qed simp

lemma set_field_simps [json_simps]:
  "set_field [] k j r = Inr r"
  "set_field (f # fs) k j r = (if fold_name (fst f) = fold_name k then snd f j r else set_field fs k j r)"
  by (simp_all add: set_field_def)

lemma field_names [json_simps]:
  "fst (string_field k us) = k"
  "fst (int_field k bits ui) = k"
  "fst (uint_field k bits un) = k"
  "fst (raw_field k ur) = k"
  "fst (struct_field k fs get ua) = k"
  "fst (slice_field k fs zero gets uas) = k"
  by (simp_all add: string_field_def int_field_def uint_field_def raw_field_def
      struct_field_def slice_field_def)

lemma string_field_simps [json_simps]:
  "snd (string_field k upd) (JStr s) r = Inr (upd s r)"
  "snd (string_field k upd) JNull r = Inr r"
  by (simp_all add: string_field_def)

lemma int_field_simps [json_simps]:
  "in_int bits i \<Longrightarrow> snd (int_field k bits upd) (enc_int i) r = Inr (upd i r)"
  "snd (int_field k bits upd) JNull r = Inr r"
  by (simp_all add: int_field_def enc_int_def parse_int_itoa)

lemma uint_field_simps [json_simps]:
  "n < 2 ^ bits \<Longrightarrow> snd (uint_field k bits upd) (JNum (digits n)) r = Inr (upd n r)"
  "snd (uint_field k bits upd) JNull r = Inr r"
  by (simp_all add: uint_field_def parse_uint_digits)

lemma raw_field_simps [json_simps]:
  "snd (raw_field k upd) j r = Inr (upd (Some j) r)"
  by (simp add: raw_field_def)

lemma struct_field_simps [json_simps]:
  "snd (struct_field k fs get upd) j r = rbind (dec_struct fs j (get r)) (\<lambda>a. Inr (upd a r))"
  by (simp add: struct_field_def)

lemma slice_field_simps [json_simps]:
  "snd (slice_field k fs zero get upd) (JArr js) r =
     rbind (dec_elems fs zero (get r) js) (\<lambda>as. Inr (upd as r))"
  "snd (slice_field k fs zero get upd) JNull r = Inr (upd [] r)"
  by (simp_all add: slice_field_def)

lemma unmarshal_raw_simps [simp]:
  "unmarshal_raw dec None = Inl ''unexpected end of JSON input''"
  "unmarshal_raw dec (Some j) = dec j"
  by (simp_all add: unmarshal_raw_def)

text \<open>Decoding a slice that was encoded element by element gives the elements back.\<close>

lemma dec_elems_map:
  "(\<And>x. x \<in> set xs \<Longrightarrow> dec_struct fs (enc x) zero = Inr x) \<Longrightarrow>
   dec_elems fs zero [] (map enc xs) = Inr xs"
  by (induction xs) auto

section \<open>Codecs\<close>

text \<open>
  The contract between a sender and a receiver: what the receiver's \<open>json.Unmarshal\<close> makes
  of the text the sender's \<open>json.Marshal\<close> produced. The two packages of the repository
  declare their own structs for the same text, so the receiver's type may differ from the
  sender's; \<open>view\<close> relates them. \<open>valid\<close> says which values fit the field widths.
\<close>

locale json_link =
  fixes enc :: "'a \<Rightarrow> json"
    and dec :: "json \<Rightarrow> 'b result"
    and valid :: "'a \<Rightarrow> bool"
    and view :: "'a \<Rightarrow> 'b"
  assumes dec_enc: "valid x \<Longrightarrow> dec (enc x) = Inr (view x)"
begin

lemma unmarshal_marshal: "valid x \<Longrightarrow> unmarshal_raw dec (Some (enc x)) = Inr (view x)"
  by (simp add: dec_enc)

text \<open>A value passes through a \<open>json.RawMessage\<close> field of another struct unchanged.\<close>

lemma through_raw:
  "valid x \<Longrightarrow> unmarshal_raw dec (Some (enc_raw (Some (enc x)))) = Inr (view x)"
  by (simp add: enc_raw_def dec_enc)

lemma enc_separates: "valid x \<Longrightarrow> valid y \<Longrightarrow> enc x = enc y \<Longrightarrow> view x = view y"
  by (metis dec_enc sum.inject(2))

end

text \<open>A struct that is decoded by its own package: nothing is lost.\<close>

locale json_codec = json_link enc dec valid "\<lambda>x. x"
  for enc :: "'a \<Rightarrow> json" and dec :: "json \<Rightarrow> 'a result" and valid :: "'a \<Rightarrow> bool"
begin

lemma enc_inj: "inj_on enc {x. valid x}"
  by (rule inj_onI) (auto dest: enc_separates)

end

end
