(* ===== verification/SigMessage.thy ===== *)
theory SigMessage
  imports Json
begin

text \<open>
  \<^verbatim>\<open>internal/signaling/message.go\<close>: the envelope of the signaling protocol, the payloads
  the server sends, and their JSON. Each struct has an encoder (\<open>json.Marshal\<close> with its
  tags), a table of its fields and a decoder (\<open>json.Unmarshal\<close> into a zero value), and an
  interpretation of \<open>json_codec\<close>: what is encoded is decoded to the same value as long as
  its integers fit \<open>int64\<close>.
\<close>

section \<open>Message types\<close>

definition PeerRegistered :: string where "PeerRegistered = ''peer_registered''"
definition PeerList :: string where "PeerList = ''peer_list''"
definition PeerJoined :: string where "PeerJoined = ''peer_joined''"
definition PeerLeft :: string where "PeerLeft = ''peer_left''"
definition Signal :: string where "Signal = ''signal''"
definition Error :: string where "Error = ''error''"

lemmas msg_type_defs =
  PeerRegistered_def PeerList_def PeerJoined_def PeerLeft_def Signal_def Error_def

section \<open>The envelope\<close>

record message =
  m_type :: string
  m_from :: string
  m_to :: string
  m_data :: raw
  m_timestamp :: int

definition zero_message :: message where
  "zero_message = \<lparr>m_type = '''', m_from = '''', m_to = '''', m_data = None, m_timestamp = 0\<rparr>"

definition enc_message :: "message \<Rightarrow> json" where
  "enc_message m = JObj
     ([(''type'', JStr (m_type m))] @
      omit_empty (m_from m = '''') (''from'', JStr (m_from m)) @
      omit_empty (m_to m = '''') (''to'', JStr (m_to m)) @
      [(''data'', enc_raw (m_data m)), (''timestamp'', enc_int (m_timestamp m))])"

definition message_fields :: "message field list" where
  "message_fields =
     [string_field ''type'' (\<lambda>s m. m\<lparr>m_type := s\<rparr>),
      string_field ''from'' (\<lambda>s m. m\<lparr>m_from := s\<rparr>),
      string_field ''to'' (\<lambda>s m. m\<lparr>m_to := s\<rparr>),
      raw_field ''data'' (\<lambda>r m. m\<lparr>m_data := r\<rparr>),
      int_field ''timestamp'' 64 (\<lambda>i m. m\<lparr>m_timestamp := i\<rparr>)]"

definition dec_message :: "json \<Rightarrow> message result" where
  "dec_message j = dec_struct message_fields j zero_message"

text \<open>
  Values that survive the wire as they are: the timestamp fits \<open>int64\<close> and the payload is
  not nil (a nil payload is sent as \<open>null\<close> and comes back as the four bytes \<open>null\<close>).
\<close>

definition message_ok :: "message \<Rightarrow> bool" where
  "message_ok m \<longleftrightarrow> in_int 64 (m_timestamp m) \<and> m_data m \<noteq> None"

section \<open>Payloads\<close>

record peer_info =
  pi_id :: string
  pi_joined_at :: int

definition zero_peer_info :: peer_info where
  "zero_peer_info = \<lparr>pi_id = '''', pi_joined_at = 0\<rparr>"

definition enc_peer_info :: "peer_info \<Rightarrow> json" where
  "enc_peer_info p = JObj [(''id'', JStr (pi_id p)), (''joined_at'', enc_int (pi_joined_at p))]"

definition peer_info_fields :: "peer_info field list" where
  "peer_info_fields =
     [string_field ''id'' (\<lambda>s p. p\<lparr>pi_id := s\<rparr>),
      int_field ''joined_at'' 64 (\<lambda>i p. p\<lparr>pi_joined_at := i\<rparr>)]"

definition peer_info_ok :: "peer_info \<Rightarrow> bool" where
  "peer_info_ok p \<longleftrightarrow> in_int 64 (pi_joined_at p)"

record peer_list_data =
  pl_peers :: "peer_info list"

definition enc_peer_list :: "peer_list_data \<Rightarrow> json" where
  "enc_peer_list d = JObj [(''peers'', JArr (map enc_peer_info (pl_peers d)))]"

definition peer_list_fields :: "peer_list_data field list" where
  "peer_list_fields =
     [slice_field ''peers'' peer_info_fields zero_peer_info pl_peers (\<lambda>ps d. d\<lparr>pl_peers := ps\<rparr>)]"

definition dec_peer_list :: "json \<Rightarrow> peer_list_data result" where
  "dec_peer_list j = dec_struct peer_list_fields j \<lparr>pl_peers = []\<rparr>"

definition peer_list_ok :: "peer_list_data \<Rightarrow> bool" where
  "peer_list_ok d \<longleftrightarrow> list_all peer_info_ok (pl_peers d)"

record signal_data =
  sg_signal_type :: string
  sg_payload :: string

definition enc_signal_data :: "signal_data \<Rightarrow> json" where
  "enc_signal_data d = JObj [(''signal_type'', JStr (sg_signal_type d)), (''payload'', JStr (sg_payload d))]"

definition dec_signal_data :: "json \<Rightarrow> signal_data result" where
  "dec_signal_data j = dec_struct
     [string_field ''signal_type'' (\<lambda>s d. d\<lparr>sg_signal_type := s\<rparr>),
      string_field ''payload'' (\<lambda>s d. d\<lparr>sg_payload := s\<rparr>)] j
     \<lparr>sg_signal_type = '''', sg_payload = ''''\<rparr>"

record registered_data =
  rd_peer_id :: string

definition enc_registered :: "registered_data \<Rightarrow> json" where
  "enc_registered d = JObj [(''peer_id'', JStr (rd_peer_id d))]"

definition dec_registered :: "json \<Rightarrow> registered_data result" where
  "dec_registered j = dec_struct
     [string_field ''peer_id'' (\<lambda>s d. d\<lparr>rd_peer_id := s\<rparr>)] j \<lparr>rd_peer_id = ''''\<rparr>"

record joined_left_data =
  jl_peer :: peer_info

definition enc_joined_left :: "joined_left_data \<Rightarrow> json" where
  "enc_joined_left d = JObj [(''peer'', enc_peer_info (jl_peer d))]"

definition dec_joined_left :: "json \<Rightarrow> joined_left_data result" where
  "dec_joined_left j = dec_struct
     [struct_field ''peer'' peer_info_fields jl_peer (\<lambda>p d. d\<lparr>jl_peer := p\<rparr>)] j
     \<lparr>jl_peer = zero_peer_info\<rparr>"

definition joined_left_ok :: "joined_left_data \<Rightarrow> bool" where
  "joined_left_ok d \<longleftrightarrow> peer_info_ok (jl_peer d)"

record error_data =
  er_message :: string
  er_code :: string

definition enc_error_data :: "error_data \<Rightarrow> json" where
  "enc_error_data d = JObj [(''message'', JStr (er_message d)), (''code'', JStr (er_code d))]"

definition dec_error_data :: "json \<Rightarrow> error_data result" where
  "dec_error_data j = dec_struct
     [string_field ''message'' (\<lambda>s d. d\<lparr>er_message := s\<rparr>),
      string_field ''code'' (\<lambda>s d. d\<lparr>er_code := s\<rparr>)] j
     \<lparr>er_message = '''', er_code = ''''\<rparr>"

section \<open>What is sent is received\<close>

lemma upper_char_lit [simp]:
  "upper_char (CHR ''_'') = CHR ''_''"
  by (simp add: upper_char_def)

lemma dec_peer_info_enc:
  "peer_info_ok p \<Longrightarrow> dec_struct peer_info_fields (enc_peer_info p) q = Inr p"
  by (simp add: peer_info_fields_def enc_peer_info_def peer_info_ok_def json_simps upper_char_def)

interpretation msg: json_codec enc_message dec_message message_ok
proof
  fix m assume "message_ok m"
  then show "dec_message (enc_message m) = Inr m"
    by (cases m)
       (auto simp: dec_message_def enc_message_def message_fields_def zero_message_def
         message_ok_def omit_empty_def enc_raw_def json_simps upper_char_def)
qed

interpretation plist: json_codec enc_peer_list dec_peer_list peer_list_ok
proof
  fix d assume ok: "peer_list_ok d"
  have "dec_elems peer_info_fields zero_peer_info [] (map enc_peer_info (pl_peers d)) = Inr (pl_peers d)"
    using ok by (intro dec_elems_map dec_peer_info_enc) (auto simp: peer_list_ok_def list_all_iff)
  then show "dec_peer_list (enc_peer_list d) = Inr d"
    by (simp add: dec_peer_list_def enc_peer_list_def peer_list_fields_def json_simps)
qed

interpretation sdata: json_codec enc_signal_data dec_signal_data "\<lambda>_. True"
  by unfold_locales
     (simp add: dec_signal_data_def enc_signal_data_def json_simps upper_char_def)

interpretation reg: json_codec enc_registered dec_registered "\<lambda>_. True"
  by unfold_locales (simp add: dec_registered_def enc_registered_def json_simps)

interpretation jleft: json_codec enc_joined_left dec_joined_left joined_left_ok
  by unfold_locales
     (simp add: dec_joined_left_def enc_joined_left_def json_simps joined_left_ok_def dec_peer_info_enc)

interpretation errd: json_codec enc_error_data dec_error_data "\<lambda>_. True"
  by unfold_locales (simp add: dec_error_data_def enc_error_data_def json_simps upper_char_def)

end
