(* ===== verification/Hub.thy ===== *)
theory Hub
  imports SigMessage
begin

text \<open>
  \<^verbatim>\<open>internal/signaling/hub.go\<close>: the hub, which owns the table of connected peers and routes
  every message.

  State: the peer table (\<open>Hub.peers\<close>) and the heap of the peers' \<open>Send\<close> channels, which
  the hub fills and each connection's writer drains. A \<open>Peer\<close> refers to its channel by a
  number, so two table entries may share a channel, as two Go values may.

  Operations: one definition per method, with the same early returns. A handler is an
  \<open>outcome\<close> over the hub: \<open>Blocked\<close> when a plain send meets a full buffer, \<open>Panicked\<close>
  on a send to (or a close of) a closed channel. \<open>env\<close> holds what the runtime chooses
  during one handler: the readings of the clock and the orders of the map iterations.
  \<open>hub_step\<close> is one turn of the loop of \<open>Run\<close>.

  \<open>Hub.mu\<close> is not modelled: the table is used by the one goroutine that runs \<open>Run\<close>.
  The \<open>slog\<close> calls are not modelled.
\<close>

section \<open>State\<close>

record peer =
  peer_id :: string
  peer_send :: nat
  joined_at :: int

record hub =
  peers :: "string \<rightharpoonup> peer"
  chans :: "nat \<Rightarrow> message chan"

record env =
  now :: "nat \<Rightarrow> int"
  range_order :: "nat \<Rightarrow> string list"

text \<open>\<open>time.Now().Unix()\<close> is an \<open>int64\<close>.\<close>

definition clock_ok :: "env \<Rightarrow> bool" where
  "clock_ok e \<longleftrightarrow> (\<forall>k. in_int 64 (now e k))"

lemma in_int_0 [simp]: "in_int 64 0"
  by (simp add: in_int_def)

datatype hub_event =
    Register peer
  | Unregister peer
  | Broadcast message

text \<open>The table starts empty; the channels are made by the connections.\<close>

definition NewHub :: "(nat \<Rightarrow> message chan) \<Rightarrow> hub" where
  "NewHub cs = \<lparr>peers = Map.empty, chans = cs\<rparr>"

text \<open>The buffer \<open>handleWebSocket\<close> gives a peer's channel.\<close>

definition sendCapacity :: nat where
  "sendCapacity = 256"

section \<open>Channel operations on the heap\<close>

definition hub_send :: "message \<Rightarrow> nat \<Rightarrow> hub \<Rightarrow> hub outcome" where
  "hub_send m r h = obind (chan_send m (chans h r)) (\<lambda>c. Done (h\<lparr>chans := (chans h)(r := c)\<rparr>))"

definition hub_offer :: "message \<Rightarrow> nat \<Rightarrow> hub \<Rightarrow> hub outcome" where
  "hub_offer m r h = obind (chan_offer m (chans h r)) (\<lambda>c. Done (h\<lparr>chans := (chans h)(r := c)\<rparr>))"

definition hub_close :: "nat \<Rightarrow> hub \<Rightarrow> hub outcome" where
  "hub_close r h = obind (chan_close (chans h r)) (\<lambda>c. Done (h\<lparr>chans := (chans h)(r := c)\<rparr>))"

section \<open>Operations\<close>

definition mustMarshal :: "json result \<Rightarrow> raw" where
  "mustMarshal r = (case r of Inl e \<Rightarrow> Some (JObj []) | Inr j \<Rightarrow> Some j)"

definition broadcastToAll :: "message \<Rightarrow> string list \<Rightarrow> hub \<Rightarrow> hub outcome" where
  "broadcastToAll m ids h0 =
     foreach (\<lambda>i h. case peers h i of None \<Rightarrow> Done h | Some p \<Rightarrow> hub_offer m (peer_send p) h) ids h0"

definition broadcastToOthers :: "message \<Rightarrow> string \<Rightarrow> string list \<Rightarrow> hub \<Rightarrow> hub outcome" where
  "broadcastToOthers m excludeID ids h0 =
     foreach (\<lambda>i h.
        if i = excludeID then Done h
        else (case peers h i of None \<Rightarrow> Done h | Some p \<Rightarrow> hub_offer m (peer_send p) h)) ids h0"

definition peer_infos :: "string \<Rightarrow> string list \<Rightarrow> (string \<rightharpoonup> peer) \<Rightarrow> peer_info list" where
  "peer_infos self ids tbl =
     concat (map (\<lambda>i. case tbl i of
         None \<Rightarrow> []
       | Some p \<Rightarrow> if i \<noteq> self then [\<lparr>pi_id = i, pi_joined_at = joined_at p\<rparr>] else []) ids)"

definition listMsg :: "int \<Rightarrow> peer_info list \<Rightarrow> message" where
  "listMsg t infos = \<lparr>m_type = PeerList, m_from = '''', m_to = '''',
     m_data = mustMarshal (Inr (enc_peer_list \<lparr>pl_peers = infos\<rparr>)), m_timestamp = t\<rparr>"

definition sendPeerList :: "int \<Rightarrow> string list \<Rightarrow> peer \<Rightarrow> hub \<Rightarrow> hub outcome" where
  "sendPeerList t ids p h =
     hub_send (listMsg t (peer_infos (peer_id p) ids (peers h))) (peer_send p) h"

definition regMsg :: "int \<Rightarrow> peer \<Rightarrow> message" where
  "regMsg t p = \<lparr>m_type = PeerRegistered, m_from = '''', m_to = '''',
     m_data = mustMarshal (Inr (enc_registered \<lparr>rd_peer_id = peer_id p\<rparr>)), m_timestamp = t\<rparr>"

definition joinedMsg :: "int \<Rightarrow> peer \<Rightarrow> message" where
  "joinedMsg t p = \<lparr>m_type = PeerJoined, m_from = '''', m_to = '''',
     m_data = mustMarshal (Inr (enc_joined_left
       \<lparr>jl_peer = \<lparr>pi_id = peer_id p, pi_joined_at = joined_at p\<rparr>\<rparr>)), m_timestamp = t\<rparr>"

definition handleRegister :: "env \<Rightarrow> peer \<Rightarrow> hub \<Rightarrow> hub outcome" where
  "handleRegister e p h =
     (let h1 = h\<lparr>peers := (peers h)(peer_id p \<mapsto> p)\<rparr> in
      obind (hub_send (regMsg (now e 0) p) (peer_send p) h1) (\<lambda>h2.
      obind (sendPeerList (now e 1) (range_order e 0) p h2) (\<lambda>h3.
      broadcastToOthers (joinedMsg (now e 2) p) (peer_id p) (range_order e 1) h3)))"

definition leftMsg :: "int \<Rightarrow> peer \<Rightarrow> message" where
  "leftMsg t p = \<lparr>m_type = PeerLeft, m_from = '''', m_to = '''',
     m_data = mustMarshal (Inr (enc_joined_left
       \<lparr>jl_peer = \<lparr>pi_id = peer_id p, pi_joined_at = 0\<rparr>\<rparr>)), m_timestamp = t\<rparr>"

definition handleUnregister :: "env \<Rightarrow> peer \<Rightarrow> hub \<Rightarrow> hub outcome" where
  "handleUnregister e p h =
     obind
       (case peers h (peer_id p) of
          Some _ \<Rightarrow> hub_close (peer_send p) (h\<lparr>peers := (peers h)(peer_id p := None)\<rparr>)
        | None \<Rightarrow> Done h)
       (broadcastToAll (leftMsg (now e 0) p) (range_order e 0))"

definition errMsg :: "int \<Rightarrow> message \<Rightarrow> message" where
  "errMsg t m = \<lparr>m_type = Error, m_from = '''', m_to = m_from m,
     m_data = mustMarshal (Inr (enc_error_data
       \<lparr>er_message = ''Target peer not found: '' @ m_to m, er_code = ''PEER_NOT_FOUND''\<rparr>)),
     m_timestamp = t\<rparr>"

definition handleBroadcast :: "env \<Rightarrow> message \<Rightarrow> hub \<Rightarrow> hub outcome" where
  "handleBroadcast e m h =
     (if m_to m \<noteq> '''' then
        (case peers h (m_to m) of
           Some target \<Rightarrow> hub_offer m (peer_send target) h
         | None \<Rightarrow>
             (case peers h (m_from m) of
                Some sender \<Rightarrow> hub_send (errMsg (now e 0) m) (peer_send sender) h
              | None \<Rightarrow> Done h))
      else broadcastToAll m (range_order e 0) h)"

definition hub_step :: "env \<Rightarrow> hub_event \<Rightarrow> hub \<Rightarrow> hub outcome" where
  "hub_step e ev h =
     (case ev of
        Register p \<Rightarrow> handleRegister e p h
      | Unregister p \<Rightarrow> handleUnregister e p h
      | Broadcast m \<Rightarrow> handleBroadcast e m h)"

text \<open>The loop of \<open>Run\<close> over the requests it takes from its three channels.\<close>

definition hub_run :: "(env \<times> hub_event) list \<Rightarrow> hub \<Rightarrow> hub outcome" where
  "hub_run evs = foreach (\<lambda>(e, ev). hub_step e ev) evs"

section \<open>The invariant\<close>

definition chan_ok :: "message chan \<Rightarrow> bool" where
  "chan_ok c \<longleftrightarrow> \<not> closed c \<and> length (buf c) \<le> capacity c"

text \<open>
  Table keys are the peers' identifiers, every registered channel is open and within its
  capacity, and no two entries share a channel.
\<close>

definition hub_inv :: "hub \<Rightarrow> bool" where
  "hub_inv h \<longleftrightarrow>
     finite (dom (peers h)) \<and>
     (\<forall>i p. peers h i = Some p \<longrightarrow> peer_id p = i \<and> chan_ok (chans h (peer_send p))) \<and>
     (\<forall>i j p q. peers h i = Some p \<longrightarrow> peers h j = Some q \<longrightarrow> peer_send p = peer_send q \<longrightarrow> i = j)"

definition uses_chan :: "hub \<Rightarrow> nat \<Rightarrow> bool" where
  "uses_chan h r \<longleftrightarrow> (\<exists>i p. peers h i = Some p \<and> peer_send p = r)"

text \<open>
  A peer as \<open>handleWebSocket\<close> makes it: an identifier nobody has and a new channel.
\<close>

definition fresh_peer :: "hub \<Rightarrow> peer \<Rightarrow> bool" where
  "fresh_peer h p \<longleftrightarrow>
     peers h (peer_id p) = None \<and> \<not> uses_chan h (peer_send p) \<and>
     chans h (peer_send p) = make_chan sendCapacity"

text \<open>The peer that a connection unregisters is its own entry, or has no entry any more.\<close>

definition own_entry :: "hub \<Rightarrow> peer \<Rightarrow> bool" where
  "own_entry h p \<longleftrightarrow> peers h (peer_id p) = None \<or> peers h (peer_id p) = Some p"

lemma hub_inv_chan: "hub_inv h \<Longrightarrow> peers h i = Some p \<Longrightarrow> chan_ok (chans h (peer_send p))"
  by (simp add: hub_inv_def)

lemma hub_inv_id: "hub_inv h \<Longrightarrow> peers h i = Some p \<Longrightarrow> peer_id p = i"
  by (simp add: hub_inv_def)

lemma hub_inv_inj:
  "hub_inv h \<Longrightarrow> peers h i = Some p \<Longrightarrow> peers h j = Some q \<Longrightarrow> peer_send p = peer_send q \<Longrightarrow> i = j"
  by (simp add: hub_inv_def)

lemma hub_invI:
  assumes "finite (dom (peers h))"
    and "\<And>i p. peers h i = Some p \<Longrightarrow> peer_id p = i"
    and "\<And>i p. peers h i = Some p \<Longrightarrow> chan_ok (chans h (peer_send p))"
    and "\<And>i j p q. peers h i = Some p \<Longrightarrow> peers h j = Some q \<Longrightarrow> peer_send p = peer_send q \<Longrightarrow> i = j"
  shows "hub_inv h"
  using assms by (simp add: hub_inv_def)

lemma hub_inv_finite: "hub_inv h \<Longrightarrow> finite (dom (peers h))"
  by (simp add: hub_inv_def)

lemma hub_inv_NewHub: "hub_inv (NewHub cs)"
  by (simp add: hub_inv_def NewHub_def)

lemma mustMarshal_Inr [simp]: "mustMarshal (Inr j) = Some j"
  by (simp add: mustMarshal_def)

end
