(* ===== verification/HubDelivery.thy ===== *)
theory HubDelivery
  imports Hub
begin

text \<open>
  What the hub's broadcast loops do, in closed form. A loop over the table is a loop over the
  channels of the peers it selects; these are independent cells, so the interface
  \<open>cell_store\<close> of the prelude gives its result and its independence of the iteration order.
  \<open>deliver m S h\<close> is the hub after a non-blocking send of \<open>m\<close> to every registered
  peer in \<open>S\<close>.
\<close>

definition deliver :: "message \<Rightarrow> string set \<Rightarrow> hub \<Rightarrow> hub" where
  "deliver m S h = h\<lparr>chans := (\<lambda>r.
     if \<exists>i p. i \<in> S \<and> peers h i = Some p \<and> peer_send p = r then offered m (chans h r) else chans h r)\<rparr>"

lemma deliver_peers [simp]: "peers (deliver m S h) = peers h"
  by (simp add: deliver_def)

lemma deliver_none: "(\<And>i. i \<in> S \<Longrightarrow> peers h i = None) \<Longrightarrow> deliver m S h = h"
  by (simp add: deliver_def cong: conj_cong)

interpretation sends: cell_store "hub_offer m" chans "offered m" peers "\<lambda>c. \<not> closed c" for m
proof
  fix s :: hub and k
  assume "\<not> closed (chans s k)"
  then show "\<exists>t. hub_offer m k s = Done t \<and>
      chans t = (chans s)(k := offered m (chans s k)) \<and> peers t = peers s"
    by (simp add: hub_offer_def chan_offer_open)
next
  fix s t :: hub
  assume "chans s = chans t" "peers s = peers t"
  then show "s = t" by simp
qed

definition target_of :: "(string \<Rightarrow> bool) \<Rightarrow> (string \<rightharpoonup> peer) \<Rightarrow> string \<Rightarrow> nat list" where
  "target_of P tbl i =
     (case tbl i of None \<Rightarrow> [] | Some p \<Rightarrow> if P i then [peer_send p] else [])"

lemma target_of_simps [simp]:
  "tbl i = None \<Longrightarrow> target_of P tbl i = []"
  "\<not> P i \<Longrightarrow> target_of P tbl i = []"
  "P i \<Longrightarrow> tbl i = Some p \<Longrightarrow> target_of P tbl i = [peer_send p]"
  by (auto simp: target_of_def split: option.split)

definition targets :: "(string \<Rightarrow> bool) \<Rightarrow> string list \<Rightarrow> (string \<rightharpoonup> peer) \<Rightarrow> nat list" where
  "targets P ids tbl = concat (map (target_of P tbl) ids)"

lemma targets_simps [simp]:
  "targets P [] tbl = []"
  "targets P (i # ids) tbl = target_of P tbl i @ targets P ids tbl"
  by (simp_all add: targets_def)

lemma set_targets:
  "r \<in> set (targets P ids tbl) \<longleftrightarrow> (\<exists>i p. i \<in> set ids \<and> P i \<and> tbl i = Some p \<and> peer_send p = r)"
proof (induction ids)
  case (Cons j ids)
  then show ?case by (cases "P j \<and> tbl j \<noteq> None") auto
qed simp

lemma distinct_targets:
  assumes "distinct ids"
    and inj: "\<And>i j p q. tbl i = Some p \<Longrightarrow> tbl j = Some q \<Longrightarrow> peer_send p = peer_send q \<Longrightarrow> i = j"
  shows "distinct (targets P ids tbl)"
  using assms(1)
proof (induction ids)
  case (Cons i ids)
  have "peer_send p \<notin> set (targets P ids tbl)" if "tbl i = Some p" for p
    using that Cons.prems inj by (auto simp: set_targets)
  with Cons show ?case by (cases "P i \<and> tbl i \<noteq> None") auto
qed simp

lemma hub_offer_peers: "hub_offer m r h = Done h' \<Longrightarrow> peers h' = peers h"
  by (auto simp: hub_offer_def obind_eq_Done_iff)

lemma foreach_targets:
  "foreach (\<lambda>i h. if P i then (case peers h i of None \<Rightarrow> Done h | Some p \<Rightarrow> hub_offer m (peer_send p) h)
     else Done h) ids h = foreach (hub_offer m) (targets P ids (peers h)) h"
proof (induction ids arbitrary: h)
  case (Cons i ids)
  show ?case
  proof (cases "P i \<and> peers h i \<noteq> None")
    case True
    then obtain p where "P i" "peers h i = Some p" by auto
    then show ?thesis
      by (simp add: Cons.IH hub_offer_peers cong: obind_cong)
  next
    case False
    then show ?thesis by (auto simp: Cons.IH)
  qed
qed simp

lemma broadcast_loop:
  assumes inv: "hub_inv h" and ord: "visits ids (peers h)"
  shows "foreach (\<lambda>i h. if P i then (case peers h i of None \<Rightarrow> Done h | Some p \<Rightarrow> hub_offer m (peer_send p) h)
     else Done h) ids h = Done (deliver m {i. P i} h)"
proof -
  let ?rs = "targets P ids (peers h)"
  have mem: "r \<in> set ?rs \<longleftrightarrow> (\<exists>i p. P i \<and> peers h i = Some p \<and> peer_send p = r)" for r
    using ord by (auto simp: set_targets visits_def)
  have "distinct ?rs"
    using ord hub_inv_inj[OF inv] by (intro distinct_targets) (auto simp: visits_def)
  moreover have "\<not> closed (chans h r)" if "r \<in> set ?rs" for r
    using that hub_inv_chan[OF inv] by (auto simp: mem chan_ok_def)
  ultimately obtain t where t: "foreach (hub_offer m) ?rs h = Done t" "peers t = peers h"
      "chans t = (\<lambda>r. if r \<in> set ?rs then offered m (chans h r) else chans h r)"
    using sends.foreach_put[of ?rs h m] by blast
  have "t = deliver m {i. P i} h"
    by (rule sends.state_ext) (simp_all add: t deliver_def mem)
  then show ?thesis using t(1) by (simp add: foreach_targets)
qed

lemma broadcastToAll_eq:
  "hub_inv h \<Longrightarrow> visits ids (peers h) \<Longrightarrow> broadcastToAll m ids h = Done (deliver m UNIV h)"
  using broadcast_loop[of h ids "\<lambda>_. True" m] by (simp add: broadcastToAll_def)

lemma broadcastToOthers_eq:
  assumes "hub_inv h" "visits ids (peers h)"
  shows "broadcastToOthers m x ids h = Done (deliver m (- {x}) h)"
proof -
  have "broadcastToOthers m x ids h =
      foreach (\<lambda>i h. if i \<noteq> x then (case peers h i of None \<Rightarrow> Done h | Some p \<Rightarrow> hub_offer m (peer_send p) h)
        else Done h) ids h"
    unfolding broadcastToOthers_def by (rule foreach_cong) auto
  then show ?thesis
    using broadcast_loop[OF assms, of "\<lambda>i. i \<noteq> x" m] by (simp add: Compl_eq)
qed

text \<open>One channel after a delivery.\<close>

lemma deliver_chan:
  assumes "hub_inv h" "peers h i = Some p"
  shows "chans (deliver m S h) (peer_send p) =
    (if i \<in> S then offered m (chans h (peer_send p)) else chans h (peer_send p))"
  using assms hub_inv_inj[OF assms(1)] by (auto simp: deliver_def)

lemma deliver_unused: "\<not> uses_chan h r \<Longrightarrow> chans (deliver m S h) r = chans h r"
  by (auto simp: deliver_def uses_chan_def)

lemma chan_ok_offered: "chan_ok c \<Longrightarrow> chan_ok (offered m c)"
  by (auto simp: chan_ok_def offered_bound)

lemma hub_inv_deliver: "hub_inv h \<Longrightarrow> hub_inv (deliver m S h)"
proof -
  assume inv: "hub_inv h"
  have "chan_ok (chans (deliver m S h) (peer_send p))" if "peers h i = Some p" for i p
    using that by (simp add: deliver_chan[OF inv] hub_inv_chan[OF inv] chan_ok_offered)
  then show ?thesis
    using inv by (simp add: hub_inv_def)
qed

lemma deliver_single:
  assumes "hub_inv h" "peers h i = Some p"
  shows "deliver m {i} h = h\<lparr>chans := (chans h)(peer_send p := offered m (chans h (peer_send p)))\<rparr>"
  by (rule sends.state_ext) (auto simp: deliver_def assms)

lemma hub_offer_deliver:
  assumes "hub_inv h" "peers h i = Some p"
  shows "hub_offer m (peer_send p) h = Done (deliver m {i} h)"
  using hub_inv_chan[OF assms]
  by (simp add: deliver_single[OF assms] hub_offer_def chan_ok_def chan_offer_open)

lemma hub_send_deliver:
  assumes "hub_inv h" "peers h i = Some p"
  shows "hub_send m (peer_send p) h =
    (if full (chans h (peer_send p)) then Blocked else Done (deliver m {i} h))"
  using hub_inv_chan[OF assms]
  by (simp add: deliver_single[OF assms] hub_send_def chan_ok_def chan_send_def offered_def)

end
