(* ===== verification/HubCorrect.thy ===== *)
theory HubCorrect
  imports HubDelivery
begin

text \<open>
  Correctness of the hub: each handler in closed form, the invariant, absence of panics, when
  a handler waits, FIFO order, and the refinement of a directory of mailboxes.
\<close>

section \<open>What the environment guarantees\<close>

fun table_after :: "hub_event \<Rightarrow> (string \<rightharpoonup> peer) \<Rightarrow> (string \<rightharpoonup> peer)" where
  "table_after (Register p) tbl = tbl(peer_id p \<mapsto> p)"
| "table_after (Unregister p) tbl = tbl(peer_id p := None)"
| "table_after (Broadcast m) tbl = tbl"

fun event_ok :: "hub_event \<Rightarrow> hub \<Rightarrow> bool" where
  "event_ok (Register p) h = fresh_peer h p"
| "event_ok (Unregister p) h = own_entry h p"
| "event_ok (Broadcast m) h = True"

definition env_ok :: "env \<Rightarrow> (string \<rightharpoonup> peer) \<Rightarrow> bool" where
  "env_ok e tbl \<longleftrightarrow> (\<forall>k. visits (range_order e k) tbl)"

definition request_ok :: "env \<times> hub_event \<Rightarrow> hub \<Rightarrow> bool" where
  "request_ok r h \<longleftrightarrow> event_ok (snd r) h \<and> env_ok (fst r) (table_after (snd r) (peers h))"

section \<open>Closed forms of the handlers\<close>

text \<open>The new entry with the two messages its own channel starts with.\<close>

definition greeting :: "env \<Rightarrow> peer \<Rightarrow> (string \<rightharpoonup> peer) \<Rightarrow> message list" where
  "greeting e p tbl =
     [regMsg (now e 0) p, listMsg (now e 1) (peer_infos (peer_id p) (range_order e 0) tbl)]"

definition admit :: "env \<Rightarrow> peer \<Rightarrow> hub \<Rightarrow> hub" where
  "admit e p h =
     (let tbl = (peers h)(peer_id p \<mapsto> p) in
      h\<lparr>peers := tbl,
        chans := (chans h)(peer_send p := (chans h (peer_send p))\<lparr>buf := greeting e p tbl\<rparr>)\<rparr>)"

lemma fresh_peerD:
  assumes "fresh_peer h p"
  shows "peers h (peer_id p) = None" "\<not> uses_chan h (peer_send p)"
    "chans h (peer_send p) = make_chan sendCapacity"
  using assms by (simp_all add: fresh_peer_def)

lemma fresh_peer_other:
  "fresh_peer h p \<Longrightarrow> peers h i = Some q \<Longrightarrow> peer_send q \<noteq> peer_send p"
  by (auto simp: fresh_peer_def uses_chan_def)

lemma hub_inv_update_fresh:
  assumes inv: "hub_inv h" and fresh: "fresh_peer h p" and ok: "chan_ok c"
  shows "hub_inv (h\<lparr>peers := (peers h)(peer_id p \<mapsto> p), chans := (chans h)(peer_send p := c)\<rparr>)"
proof (rule hub_invI)
  fix i j q r
  assume "peers (h\<lparr>peers := (peers h)(peer_id p \<mapsto> p), chans := (chans h)(peer_send p := c)\<rparr>) i = Some q"
    and "peers (h\<lparr>peers := (peers h)(peer_id p \<mapsto> p), chans := (chans h)(peer_send p := c)\<rparr>) j = Some r"
    and "peer_send q = peer_send r"
  then show "i = j"
    by (auto split: if_splits dest: fresh_peer_other[OF fresh] hub_inv_inj[OF inv])
qed (use ok in \<open>auto split: if_splits simp: hub_inv_finite[OF inv]
       dest: hub_inv_id[OF inv] hub_inv_chan[OF inv]\<close>)

lemma hub_inv_admit:
  assumes "hub_inv h" "fresh_peer h p"
  shows "hub_inv (admit e p h)"
  unfolding admit_def Let_def
  by (rule hub_inv_update_fresh[OF assms])
     (simp add: chan_ok_def greeting_def fresh_peerD[OF assms(2)] sendCapacity_def)

lemma handleRegister_eq:
  assumes inv: "hub_inv h" and fresh: "fresh_peer h p"
    and env: "env_ok e ((peers h)(peer_id p \<mapsto> p))"
  shows "handleRegister e p h = Done (deliver (joinedMsg (now e 2) p) (- {peer_id p}) (admit e p h))"
proof -
  let ?h1 = "h\<lparr>peers := (peers h)(peer_id p \<mapsto> p)\<rparr>"
  let ?tbl = "(peers h)(peer_id p \<mapsto> p)"
  let ?put = "\<lambda>ms. ?h1\<lparr>chans := (chans h)(peer_send p := (make_chan sendCapacity)\<lparr>buf := ms\<rparr>)\<rparr>"
  note c = fresh_peerD(3)[OF fresh]
  have 1: "hub_send (regMsg (now e 0) p) (peer_send p) ?h1 = Done (?put [regMsg (now e 0) p])"
    by (simp add: hub_send_def chan_send_def c sendCapacity_def make_chan_def)
  have 2: "sendPeerList (now e 1) (range_order e 0) p (?put [regMsg (now e 0) p]) = Done (admit e p h)"
    by (simp add: sendPeerList_def hub_send_def chan_send_def c sendCapacity_def make_chan_def
        admit_def greeting_def Let_def)
  have 3: "broadcastToOthers (joinedMsg (now e 2) p) (peer_id p) (range_order e 1) (admit e p h)
      = Done (deliver (joinedMsg (now e 2) p) (- {peer_id p}) (admit e p h))"
    using env hub_inv_admit[OF inv fresh]
    by (intro broadcastToOthers_eq) (simp_all add: env_ok_def admit_def Let_def)
  show ?thesis
    by (simp only: handleRegister_def Let_def 1 2 3 obind.simps)
qed

text \<open>The hub without a peer, its channel closed.\<close>

definition evict :: "peer \<Rightarrow> hub \<Rightarrow> hub" where
  "evict p h = (case peers h (peer_id p) of
       Some _ \<Rightarrow> h\<lparr>peers := (peers h)(peer_id p := None),
         chans := (chans h)(peer_send p := (chans h (peer_send p))\<lparr>closed := True\<rparr>)\<rparr>
     | None \<Rightarrow> h)"

lemma evict_peers [simp]: "peers (evict p h) = (peers h)(peer_id p := None)"
  by (auto simp: evict_def split: option.split)

lemma hub_inv_evict:
  assumes inv: "hub_inv h" and own: "own_entry h p"
  shows "hub_inv (evict p h)"
proof (cases "peers h (peer_id p)")
  case None
  then show ?thesis using inv by (simp add: evict_def)
next
  case (Some q)
  with own have p: "peers h (peer_id p) = Some p" by (simp add: own_entry_def)
  have other: "peer_send q \<noteq> peer_send p" if "peers h i = Some q" "i \<noteq> peer_id p" for i q
    using that hub_inv_inj[OF inv _ p] by auto
  show ?thesis
  proof (rule hub_invI)
    fix i j q r
    assume "peers (evict p h) i = Some q" "peers (evict p h) j = Some r" "peer_send q = peer_send r"
    then show "i = j" by (auto split: if_splits dest: hub_inv_inj[OF inv])
  qed (auto simp: hub_inv_finite[OF inv] evict_def p other split: if_splits
         dest: hub_inv_id[OF inv] hub_inv_chan[OF inv])
qed

lemma handleUnregister_eq:
  assumes inv: "hub_inv h" and own: "own_entry h p"
    and env: "env_ok e ((peers h)(peer_id p := None))"
  shows "handleUnregister e p h = Done (deliver (leftMsg (now e 0) p) UNIV (evict p h))"
proof -
  have "(case peers h (peer_id p) of
      Some _ \<Rightarrow> hub_close (peer_send p) (h\<lparr>peers := (peers h)(peer_id p := None)\<rparr>)
    | None \<Rightarrow> Done h) = Done (evict p h)"
  proof (cases "peers h (peer_id p)")
    case None
    then show ?thesis by (simp add: evict_def)
  next
    case (Some q)
    with own have "q = p" by (simp add: own_entry_def)
    with hub_inv_chan[OF inv] Some have "\<not> closed (chans h (peer_send p))"
      by (auto simp: chan_ok_def)
    then show ?thesis
      by (simp add: Some evict_def hub_close_def chan_close_def)
  qed
  moreover have "broadcastToAll (leftMsg (now e 0) p) (range_order e 0) (evict p h)
      = Done (deliver (leftMsg (now e 0) p) UNIV (evict p h))"
    using env hub_inv_evict[OF inv own] by (intro broadcastToAll_eq) (simp_all add: env_ok_def)
  ultimately show ?thesis
    by (simp add: handleUnregister_def)
qed

text \<open>Who a message that is not an error reply goes to.\<close>

definition recipients :: "message \<Rightarrow> string set" where
  "recipients m = (if m_to m = '''' then UNIV else {m_to m})"

definition undeliverable :: "message \<Rightarrow> (string \<rightharpoonup> 'p) \<Rightarrow> bool" where
  "undeliverable m tbl \<longleftrightarrow> m_to m \<noteq> '''' \<and> tbl (m_to m) = None"

lemma handleBroadcast_deliverable:
  assumes "hub_inv h" "env_ok e (peers h)" "\<not> undeliverable m (peers h)"
  shows "handleBroadcast e m h = Done (deliver m (recipients m) h)"
proof (cases "m_to m = ''''")
  case True
  with assms show ?thesis
    by (simp add: handleBroadcast_def recipients_def broadcastToAll_eq env_ok_def)
next
  case False
  with assms(3) obtain p where "peers h (m_to m) = Some p" by (auto simp: undeliverable_def)
  with False show ?thesis
    by (simp add: handleBroadcast_def recipients_def hub_offer_deliver[OF assms(1)])
qed

lemma handleBroadcast_undeliverable:
  assumes "hub_inv h" "undeliverable m (peers h)"
  shows "handleBroadcast e m h =
    (case peers h (m_from m) of
       None \<Rightarrow> Done h
     | Some s \<Rightarrow> if full (chans h (peer_send s)) then Blocked
                 else Done (deliver (errMsg (now e 0) m) {m_from m} h))"
  using assms(2)
  by (auto simp: handleBroadcast_def undeliverable_def hub_send_deliver[OF assms(1)] split: option.split)

section \<open>The specification: a directory of mailboxes\<close>

text \<open>
  What the hub promises, without channels and references: a directory maps each identifier
  to a mailbox, posting to a full mailbox is lost, and every message reaches the mailboxes of
  its recipients. \<open>directory\<close> abstracts the hub to it.
\<close>

record mailbox =
  mb_joined :: int
  mb_cap :: nat
  mb_msgs :: "message list"

definition mailbox_of :: "peer \<Rightarrow> message chan \<Rightarrow> mailbox" where
  "mailbox_of p c = \<lparr>mb_joined = joined_at p, mb_cap = capacity c, mb_msgs = buf c\<rparr>"

definition directory :: "hub \<Rightarrow> string \<Rightarrow> mailbox option" where
  "directory h i =
     (case peers h i of None \<Rightarrow> None | Some p \<Rightarrow> Some (mailbox_of p (chans h (peer_send p))))"

abbreviation mb_full :: "mailbox \<Rightarrow> bool" where
  "mb_full b \<equiv> mb_cap b \<le> length (mb_msgs b)"

definition post :: "message \<Rightarrow> mailbox \<Rightarrow> mailbox" where
  "post m b = (if mb_full b then b else b\<lparr>mb_msgs := mb_msgs b @ [m]\<rparr>)"

definition post_all :: "message \<Rightarrow> string set \<Rightarrow> (string \<rightharpoonup> mailbox) \<Rightarrow> (string \<rightharpoonup> mailbox)" where
  "post_all m S A = (\<lambda>i. map_option (\<lambda>b. if i \<in> S then post m b else b) (A i))"

definition directory_infos :: "string \<Rightarrow> string list \<Rightarrow> (string \<rightharpoonup> mailbox) \<Rightarrow> peer_info list" where
  "directory_infos self ids A =
     concat (map (\<lambda>i. case A i of
         None \<Rightarrow> []
       | Some b \<Rightarrow> if i \<noteq> self then [\<lparr>pi_id = i, pi_joined_at = mb_joined b\<rparr>] else []) ids)"

fun directory_step :: "env \<times> hub_event \<Rightarrow> (string \<rightharpoonup> mailbox) \<Rightarrow> (string \<rightharpoonup> mailbox) outcome" where
  "directory_step (e, Register p) A =
     Done (post_all (joinedMsg (now e 2) p) (- {peer_id p})
       (A(peer_id p \<mapsto> \<lparr>mb_joined = joined_at p, mb_cap = sendCapacity,
           mb_msgs = [regMsg (now e 0) p,
             listMsg (now e 1) (directory_infos (peer_id p) (range_order e 0) A)]\<rparr>)))"
| "directory_step (e, Unregister p) A =
     Done (post_all (leftMsg (now e 0) p) UNIV (A(peer_id p := None)))"
| "directory_step (e, Broadcast m) A =
     (if \<not> undeliverable m A then Done (post_all m (recipients m) A)
      else case A (m_from m) of
        None \<Rightarrow> Done A
      | Some b \<Rightarrow> if mb_full b then Blocked
                  else Done (post_all (errMsg (now e 0) m) {m_from m} A))"

lemma directory_simps [simp]:
  "peers h i = None \<Longrightarrow> directory h i = None"
  "peers h i = Some p \<Longrightarrow> directory h i = Some (mailbox_of p (chans h (peer_send p)))"
  by (simp_all add: directory_def)

lemma directory_None_iff [simp]: "directory h i = None \<longleftrightarrow> peers h i = None"
  by (simp add: directory_def split: option.split)

lemma mailbox_of_offered: "mailbox_of p (offered m c) = post m (mailbox_of p c)"
  by (simp add: mailbox_of_def post_def offered_def)

lemma mailbox_of_simps [simp]:
  "mb_joined (mailbox_of p c) = joined_at p"
  "mb_cap (mailbox_of p c) = capacity c"
  "mb_msgs (mailbox_of p c) = buf c"
  by (simp_all add: mailbox_of_def)

lemma directory_deliver:
  assumes inv: "hub_inv h"
  shows "directory (deliver m S h) = post_all m S (directory h)"
proof
  fix i
  show "directory (deliver m S h) i = post_all m S (directory h) i"
    by (cases "peers h i")
       (simp_all add: post_all_def deliver_chan[OF inv] mailbox_of_offered)
qed

lemma directory_infos_eq:
  "directory_infos self ids (directory h) = peer_infos self ids (peers h)"
proof -
  have "(case directory h i of None \<Rightarrow> []
       | Some b \<Rightarrow> if i \<noteq> self then [\<lparr>pi_id = i, pi_joined_at = mb_joined b\<rparr>] else []) =
      (case peers h i of None \<Rightarrow> []
       | Some p \<Rightarrow> if i \<noteq> self then [\<lparr>pi_id = i, pi_joined_at = joined_at p\<rparr>] else [])" for i
    by (cases "peers h i") simp_all
  then show ?thesis by (simp add: directory_infos_def peer_infos_def)
qed

lemma peer_infos_self: "peer_infos self ids (tbl(self := v)) = peer_infos self ids tbl"
proof -
  have "(case (tbl(self := v)) i of None \<Rightarrow> []
       | Some p \<Rightarrow> if i \<noteq> self then [\<lparr>pi_id = i, pi_joined_at = joined_at p\<rparr>] else []) =
      (case tbl i of None \<Rightarrow> []
       | Some p \<Rightarrow> if i \<noteq> self then [\<lparr>pi_id = i, pi_joined_at = joined_at p\<rparr>] else [])" for i
    by (auto split: option.split)
  then show ?thesis by (simp add: peer_infos_def)
qed

lemma directory_admit:
  assumes inv: "hub_inv h" and fresh: "fresh_peer h p"
  shows "directory (admit e p h) = (directory h)(peer_id p \<mapsto>
    \<lparr>mb_joined = joined_at p, mb_cap = sendCapacity,
      mb_msgs = greeting e p ((peers h)(peer_id p \<mapsto> p))\<rparr>)"
proof
  fix i
  show "directory (admit e p h) i = ((directory h)(peer_id p \<mapsto>
      \<lparr>mb_joined = joined_at p, mb_cap = sendCapacity,
        mb_msgs = greeting e p ((peers h)(peer_id p \<mapsto> p))\<rparr>)) i"
  proof (cases "i = peer_id p")
    case True
    then show ?thesis
      by (simp add: directory_def admit_def Let_def mailbox_of_def fresh_peerD(3)[OF fresh])
  next
    case False
    then show ?thesis
      by (auto simp: directory_def admit_def Let_def fresh_peer_other[OF fresh] split: option.split)
  qed
qed

lemma directory_evict:
  assumes inv: "hub_inv h" and own: "own_entry h p"
  shows "directory (evict p h) = (directory h)(peer_id p := None)"
proof
  fix i
  have other: "peer_send q \<noteq> peer_send p"
    if "peers h (peer_id p) = Some p" "peers h i = Some q" "i \<noteq> peer_id p" for q
    using that hub_inv_inj[OF inv] by blast
  show "directory (evict p h) i = ((directory h)(peer_id p := None)) i"
    using own other by (auto simp: own_entry_def directory_def evict_def split: option.split)
qed

section \<open>The hub refines the directory\<close>

lemma hub_step_cases:
  assumes inv: "hub_inv h" and ok: "request_ok (e, ev) h"
  obtains (register) p where "ev = Register p"
      "hub_step e ev h = Done (deliver (joinedMsg (now e 2) p) (- {peer_id p}) (admit e p h))"
      "fresh_peer h p"
    | (unregister) p where "ev = Unregister p"
      "hub_step e ev h = Done (deliver (leftMsg (now e 0) p) UNIV (evict p h))" "own_entry h p"
    | (delivered) m where "ev = Broadcast m" "\<not> undeliverable m (peers h)"
      "hub_step e ev h = Done (deliver m (recipients m) h)"
    | (ignored) m where "ev = Broadcast m" "undeliverable m (peers h)" "peers h (m_from m) = None"
      "hub_step e ev h = Done h"
    | (replied) m s where "ev = Broadcast m" "undeliverable m (peers h)"
      "peers h (m_from m) = Some s" "\<not> full (chans h (peer_send s))"
      "hub_step e ev h = Done (deliver (errMsg (now e 0) m) {m_from m} h)"
    | (stuck) m s where "ev = Broadcast m" "undeliverable m (peers h)"
      "peers h (m_from m) = Some s" "full (chans h (peer_send s))"
      "hub_step e ev h = Blocked"
proof (cases ev)
  case (Register p)
  with ok show ?thesis
    by (auto simp: request_ok_def hub_step_def handleRegister_eq[OF inv] intro: register)
next
  case (Unregister p)
  with ok show ?thesis
    by (auto simp: request_ok_def hub_step_def handleUnregister_eq[OF inv] intro: unregister)
next
  case (Broadcast m)
  show ?thesis
  proof (cases "undeliverable m (peers h)")
    case False
    with Broadcast ok show ?thesis
      by (auto simp: request_ok_def hub_step_def handleBroadcast_deliverable[OF inv] intro: delivered)
  next
    case True
    note eq = handleBroadcast_undeliverable[OF inv True, of e]
    show ?thesis
    proof (cases "peers h (m_from m)")
      case None
      with eq Broadcast True show ?thesis by (intro ignored) (simp_all add: hub_step_def)
    next
      case (Some s)
      with eq Broadcast True show ?thesis
        by (cases "full (chans h (peer_send s))")
           (auto simp: hub_step_def intro: replied stuck)
    qed
  qed
qed

interpretation hub: simulation "\<lambda>(e, ev). hub_step e ev" directory_step directory hub_inv request_ok
proof
  fix h :: hub and r :: "env \<times> hub_event"
  assume inv: "hub_inv h" and ok: "request_ok r h"
  obtain e ev where r: "r = (e, ev)" by (cases r)
  from ok have ok': "request_ok (e, ev) h" by (simp add: r)
  show "directory_step r (directory h) = omap directory ((\<lambda>(e, ev). hub_step e ev) r h)"
    using inv ok'
  proof (cases rule: hub_step_cases)
    case (register p)
    then show ?thesis
      by (simp add: r directory_deliver hub_inv_admit[OF inv] directory_admit[OF inv]
          greeting_def directory_infos_eq peer_infos_self)
  next
    case (unregister p)
    then show ?thesis
      by (simp add: r directory_deliver hub_inv_evict[OF inv] directory_evict[OF inv])
  qed (simp_all add: r directory_deliver[OF inv] undeliverable_def)
  show "hub_inv t" if "(\<lambda>(e, ev). hub_step e ev) r h = Done t" for t
    using that inv
    by (cases rule: hub_step_cases[OF inv ok']) (auto simp: r intro!: hub_inv_deliver hub_inv_admit hub_inv_evict)
  show "(\<lambda>(e, ev). hub_step e ev) r h \<noteq> Panicked msg" for msg
    by (cases rule: hub_step_cases[OF inv ok']) (simp_all add: r)
qed

end
