(* ===== verification/HubOrder.thy ===== *)
theory HubOrder
  imports HubCorrect
begin

text \<open>
  What a turn of the hub can do to a channel, whatever the state: it appends messages, and
  these are the message being routed or the hub's own, which carry no sender. Nothing is
  taken out, reordered or changed, so each peer receives in the order in which the hub sent.
\<close>

definition appends :: "(message \<Rightarrow> bool) \<Rightarrow> hub \<Rightarrow> hub \<Rightarrow> bool" where
  "appends Q h h' \<longleftrightarrow>
     (\<forall>r. \<exists>ms. buf (chans h' r) = buf (chans h r) @ ms \<and> list_all Q ms)"

lemma appends_refl [intro, simp]: "appends Q h h"
  by (simp add: appends_def)

lemma appends_trans [trans]:
  assumes "appends Q a b" "appends Q b c"
  shows "appends Q a c"
  unfolding appends_def
proof
  fix r
  obtain ms where ms: "buf (chans b r) = buf (chans a r) @ ms" "list_all Q ms"
    using assms(1) by (auto simp: appends_def)
  obtain ns where "buf (chans c r) = buf (chans b r) @ ns" "list_all Q ns"
    using assms(2) by (auto simp: appends_def)
  with ms show "\<exists>ms. buf (chans c r) = buf (chans a r) @ ms \<and> list_all Q ms"
    by (intro exI[of _ "ms @ ns"]) simp
qed

lemma appends_chans: "chans h = chans h' \<Longrightarrow> appends Q h h'"
  by (simp add: appends_def)

lemma appends_send:
  assumes "hub_send m r h = Done h'" "Q m"
  shows "appends Q h h'"
proof -
  have "h' = h\<lparr>chans := (chans h)(r := (chans h r)\<lparr>buf := buf (chans h r) @ [m]\<rparr>)\<rparr>"
    using assms(1) by (auto simp: hub_send_def chan_send_def split: if_splits)
  then show ?thesis using assms(2) by (auto simp: appends_def)
qed

lemma appends_offer:
  assumes "hub_offer m r h = Done h'" "Q m"
  shows "appends Q h h'"
proof -
  have "h' = h \<or> h' = h\<lparr>chans := (chans h)(r := (chans h r)\<lparr>buf := buf (chans h r) @ [m]\<rparr>)\<rparr>"
    using assms(1) by (auto simp: hub_offer_def chan_offer_def split: if_splits)
  then show ?thesis using assms(2) by (auto simp: appends_def)
qed

lemma appends_close: "hub_close r h = Done h' \<Longrightarrow> appends Q h h'"
  by (auto simp: hub_close_def chan_close_def appends_def split: if_splits)

lemma appends_all:
  assumes "broadcastToAll m ids h = Done h'" "Q m"
  shows "appends Q h h'"
  using assms(1) unfolding broadcastToAll_def
proof (rule foreach_invariant[where P = "appends Q h"])
  fix i u u'
  assume "appends Q h u" "(case peers u i of None \<Rightarrow> Done u | Some p \<Rightarrow> hub_offer m (peer_send p) u) = Done u'"
  then show "appends Q h u'"
    by (auto split: option.splits intro: appends_trans appends_offer[where Q = Q, OF _ assms(2)])
qed simp

lemma appends_others:
  assumes "broadcastToOthers m x ids h = Done h'" "Q m"
  shows "appends Q h h'"
  using assms(1) unfolding broadcastToOthers_def
proof (rule foreach_invariant[where P = "appends Q h"])
  fix i u u'
  assume "appends Q h u" "(if i = x then Done u else
      case peers u i of None \<Rightarrow> Done u | Some p \<Rightarrow> hub_offer m (peer_send p) u) = Done u'"
  then show "appends Q h u'"
    by (auto split: option.splits if_splits intro: appends_trans appends_offer[where Q = Q, OF _ assms(2)])
qed simp

text \<open>The messages a turn may send.\<close>

definition may_send :: "hub_event \<Rightarrow> message \<Rightarrow> bool" where
  "may_send ev m \<longleftrightarrow> m_from m = '''' \<or> ev = Broadcast m"

lemma hub_messages_unsigned [simp]:
  "m_from (regMsg t p) = ''''" "m_from (listMsg t infos) = ''''"
  "m_from (joinedMsg t p) = ''''" "m_from (leftMsg t p) = ''''" "m_from (errMsg t m) = ''''"
  by (simp_all add: regMsg_def listMsg_def joinedMsg_def leftMsg_def errMsg_def)

lemma appends_register:
  assumes "handleRegister e p h = Done h'"
  shows "appends (may_send ev) h h'"
proof -
  obtain a b where 1: "hub_send (regMsg (now e 0) p) (peer_send p) (h\<lparr>peers := (peers h)(peer_id p \<mapsto> p)\<rparr>) = Done a"
    and 2: "sendPeerList (now e 1) (range_order e 0) p a = Done b"
    and 3: "broadcastToOthers (joinedMsg (now e 2) p) (peer_id p) (range_order e 1) b = Done h'"
    using assms unfolding handleRegister_def Let_def obind_eq_Done_iff by blast
  have "appends (may_send ev) h (h\<lparr>peers := (peers h)(peer_id p \<mapsto> p)\<rparr>)"
    by (rule appends_chans) simp
  also have "appends (may_send ev) (h\<lparr>peers := (peers h)(peer_id p \<mapsto> p)\<rparr>) a"
    by (rule appends_send[OF 1]) (simp add: may_send_def)
  also have "appends (may_send ev) a b"
    by (rule appends_send[OF 2[unfolded sendPeerList_def]]) (simp add: may_send_def)
  also have "appends (may_send ev) b h'"
    by (rule appends_others[OF 3]) (simp add: may_send_def)
  finally show ?thesis .
qed

lemma appends_unregister:
  assumes "handleUnregister e p h = Done h'"
  shows "appends (may_send ev) h h'"
proof -
  obtain u where "(case peers h (peer_id p) of
      Some _ \<Rightarrow> hub_close (peer_send p) (h\<lparr>peers := (peers h)(peer_id p := None)\<rparr>)
    | None \<Rightarrow> Done h) = Done u"
    and u: "broadcastToAll (leftMsg (now e 0) p) (range_order e 0) u = Done h'"
    using assms by (auto simp: handleUnregister_def obind_eq_Done_iff)
  then have "appends (may_send ev) h u"
  proof (cases "peers h (peer_id p)")
    case (Some q)
    have "appends (may_send ev) h (h\<lparr>peers := (peers h)(peer_id p := None)\<rparr>)"
      by (rule appends_chans) simp
    also have "appends (may_send ev) (h\<lparr>peers := (peers h)(peer_id p := None)\<rparr>) u"
      by (rule appends_close) (use \<open>_ = Done u\<close> Some in simp)
    finally show ?thesis .
  qed simp
  then show ?thesis
    using appends_all[OF u] by (auto simp: may_send_def intro: appends_trans)
qed

lemma appends_step: "hub_step e ev h = Done h' \<Longrightarrow> appends (may_send ev) h h'"
  by (cases ev)
     (auto simp: hub_step_def may_send_def handleBroadcast_def
       intro: appends_register appends_unregister appends_offer appends_send appends_all
       split: if_splits option.splits)

lemma appends_mono: "appends Q h h' \<Longrightarrow> (\<And>m. Q m \<Longrightarrow> R m) \<Longrightarrow> appends R h h'"
  by (fastforce simp: appends_def list_all_iff)

text \<open>Channels that belong to nobody in the table do not change.\<close>

lemma hub_step_unused:
  assumes inv: "hub_inv h" and ok: "request_ok (e, ev) h" and step: "hub_step e ev h = Done h'"
    and unused: "\<not> uses_chan h r" and ev: "\<And>p. ev = Register p \<Longrightarrow> peer_send p \<noteq> r"
  shows "chans h' r = chans h r"
  using inv ok
proof (cases rule: hub_step_cases)
  case (register p)
  have "\<not> uses_chan (admit e p h) r"
    using unused ev[OF register(1)] by (auto simp: uses_chan_def admit_def Let_def split: if_splits)
  then show ?thesis
    using step register ev[OF register(1)] by (auto simp: deliver_unused admit_def Let_def)
next
  case (unregister p)
  have "\<not> uses_chan (evict p h) r"
    using unused by (auto simp: uses_chan_def split: if_splits)
  moreover have "chans (evict p h) r = chans h r"
    using unused unregister(3)
    by (auto simp: evict_def own_entry_def uses_chan_def split: option.split)
  ultimately show ?thesis
    using step unregister by (auto simp: deliver_unused)
qed (use step unused in \<open>auto simp: deliver_unused\<close>)

lemma hub_step_peers:
  assumes inv: "hub_inv h" and ok: "request_ok (e, ev) h" and step: "hub_step e ev h = Done h'"
  shows "peers h' = table_after ev (peers h)"
  using inv ok by (cases rule: hub_step_cases) (use step in \<open>auto simp: admit_def Let_def\<close>)

lemma hub_step_inv:
  assumes inv: "hub_inv h" and ok: "request_ok (e, ev) h" and step: "hub_step e ev h = Done h'"
  shows "hub_inv h'"
  using hub.inv_step[OF inv ok] step by simp

text \<open>The peers a list message names.\<close>

definition info_of :: "string \<Rightarrow> (string \<rightharpoonup> peer) \<Rightarrow> string \<Rightarrow> peer_info list" where
  "info_of self tbl i = (case tbl i of
       None \<Rightarrow> []
     | Some p \<Rightarrow> if i \<noteq> self then [\<lparr>pi_id = i, pi_joined_at = joined_at p\<rparr>] else [])"

lemma info_of_simps [simp]:
  "tbl i = None \<Longrightarrow> info_of self tbl i = []"
  "info_of self tbl self = []"
  "tbl i = Some p \<Longrightarrow> i \<noteq> self \<Longrightarrow> info_of self tbl i = [\<lparr>pi_id = i, pi_joined_at = joined_at p\<rparr>]"
  by (simp_all add: info_of_def split: option.split)

lemma peer_infos_simps [simp]:
  "peer_infos self [] tbl = []"
  "peer_infos self (i # ids) tbl = info_of self tbl i @ peer_infos self ids tbl"
  by (simp_all add: peer_infos_def info_of_def)

lemma peer_infos_mem:
  "x \<in> set (peer_infos self ids tbl) \<longleftrightarrow>
     (\<exists>i p. i \<in> set ids \<and> tbl i = Some p \<and> i \<noteq> self \<and> x = \<lparr>pi_id = i, pi_joined_at = joined_at p\<rparr>)"
proof (induction ids)
  case (Cons j ids)
  then show ?case by (cases "tbl j"; cases "j = self") auto
qed simp

text \<open>A registration in terms of the channels.\<close>

lemma register_turn:
  assumes "hub_inv h" "fresh_peer h p" "env_ok e ((peers h)(peer_id p \<mapsto> p))"
  shows "\<exists>h' infos. hub_step e (Register p) h = Done h' \<and>
    peers h' = (peers h)(peer_id p \<mapsto> p) \<and>
    buf (chans h' (peer_send p)) = [regMsg (now e 0) p, listMsg (now e 1) infos] \<and>
    (\<forall>x. x \<in> set infos \<longleftrightarrow>
       (\<exists>q. peers h (pi_id x) = Some q \<and> pi_joined_at x = joined_at q)) \<and>
    (\<forall>i q. peers h i = Some q \<longrightarrow>
       chans h' (peer_send q) = offered (joinedMsg (now e 2) p) (chans h (peer_send q)))"
proof -
  let ?tbl = "(peers h)(peer_id p \<mapsto> p)"
  let ?h' = "deliver (joinedMsg (now e 2) p) (- {peer_id p}) (admit e p h)"
  let ?infos = "peer_infos (peer_id p) (range_order e 0) ?tbl"
  note inv' = hub_inv_admit[OF assms(1,2)]
  have tbl: "peers (admit e p h) = ?tbl" by (simp add: admit_def Let_def)
  have other: "chans ?h' (peer_send q) = offered (joinedMsg (now e 2) p) (chans h (peer_send q))"
    if q: "peers h i = Some q" for i q
  proof -
    have i: "i \<noteq> peer_id p" using q fresh_peerD(1)[OF assms(2)] by auto
    then have "peers (admit e p h) i = Some q" using q tbl by simp
    from deliver_chan[OF inv' this] i fresh_peer_other[OF assms(2) q]
    show ?thesis by (simp add: admit_def Let_def)
  qed
  have self: "buf (chans ?h' (peer_send p)) = [regMsg (now e 0) p, listMsg (now e 1) ?infos]"
  proof -
    have "peers (admit e p h) (peer_id p) = Some p" using tbl by simp
    from deliver_chan[OF inv' this, of "joinedMsg (now e 2) p" "- {peer_id p}"]
    have "chans ?h' (peer_send p) = chans (admit e p h) (peer_send p)" by simp
    then show ?thesis by (simp add: admit_def Let_def greeting_def)
  qed
  have infos: "x \<in> set ?infos \<longleftrightarrow> (\<exists>q. peers h (pi_id x) = Some q \<and> pi_joined_at x = joined_at q)" for x
  proof -
    have "set (range_order e 0) = dom ?tbl" using assms(3) by (simp add: env_ok_def visits_def)
    then have "x \<in> set ?infos \<longleftrightarrow> (\<exists>i q. i \<in> dom ?tbl \<and> ?tbl i = Some q \<and> i \<noteq> peer_id p \<and>
        x = \<lparr>pi_id = i, pi_joined_at = joined_at q\<rparr>)"
      by (simp only: peer_infos_mem)
    moreover have "i \<in> dom ?tbl \<and> ?tbl i = Some q \<and> i \<noteq> peer_id p \<longleftrightarrow> peers h i = Some q" for i q
      using fresh_peerD(1)[OF assms(2)] by auto
    ultimately have "x \<in> set ?infos \<longleftrightarrow>
        (\<exists>i q. peers h i = Some q \<and> x = \<lparr>pi_id = i, pi_joined_at = joined_at q\<rparr>)"
      by blast
    then show ?thesis by (cases x) auto
  qed
  have "hub_step e (Register p) h = Done ?h'"
    using handleRegister_eq[OF assms] by (simp add: hub_step_def)
  moreover have "peers ?h' = ?tbl" using tbl by simp
  ultimately show ?thesis using self infos other by blast
qed

end
