(* ===== verification/HubProps.thy ===== *)
theory HubProps
  imports HubOrder
begin

text \<open>
  The properties of the hub, over single turns and over runs of its loop, and the concrete
  runs that witness them: two peers join, one writes to the other, one leaves.
\<close>

section \<open>Example runs\<close>

definition alice :: peer where "alice = \<lparr>peer_id = ''a1'', peer_send = 0, joined_at = 5\<rparr>"

definition bob :: peer where "bob = \<lparr>peer_id = ''b2'', peer_send = 1, joined_at = 9\<rparr>"

definition empty_hub :: hub where "empty_hub = NewHub (\<lambda>_. make_chan sendCapacity)"

definition visiting :: "string list \<Rightarrow> env" where
  "visiting ids = \<lparr>now = (\<lambda>_. 10), range_order = (\<lambda>_. ids)\<rparr>"

definition letter :: "string \<Rightarrow> string \<Rightarrow> message" where
  "letter from to = \<lparr>m_type = Signal, m_from = from, m_to = to, m_data = Some (JStr ''hi''), m_timestamp = 7\<rparr>"

text \<open>A hub with both peers, Bob's channel of the given capacity and contents.\<close>

definition pair_hub :: "message chan \<Rightarrow> hub" where
  "pair_hub c = \<lparr>peers = [''a1'' \<mapsto> alice, ''b2'' \<mapsto> bob],
     chans = (\<lambda>_. make_chan sendCapacity)(1 := c)\<rparr>"

lemmas example_defs = alice_def bob_def visiting_def letter_def

lemma pair_hub_inv: "chan_ok c \<Longrightarrow> hub_inv (pair_hub c)"
  by (rule hub_invI) (auto simp: pair_hub_def example_defs chan_ok_def split: if_splits)

lemma pair_hub_env: "env_ok (visiting [''a1'', ''b2'']) (peers (pair_hub c))"
  "env_ok (visiting [''b2'', ''a1'']) (peers (pair_hub c))"
  by (auto simp: env_ok_def visits_def pair_hub_def visiting_def)

lemma pair_hub_peers [simp]:
  "peers (pair_hub c) ''a1'' = Some alice" "peers (pair_hub c) ''b2'' = Some bob"
  "peers (pair_hub c) ''zz'' = None" "chans (pair_hub c) 1 = c" "chans (pair_hub c) (Suc 0) = c"
  "chans (pair_hub c) 0 = make_chan sendCapacity" "peer_send alice = 0" "peer_send bob = 1"
  "peer_id alice = ''a1''" "peer_id bob = ''b2''"
  by (simp_all add: pair_hub_def example_defs)

lemma letter_simps [simp]:
  "m_to (letter f t) = t" "m_from (letter f t) = f"
  by (simp_all add: letter_def)

lemma all_ok_turn:
  assumes inv: "hub_inv h" and ok: "request_ok (e, ev) h"
    and rest: "\<And>h'. hub_inv h' \<Longrightarrow> peers h' = table_after ev (peers h) \<Longrightarrow>
      (\<And>r. \<not> uses_chan h r \<Longrightarrow> (\<And>p. ev = Register p \<Longrightarrow> peer_send p \<noteq> r) \<Longrightarrow> chans h' r = chans h r) \<Longrightarrow>
      all_ok (\<lambda>(e, ev). hub_step e ev) request_ok es h'"
  shows "all_ok (\<lambda>(e, ev). hub_step e ev) request_ok ((e, ev) # es) h"
proof (cases "hub_step e ev h")
  case (Done h')
  have "all_ok (\<lambda>(e, ev). hub_step e ev) request_ok es h'"
    by (rule rest) (use hub_step_inv[OF inv ok Done] hub_step_peers[OF inv ok Done]
        hub_step_unused[OF inv ok Done] in blast)+
  with ok Done show ?thesis by simp
qed (use ok in simp_all)

definition example_run :: "(env \<times> hub_event) list" where
  "example_run =
     [(visiting [''a1''], Register alice), (visiting [''b2'', ''a1''], Register bob),
      (visiting [''a1'', ''b2''], Broadcast (letter ''a1'' ''b2'')), (visiting [''b2''], Unregister alice)]"

lemma example_run_ok: "all_ok (\<lambda>(e, ev). hub_step e ev) request_ok example_run empty_hub"
  unfolding example_run_def
proof (intro all_ok_turn)
  show "hub_inv empty_hub" by (simp add: empty_hub_def hub_inv_NewHub)
  show "request_ok (visiting [''a1''], Register alice) empty_hub"
    by (simp add: request_ok_def env_ok_def visits_def visiting_def fresh_peer_def uses_chan_def
        empty_hub_def NewHub_def)
  fix h1 :: hub
  assume h1: "peers h1 = table_after (Register alice) (peers empty_hub)"
    and chans: "\<And>r. \<not> uses_chan empty_hub r \<Longrightarrow> (\<And>p. Register alice = Register p \<Longrightarrow> peer_send p \<noteq> r) \<Longrightarrow>
      chans h1 r = chans empty_hub r"
  have t1: "peers h1 = [''a1'' \<mapsto> alice]" using h1 by (simp add: empty_hub_def NewHub_def)
  have c1: "chans h1 1 = make_chan sendCapacity"
    using chans[of 1] by (simp add: uses_chan_def empty_hub_def NewHub_def)
  show "request_ok (visiting [''b2'', ''a1''], Register bob) h1"
    using c1 by (auto simp: request_ok_def env_ok_def visits_def visiting_def fresh_peer_def uses_chan_def t1)
  fix h2 :: hub
  assume "peers h2 = table_after (Register bob) (peers h1)"
  then have t2: "peers h2 = [''a1'' \<mapsto> alice, ''b2'' \<mapsto> bob]" by (simp add: t1)
  then show "request_ok (visiting [''a1'', ''b2''], Broadcast (letter ''a1'' ''b2'')) h2"
    by (auto simp: request_ok_def env_ok_def visits_def visiting_def)
  fix h3 :: hub
  assume "peers h3 = table_after (Broadcast (letter ''a1'' ''b2'')) (peers h2)"
  then have "peers h3 = [''a1'' \<mapsto> alice, ''b2'' \<mapsto> bob]" by (simp add: t2)
  then show "request_ok (visiting [''b2''], Unregister alice) h3"
    by (auto simp: request_ok_def env_ok_def visits_def visiting_def own_entry_def split: if_splits)
qed simp_all

section \<open>Runs\<close>

text \<open>C2: Every run of the hub's loop is a run of the directory of mailboxes: same messages in
  the same mailboxes, same outcome, waiting included.\<close>

theorem hub_refines_directory:
  assumes "hub_inv h" "all_ok (\<lambda>(e, ev). hub_step e ev) request_ok evs h"
  shows "foreach directory_step evs (directory h) = omap directory (hub_run evs h)"
  unfolding hub_run_def by (rule hub.run_sim[OF assms])

theorem hub_refines_directory_witness:
  "foreach directory_step example_run (directory empty_hub) = omap directory (hub_run example_run empty_hub)"
  by (rule hub_refines_directory[OF _ example_run_ok]) (simp add: empty_hub_def hub_inv_NewHub)

text \<open>Whatever the requests and the state, the hub only appends to a channel: nothing that
  is queued for a peer is dropped, reordered or changed, so each peer receives in the order
  in which the hub sent.\<close>

theorem hub_run_appends:
  assumes "hub_run evs h = Done h'"
  shows "\<exists>ms. buf (chans h' r) = buf (chans h r) @ ms"
proof -
  have "appends (\<lambda>_. True) h h'"
    using assms unfolding hub_run_def
  proof (rule foreach_invariant[where P = "appends (\<lambda>_. True) h"])
    fix k u u'
    assume u: "appends (\<lambda>_. True) h u" and step: "(\<lambda>(e, ev). hub_step e ev) k u = Done u'"
    obtain e ev where "k = (e, ev)" by (cases k)
    with step have "appends (\<lambda>_. True) u u'"
      using appends_mono[OF appends_step] by simp
    with u show "appends (\<lambda>_. True) h u'" by (rule appends_trans)
  qed simp
  then show ?thesis by (auto simp: appends_def)
qed

lemma letter_to_bob:
  "hub_step e (Broadcast (letter ''a1'' ''b2'')) (pair_hub (make_chan 4)) =
     Done (pair_hub ((make_chan 4)\<lparr>buf := [letter ''a1'' ''b2'']\<rparr>))"
  by (simp add: hub_step_def handleBroadcast_def hub_offer_def chan_offer_def) (simp add: pair_hub_def)

theorem hub_run_appends_witness:
  "\<exists>ms. buf (chans (pair_hub ((make_chan 4)\<lparr>buf := [letter ''a1'' ''b2'']\<rparr>)) 1) =
     buf (chans (pair_hub (make_chan 4)) 1) @ ms"
  by (rule hub_run_appends[of "[(visiting [], Broadcast (letter ''a1'' ''b2''))]"])
     (simp add: hub_run_def letter_to_bob)

text \<open>A turn of the hub waits exactly when it has to send the not-found reply to a sender
  whose buffer is full; every other turn finishes.\<close>

theorem hub_waits_iff:
  assumes "hub_inv h" "request_ok (e, ev) h"
  shows "hub_step e ev h = Blocked \<longleftrightarrow>
    (\<exists>m s. ev = Broadcast m \<and> m_to m \<noteq> '''' \<and> peers h (m_to m) = None \<and>
       peers h (m_from m) = Some s \<and> full (chans h (peer_send s)))"
  using assms
proof (cases rule: hub_step_cases)
  case (delivered m)
  then show ?thesis by (auto simp: undeliverable_def)
qed (auto simp: undeliverable_def)

theorem hub_waits_iff_witness:
  "hub_step (visiting [''a1'', ''b2'']) (Broadcast (letter ''b2'' ''zz''))
     (pair_hub \<lparr>buf = [letter ''a1'' ''b2''], capacity = 1, closed = False\<rparr>) = Blocked"
proof -
  let ?c = "\<lparr>buf = [letter ''a1'' ''b2''], capacity = 1, closed = False\<rparr>"
  have "hub_inv (pair_hub ?c)" by (rule pair_hub_inv) (simp add: chan_ok_def)
  moreover have "request_ok (visiting [''a1'', ''b2''], Broadcast (letter ''b2'' ''zz'')) (pair_hub ?c)"
    by (simp add: request_ok_def pair_hub_env)
  ultimately show ?thesis
    by (rule iffD2[OF hub_waits_iff]) (auto intro!: exI[of _ bob])
qed

section \<open>Single turns\<close>

text \<open>C20: A registration enters the peer, greets it with its identifier and the list of all
  the others, announces it to every other peer, and touches no other channel.\<close>

theorem register_effect:
  assumes "hub_inv h" "fresh_peer h p" "env_ok e ((peers h)(peer_id p \<mapsto> p))"
  shows "\<exists>h' infos. hub_step e (Register p) h = Done h' \<and>
    peers h' = (peers h)(peer_id p \<mapsto> p) \<and>
    buf (chans h' (peer_send p)) = [regMsg (now e 0) p, listMsg (now e 1) infos] \<and>
    (\<forall>x. x \<in> set infos \<longleftrightarrow>
       (\<exists>q. peers h (pi_id x) = Some q \<and> pi_joined_at x = joined_at q)) \<and>
    (\<forall>i q. peers h i = Some q \<longrightarrow>
       chans h' (peer_send q) = offered (joinedMsg (now e 2) p) (chans h (peer_send q)))"
  by (rule register_turn[OF assms])

definition carol :: peer where "carol = \<lparr>peer_id = ''c3'', peer_send = 2, joined_at = 11\<rparr>"

theorem register_effect_witness:
  "\<exists>h'. hub_step (visiting [''c3'', ''b2'', ''a1'']) (Register carol) (pair_hub (make_chan 4)) = Done h' \<and>
     peers h' = [''a1'' \<mapsto> alice, ''b2'' \<mapsto> bob, ''c3'' \<mapsto> carol]"
proof -
  let ?e = "visiting [''c3'', ''b2'', ''a1'']"
  have inv: "hub_inv (pair_hub (make_chan 4))" by (rule pair_hub_inv) (simp add: chan_ok_def)
  have fresh: "fresh_peer (pair_hub (make_chan 4)) carol"
    by (auto simp: fresh_peer_def uses_chan_def carol_def pair_hub_def example_defs split: if_splits)
  have env: "env_ok ?e ((peers (pair_hub (make_chan 4)))(peer_id carol \<mapsto> carol))"
    by (auto simp: env_ok_def visits_def pair_hub_def carol_def visiting_def)
  show ?thesis
    using register_effect[OF inv fresh env] by (auto simp: pair_hub_def carol_def)
qed

text \<open>C21: A departure removes the peer, closes its channel so that its writer ends, tells every
  remaining peer, and is announced once more without harm when the peer was gone already.\<close>

theorem unregister_effect:
  assumes "hub_inv h" "own_entry h p" "env_ok e ((peers h)(peer_id p := None))"
  shows "\<exists>h'. hub_step e (Unregister p) h = Done h' \<and>
    peers h' = (peers h)(peer_id p := None) \<and>
    (peers h (peer_id p) = Some p \<longrightarrow>
       chans h' (peer_send p) = (chans h (peer_send p))\<lparr>closed := True\<rparr>) \<and>
    (\<forall>i q. i \<noteq> peer_id p \<longrightarrow> peers h i = Some q \<longrightarrow>
       chans h' (peer_send q) = offered (leftMsg (now e 0) p) (chans h (peer_send q)))"
proof -
  let ?h' = "deliver (leftMsg (now e 0) p) UNIV (evict p h)"
  note inv' = hub_inv_evict[OF assms(1,2)]
  have other: "peer_send q \<noteq> peer_send p"
    if "i \<noteq> peer_id p" "peers h i = Some q" "peers h (peer_id p) = Some p" for i q
    using that hub_inv_inj[OF assms(1) that(2,3)] by auto
  have "chans ?h' (peer_send q) = offered (leftMsg (now e 0) p) (chans h (peer_send q))"
    if q: "i \<noteq> peer_id p" "peers h i = Some q" for i q
  proof -
    have "peers (evict p h) i = Some q" using q by simp
    from deliver_chan[OF inv' this] other[OF q] assms(2)
    show ?thesis by (auto simp: evict_def own_entry_def split: option.split)
  qed
  moreover have "chans ?h' (peer_send p) = (chans h (peer_send p))\<lparr>closed := True\<rparr>"
    if p: "peers h (peer_id p) = Some p"
  proof -
    have "\<not> uses_chan (evict p h) (peer_send p)"
      using other[OF _ _ p] by (auto simp: uses_chan_def split: if_splits)
    then show ?thesis by (simp add: deliver_unused) (simp add: evict_def p)
  qed
  ultimately show ?thesis
    using handleUnregister_eq[OF assms] by (simp add: hub_step_def)
qed

theorem unregister_effect_witness:
  "\<exists>h'. hub_step (visiting [''b2'']) (Unregister alice) (pair_hub (make_chan 4)) = Done h' \<and>
     peers h' = [''b2'' \<mapsto> bob] \<and> closed (chans h' 0) \<and>
     buf (chans h' 1) = [leftMsg 10 alice]"
proof -
  let ?h = "pair_hub (make_chan 4)"
  have inv: "hub_inv ?h" by (rule pair_hub_inv) (simp add: chan_ok_def)
  have own: "own_entry ?h alice" by (simp add: own_entry_def)
  have tbl: "(peers ?h)(''a1'' := None) = [''b2'' \<mapsto> bob]" by (auto simp: pair_hub_def)
  then have env: "env_ok (visiting [''b2'']) ((peers ?h)(peer_id alice := None))"
    by (simp add: env_ok_def visits_def visiting_def)
  obtain h' where h': "hub_step (visiting [''b2'']) (Unregister alice) ?h = Done h'"
      "peers h' = (peers ?h)(peer_id alice := None)"
      "peers ?h (peer_id alice) = Some alice \<longrightarrow>
       chans h' (peer_send alice) = (chans ?h (peer_send alice))\<lparr>closed := True\<rparr>"
      "\<forall>i q. i \<noteq> peer_id alice \<longrightarrow> peers ?h i = Some q \<longrightarrow>
       chans h' (peer_send q) = offered (leftMsg (now (visiting [''b2'']) 0) alice) (chans ?h (peer_send q))"
    using unregister_effect[OF inv own env] by blast
  have "chans h' 1 = offered (leftMsg 10 alice) (make_chan 4)"
    using h'(4)[rule_format, of "''b2''" bob] by (simp add: visiting_def)
  with h' tbl show ?thesis by simp
qed

text \<open>C22: A message to a connected peer goes to that peer alone; a full buffer loses it, and
  nobody waits.\<close>

theorem direct_message_effect:
  assumes "hub_inv h" "m_to m \<noteq> ''''" "peers h (m_to m) = Some q"
  shows "\<exists>h'. hub_step e (Broadcast m) h = Done h' \<and> peers h' = peers h \<and>
    chans h' = (chans h)(peer_send q :=
      if full (chans h (peer_send q)) then chans h (peer_send q)
      else (chans h (peer_send q))\<lparr>buf := buf (chans h (peer_send q)) @ [m]\<rparr>)"
  using assms hub_inv_chan[OF assms(1,3)]
  by (simp add: hub_step_def handleBroadcast_def hub_offer_def chan_offer_open chan_ok_def offered_def)

theorem direct_message_effect_witness:
  "\<exists>h'. hub_step (visiting []) (Broadcast (letter ''a1'' ''b2'')) (pair_hub (make_chan 1)) = Done h' \<and>
     buf (chans h' 1) = [letter ''a1'' ''b2''] \<and> buf (chans h' 0) = []"
proof -
  have "hub_inv (pair_hub (make_chan 1))" by (rule pair_hub_inv) (simp add: chan_ok_def)
  from direct_message_effect[OF this, of "letter ''a1'' ''b2''" bob "visiting []"] show ?thesis
    by auto
qed

text \<open>C23: A message to a peer that is not connected reaches nobody; its sender, when it is
  connected and has room, gets one error reply that names the target, and no one else
  learns of it.\<close>

theorem unknown_target_effect:
  assumes "hub_inv h" "m_to m \<noteq> ''''" "peers h (m_to m) = None"
    and "peers h (m_from m) = Some s" "\<not> full (chans h (peer_send s))"
  shows "\<exists>h'. hub_step e (Broadcast m) h = Done h' \<and> peers h' = peers h \<and>
    chans h' = (chans h)(peer_send s :=
      (chans h (peer_send s))\<lparr>buf := buf (chans h (peer_send s)) @
        [\<lparr>m_type = Error, m_from = '''', m_to = m_from m,
          m_data = Some (enc_error_data
            \<lparr>er_message = ''Target peer not found: '' @ m_to m, er_code = ''PEER_NOT_FOUND''\<rparr>),
          m_timestamp = now e 0\<rparr>]\<rparr>)"
  using assms hub_inv_chan[OF assms(1,4)]
  by (simp add: hub_step_def handleBroadcast_def hub_send_def chan_send_def chan_ok_def errMsg_def)

theorem unknown_target_effect_witness:
  "\<exists>h'. hub_step (visiting []) (Broadcast (letter ''b2'' ''zz'')) (pair_hub (make_chan 1)) = Done h' \<and>
     length (buf (chans h' 1)) = 1"
proof -
  have "hub_inv (pair_hub (make_chan 1))" by (rule pair_hub_inv) (simp add: chan_ok_def)
  from unknown_target_effect[OF this, of "letter ''b2'' ''zz''" bob "visiting []"] show ?thesis
    by auto
qed

text \<open>C24: A message without a target reaches every connected peer, its sender included, and
  the order in which the map is iterated makes no difference.\<close>

theorem broadcast_effect:
  assumes "hub_inv h" "m_to m = ''''" "env_ok e (peers h)" "env_ok e' (peers h)"
  shows "hub_step e (Broadcast m) h = hub_step e' (Broadcast m) h \<and>
    (\<exists>h'. hub_step e (Broadcast m) h = Done h' \<and> peers h' = peers h \<and>
      (\<forall>i p. peers h i = Some p \<longrightarrow> chans h' (peer_send p) = offered m (chans h (peer_send p))))"
proof -
  have "hub_step d (Broadcast m) h = Done (deliver m UNIV h)" if "env_ok d (peers h)" for d
    using assms(1,2) that
    by (simp add: hub_step_def handleBroadcast_def broadcastToAll_eq env_ok_def)
  with assms show ?thesis by (simp add: deliver_chan)
qed

theorem broadcast_effect_witness:
  "hub_step (visiting [''a1'', ''b2'']) (Broadcast (letter ''a1'' '''')) (pair_hub (make_chan 1)) =
   hub_step (visiting [''b2'', ''a1'']) (Broadcast (letter ''a1'' '''')) (pair_hub (make_chan 1))"
proof -
  have "hub_inv (pair_hub (make_chan 1))" by (rule pair_hub_inv) (simp add: chan_ok_def)
  from broadcast_effect[OF this _ pair_hub_env, of "letter ''a1'' ''''"] show ?thesis by simp
qed

end
