(* ===== verification/Transport.thy ===== *)
theory Transport
  imports Json
begin

text \<open>
  \<^verbatim>\<open>pkg/p2p/transport/websocket.go\<close>: the client's end of the WebSocket connection.

  State (\<open>ws_client\<close>): the connection if \<open>Connect\<close> succeeded, the identifier the server
  gave, whether the context is cancelled, whether \<open>done\<close> is closed, and which callbacks are
  set. A connection is the list of frames written so far and its open flag; frames hold JSON
  values. The \<open>gorilla/websocket\<close> package is not part of the repository: the result of a
  dial and of each write is an argument (\<open>dial\<close>, \<open>wr\<close>), and what \<open>ReadMessage\<close> returns
  is an input of the read loop. So is the parser of the server's URL.

  \<open>handleMessage\<close> ends with at most one callback, so it returns the call to make.
  Each method is one step here; \<^verbatim>\<open>ClientThreads\<close> takes them apart, with the locks, and lets
  them interleave. Timeouts, deadlines and the logger are not modelled.
\<close>

section \<open>Types\<close>

record ws_message =
  t_type :: string
  t_from :: string
  t_to :: string
  t_data :: raw
  t_timestamp :: int

record ws_peer_info =
  wp_id :: string
  wp_joined_at :: int

definition MsgPeerRegistered :: string where "MsgPeerRegistered = ''peer_registered''"
definition MsgPeerList :: string where "MsgPeerList = ''peer_list''"
definition MsgPeerJoined :: string where "MsgPeerJoined = ''peer_joined''"
definition MsgPeerLeft :: string where "MsgPeerLeft = ''peer_left''"
definition MsgSignal :: string where "MsgSignal = ''signal''"
definition MsgError :: string where "MsgError = ''error''"

lemmas ws_type_defs = MsgPeerRegistered_def MsgPeerList_def MsgPeerJoined_def MsgPeerLeft_def
  MsgSignal_def MsgError_def

record ws_event =
  we_type :: string
  we_peer :: ws_peer_info
  we_peers :: "ws_peer_info list"
  we_my_id :: string

definition zero_ws_peer :: ws_peer_info where
  "zero_ws_peer = \<lparr>wp_id = '''', wp_joined_at = 0\<rparr>"

definition zero_event :: ws_event where
  "zero_event = \<lparr>we_type = '''', we_peer = zero_ws_peer, we_peers = [], we_my_id = ''''\<rparr>"

datatype frame = TextFrame json | PingFrame

record ws_conn =
  written :: "frame list"
  conn_open :: bool

record ws_config =
  server_url :: string
  reconnect_delay :: int
  ping_interval :: int

text \<open>\<open>DefaultConfig\<close>; durations are in nanoseconds. The logger is left out.\<close>

definition DefaultConfig :: "string \<Rightarrow> ws_config" where
  "DefaultConfig url =
     \<lparr>server_url = url, reconnect_delay = 5 * 1000000000, ping_interval = 30 * 1000000000\<rparr>"

record ws_client =
  ws_cfg :: ws_config
  ws_connection :: "ws_conn option"
  ws_my_id :: string
  ws_cancelled :: bool
  ws_done :: bool
  ws_handler :: bool
  ws_peer_handler :: bool

definition NewWebSocketClient :: "ws_config \<Rightarrow> ws_client" where
  "NewWebSocketClient cfg =
     \<lparr>ws_cfg = cfg, ws_connection = None, ws_my_id = '''', ws_cancelled = False, ws_done = False,
      ws_handler = False, ws_peer_handler = False\<rparr>"

datatype callback = CallHandler ws_message | CallPeerHandler ws_event

section \<open>JSON\<close>

definition enc_ws_message :: "ws_message \<Rightarrow> json" where
  "enc_ws_message m = JObj
     ([(''type'', JStr (t_type m))] @
      omit_empty (t_from m = '''') (''from'', JStr (t_from m)) @
      omit_empty (t_to m = '''') (''to'', JStr (t_to m)) @
      [(''data'', enc_raw (t_data m)), (''timestamp'', enc_int (t_timestamp m))])"

definition dec_ws_message :: "json \<Rightarrow> ws_message result" where
  "dec_ws_message j = dec_struct
     [string_field ''type'' (\<lambda>s m. m\<lparr>t_type := s\<rparr>),
      string_field ''from'' (\<lambda>s m. m\<lparr>t_from := s\<rparr>),
      string_field ''to'' (\<lambda>s m. m\<lparr>t_to := s\<rparr>),
      raw_field ''data'' (\<lambda>r m. m\<lparr>t_data := r\<rparr>),
      int_field ''timestamp'' 64 (\<lambda>i m. m\<lparr>t_timestamp := i\<rparr>)] j
     \<lparr>t_type = '''', t_from = '''', t_to = '''', t_data = None, t_timestamp = 0\<rparr>"

definition ws_peer_fields :: "ws_peer_info field list" where
  "ws_peer_fields =
     [string_field ''id'' (\<lambda>s p. p\<lparr>wp_id := s\<rparr>),
      int_field ''joined_at'' 64 (\<lambda>i p. p\<lparr>wp_joined_at := i\<rparr>)]"

text \<open>The anonymous structs that \<open>handleMessage\<close> unmarshals into.\<close>

definition dec_peer_id :: "json \<Rightarrow> string result" where
  "dec_peer_id j = dec_struct [string_field ''peer_id'' (\<lambda>s _. s)] j ''''"

definition dec_peers :: "json \<Rightarrow> ws_peer_info list result" where
  "dec_peers j = dec_struct [slice_field ''peers'' ws_peer_fields zero_ws_peer (\<lambda>ps. ps) (\<lambda>ps _. ps)] j []"

definition dec_peer :: "json \<Rightarrow> ws_peer_info result" where
  "dec_peer j = dec_struct [struct_field ''peer'' ws_peer_fields (\<lambda>p. p) (\<lambda>p _. p)] j zero_ws_peer"

definition dec_error :: "json \<Rightarrow> (string \<times> string) result" where
  "dec_error j = dec_struct
     [string_field ''message'' (\<lambda>s (m, c). (s, c)),
      string_field ''code'' (\<lambda>s (m, c). (m, s))] j ('''', '''')"

section \<open>Connecting, closing, writing\<close>

definition ws_MyID :: "ws_client \<Rightarrow> string" where
  "ws_MyID c = ws_my_id c"

definition SetHandler :: "ws_client \<Rightarrow> ws_client" where
  "SetHandler c = c\<lparr>ws_handler := True\<rparr>"

definition SetPeerHandler :: "ws_client \<Rightarrow> ws_client" where
  "SetPeerHandler c = c\<lparr>ws_peer_handler := True\<rparr>"

definition ws_Connect ::
  "(string \<Rightarrow> string result) \<Rightarrow> (string \<Rightarrow> ws_conn result) \<Rightarrow> ws_client \<Rightarrow> unit result \<times> ws_client" where
  "ws_Connect parse dial c =
     (case wrap_err ''parse server URL'' (parse (server_url (ws_cfg c))) of
        Inl e \<Rightarrow> (Inl e, c)
      | Inr u \<Rightarrow>
          (case wrap_err ''dial websocket'' (dial u) of
             Inl e \<Rightarrow> (Inl e, c)
           | Inr conn \<Rightarrow> (Inr (), c\<lparr>ws_connection := Some conn\<rparr>)))"

text \<open>\<open>Close\<close> up to its wait for \<open>done\<close>, and the wait.\<close>

definition ws_Close_request :: "ws_client \<Rightarrow> ws_client" where
  "ws_Close_request c =
     c\<lparr>ws_cancelled := True,
       ws_connection := map_option (\<lambda>k. k\<lparr>conn_open := False\<rparr>) (ws_connection c)\<rparr>"

definition ws_Close_wait :: "ws_client \<Rightarrow> ws_client outcome" where
  "ws_Close_wait c = (if ws_done c then Done c else Blocked)"

definition ws_Close :: "ws_client \<Rightarrow> ws_client outcome" where
  "ws_Close c = ws_Close_wait (ws_Close_request c)"

definition write_frame :: "(frame \<Rightarrow> error option) \<Rightarrow> frame \<Rightarrow> ws_conn \<Rightarrow> unit result \<times> ws_conn" where
  "write_frame wr f k =
     (case wr f of Some e \<Rightarrow> (Inl e, k) | None \<Rightarrow> (Inr (), k\<lparr>written := written k @ [f]\<rparr>))"

definition sendMessage ::
  "(frame \<Rightarrow> error option) \<Rightarrow> ws_message \<Rightarrow> ws_client \<Rightarrow> unit result \<times> ws_client" where
  "sendMessage wr m c =
     (case ws_connection c of
        None \<Rightarrow> (Inl ''not connected'', c)
      | Some k \<Rightarrow>
          (let (r, k') = write_frame wr (TextFrame (enc_ws_message m)) k
           in (r, c\<lparr>ws_connection := Some k'\<rparr>)))"

definition ws_Send ::
  "(frame \<Rightarrow> error option) \<Rightarrow> int \<Rightarrow> string \<Rightarrow> json result \<Rightarrow> ws_client \<Rightarrow> unit result \<times> ws_client" where
  "ws_Send wr t to payload c =
     (case wrap_err ''marshal data'' payload of
        Inl e \<Rightarrow> (Inl e, c)
      | Inr j \<Rightarrow> sendMessage wr
          \<lparr>t_type = MsgSignal, t_from = '''', t_to = to, t_data = Some j, t_timestamp = t\<rparr> c)"

definition ws_Broadcast ::
  "(frame \<Rightarrow> error option) \<Rightarrow> int \<Rightarrow> json result \<Rightarrow> ws_client \<Rightarrow> unit result \<times> ws_client" where
  "ws_Broadcast wr t payload c =
     (case wrap_err ''marshal data'' payload of
        Inl e \<Rightarrow> (Inl e, c)
      | Inr j \<Rightarrow> sendMessage wr
          \<lparr>t_type = MsgSignal, t_from = '''', t_to = '''', t_data = Some j, t_timestamp = t\<rparr> c)"

section \<open>Reading\<close>

definition call_peer :: "ws_client \<Rightarrow> ws_event \<Rightarrow> callback option" where
  "call_peer c ev = (if ws_peer_handler c then Some (CallPeerHandler ev) else None)"

definition handleMessage :: "ws_message \<Rightarrow> ws_client \<Rightarrow> ws_client \<times> callback option" where
  "handleMessage m c =
     (if t_type m = MsgPeerRegistered then
        (case unmarshal_raw dec_peer_id (t_data m) of
           Inl e \<Rightarrow> (c, None)
         | Inr i \<Rightarrow>
             (let c' = c\<lparr>ws_my_id := i\<rparr>
              in (c', call_peer c' (zero_event\<lparr>we_type := ''registered'', we_my_id := i\<rparr>))))
      else if t_type m = MsgPeerList then
        (case unmarshal_raw dec_peers (t_data m) of
           Inl e \<Rightarrow> (c, None)
         | Inr ps \<Rightarrow> (c, call_peer c (zero_event\<lparr>we_type := ''list'', we_peers := ps\<rparr>)))
      else if t_type m = MsgPeerJoined then
        (case unmarshal_raw dec_peer (t_data m) of
           Inl e \<Rightarrow> (c, None)
         | Inr p \<Rightarrow> (c, call_peer c (zero_event\<lparr>we_type := ''joined'', we_peer := p\<rparr>)))
      else if t_type m = MsgPeerLeft then
        (case unmarshal_raw dec_peer (t_data m) of
           Inl e \<Rightarrow> (c, None)
         | Inr p \<Rightarrow> (c, call_peer c (zero_event\<lparr>we_type := ''left'', we_peer := p\<rparr>)))
      else if t_type m = MsgSignal then
        (c, if ws_handler c then Some (CallHandler m) else None)
      else (c, None))"

text \<open>
  One turn of \<open>readPump\<close>. \<open>Stop\<close> is a return, which runs the deferred \<open>close(c.done)\<close>;
  a frame whose bytes are not JSON is \<open>None\<close>.
\<close>

datatype read_result = ReadError error | ReadText "json option"

datatype 'a turn = Continue 'a | Stop 'a

definition readPump_turn :: "read_result \<Rightarrow> ws_client \<Rightarrow> (ws_client \<times> callback option) turn" where
  "readPump_turn r c =
     (if ws_cancelled c then Stop (c, None)
      else case r of
        ReadError e \<Rightarrow> Stop (c, None)
      | ReadText t \<Rightarrow>
          (case unmarshal_raw dec_ws_message t of
             Inl e \<Rightarrow> Continue (c, None)
           | Inr m \<Rightarrow> Continue (handleMessage m c)))"

definition readPump_exit :: "ws_client \<Rightarrow> ws_client outcome" where
  "readPump_exit c =
     (if ws_done c then Panicked ''close of closed channel'' else Done (c\<lparr>ws_done := True\<rparr>))"

text \<open>
  The loop over what happens to it: a read returns, or another goroutine calls \<open>Close\<close>. The
  result is the callbacks in order and the client when the pump has returned or its input is
  used up. The callbacks do not change the fields that the pump reads. A \<open>Close\<close> falls
  between two turns; during one, see \<^verbatim>\<open>ClientThreads\<close>.
\<close>

datatype pump_input = Read read_result | CloseCalled

fun readPump_loop :: "pump_input list \<Rightarrow> ws_client \<Rightarrow> callback list \<times> ws_client outcome" where
  "readPump_loop [] c = ([], Done c)"
| "readPump_loop (CloseCalled # ins) c = readPump_loop ins (ws_Close_request c)"
| "readPump_loop (Read r # ins) c =
     (case readPump_turn r c of
        Stop (c', cb) \<Rightarrow> ([], readPump_exit c')
      | Continue (c', cb) \<Rightarrow>
          (let (cbs, out) = readPump_loop ins c'
           in ((case cb of None \<Rightarrow> [] | Some x \<Rightarrow> [x]) @ cbs, out)))"

definition readPump :: "pump_input list \<Rightarrow> ws_client \<Rightarrow> callback list \<times> ws_client outcome" where
  "readPump ins c =
     (if ws_connection c = None then ([], readPump_exit c) else readPump_loop ins c)"

text \<open>A tick of \<open>writePump\<close>: a ping, which ends the pump when it fails.\<close>

definition writePump_turn :: "(frame \<Rightarrow> error option) \<Rightarrow> ws_client \<Rightarrow> ws_client turn" where
  "writePump_turn wr c =
     (if ws_cancelled c then Stop c
      else case ws_connection c of
        None \<Rightarrow> Continue c
      | Some k \<Rightarrow>
          (case write_frame wr PingFrame k of
             (Inl e, k') \<Rightarrow> Stop c
           | (Inr u, k') \<Rightarrow> Continue (c\<lparr>ws_connection := Some k'\<rparr>)))"

end
