(* ===== verification/LogLevel.thy ===== *)
theory LogLevel
  imports GoBase
begin

text \<open>The levels of \<open>log/slog\<close> that the two commands choose from.\<close>

datatype log_level = LevelDebug | LevelInfo | LevelWarn | LevelError

end
