(* ===== verification/Server.thy ===== *)
theory Server
  imports HubOrder Transport LogLevel
begin

text \<open>
  \<^verbatim>\<open>cmd/server/main.go\<close>: the goroutines of the signaling server.

  Each WebSocket connection has three: the HTTP handler \<open>handleWebSocket\<close>, \<open>readPump\<close> and
  \<open>writePump\<close>. They and the hub's goroutine meet on unbuffered channels: \<open>register\<close>,
  \<open>unregister\<close> and \<open>broadcast\<close> of the hub and the connection's own \<open>done\<close>. A goroutine
  is a program counter (\<open>handler_pc\<close>, \<open>reader_pc\<close>, \<open>writer_pc\<close>, \<open>hub_pc\<close>), and a
  meeting is one step of both sides, which each must be ready for. \<open>session\<close> is one
  connection, numbered in the order of arrival; its number is also the address of its \<open>Send\<close>
  channel in the hub's heap of channels.

  The hub takes a request (\<open>Serving\<close>) and finishes it in one step, as soon as its handler
  does not wait; a writer's receive between two of the handler's sends is the same as one
  before or after the whole handler, because no handler sends twice to a channel that
  could be full.

  A pump or handler that has handed over its last request closes the connection next; the
  model closes it in the same step (\<open>done_by_writer\<close>, \<open>handler_returns\<close>). Closing a little
  later would only let a read or write that is under way succeed, as one just before the step
  may.

  The network is outside: a read may return anything the client chose to send, or an error, at
  any time; a write may fail at any time, and must once the connection is closed. \<open>s_out\<close>
  records the messages written to the socket, \<open>s_lost\<close> the one whose write failed, \<open>s_sent\<close>
  the messages its reader forwarded. \<open>rand.Read\<close> is outside too: a new identifier is any
  that no connection has had; the code does not check this, it relies on 64 random bits. The
  clock gives Unix seconds as an \<open>int64\<close>.

  \<open>main\<close>, \<open>/health\<close>, failed upgrades and the end of the process are in \<^verbatim>\<open>ServerMain\<close>.
  Deadlines and logging are not modelled.
\<close>

section \<open>Helpers\<close>

text \<open>The eight bytes are the result of \<open>rand.Read\<close>.\<close>

definition generatePeerID :: "8 word list \<Rightarrow> string" where
  "generatePeerID b = hex_encode b"

definition parseLogLevel :: "string \<Rightarrow> log_level" where
  "parseLogLevel level =
     (if level = ''debug'' then LevelDebug
      else if level = ''info'' then LevelInfo
      else if level = ''warn'' then LevelWarn
      else if level = ''error'' then LevelError
      else LevelInfo)"

section \<open>State\<close>

datatype handler_pc = Registering | Awaiting | Unregistering | Returned

datatype reader_pc = ReaderIdle | Reading | Forwarding message | ReaderLeaving | ReaderDone

datatype writer_pc = WriterIdle | Selecting | WriterLeaving | WriterDone

datatype hub_pc = Accepting | Serving hub_event

record session =
  s_peer :: peer
  s_handler :: handler_pc
  s_reader :: reader_pc
  s_writer :: writer_pc
  s_open :: bool
  s_out :: "message list"
  s_lost :: "message list"
  s_sent :: "message list"

record server =
  sv_hub :: hub
  sv_pc :: hub_pc
  sv_n :: nat
  sv_sess :: "nat \<Rightarrow> session"
  sv_crashed :: bool

definition new_peer :: "8 word list \<Rightarrow> nat \<Rightarrow> int \<Rightarrow> peer" where
  "new_peer bytes ch t = \<lparr>peer_id = generatePeerID bytes, peer_send = ch, joined_at = t\<rparr>"

definition new_session :: "peer \<Rightarrow> session" where
  "new_session p =
     \<lparr>s_peer = p, s_handler = Registering, s_reader = ReaderIdle, s_writer = WriterIdle,
      s_open = True, s_out = [], s_lost = [], s_sent = []\<rparr>"

definition start_server :: "session \<Rightarrow> server" where
  "start_server s0 =
     \<lparr>sv_hub = NewHub (\<lambda>_. make_chan sendCapacity), sv_pc = Accepting, sv_n = 0,
      sv_sess = (\<lambda>_. s0), sv_crashed = False\<rparr>"

section \<open>The pumps\<close>

text \<open>A frame \<open>readPump\<close> received: skipped when it does not parse, else stamped.\<close>

definition stamp :: "peer \<Rightarrow> int \<Rightarrow> message \<Rightarrow> message" where
  "stamp p t m = m\<lparr>m_from := peer_id p, m_timestamp := t\<rparr>"

definition reader_turn :: "read_result \<Rightarrow> int \<Rightarrow> session \<Rightarrow> session" where
  "reader_turn r t s =
     (case r of
        ReadError e \<Rightarrow> s\<lparr>s_reader := ReaderLeaving\<rparr>
      | ReadText j \<Rightarrow>
          (case unmarshal_raw dec_message j of
             Inl e \<Rightarrow> s
           | Inr m \<Rightarrow> s\<lparr>s_reader := Forwarding (stamp (s_peer s) t m)\<rparr>))"

definition reader_forwarded :: "message \<Rightarrow> session \<Rightarrow> session" where
  "reader_forwarded m s = s\<lparr>s_reader := Reading, s_sent := s_sent s @ [m]\<rparr>"

text \<open>The two cases of \<open>writePump\<close>'s select; \<open>ok\<close> tells whether the write succeeded.\<close>

definition writer_turn :: "bool \<Rightarrow> message option \<Rightarrow> session \<Rightarrow> session" where
  "writer_turn ok x s =
     (case x of
        None \<Rightarrow> s\<lparr>s_writer := WriterLeaving\<rparr>
      | Some m \<Rightarrow>
          if ok then s\<lparr>s_out := s_out s @ [m]\<rparr>
          else s\<lparr>s_writer := WriterLeaving, s_lost := s_lost s @ [m]\<rparr>)"

definition writer_tick :: "bool \<Rightarrow> session \<Rightarrow> session" where
  "writer_tick ok s = (if ok then s else s\<lparr>s_writer := WriterLeaving\<rparr>)"

text \<open>The handler past its sends to the hub; \<open>done\<close> takes one of the pumps along.\<close>

definition handler_registered :: "session \<Rightarrow> session" where
  "handler_registered s = s\<lparr>s_handler := Awaiting, s_reader := Reading, s_writer := Selecting\<rparr>"

definition done_by_reader :: "session \<Rightarrow> session" where
  "done_by_reader s = s\<lparr>s_handler := Unregistering, s_reader := ReaderDone\<rparr>"

definition done_by_writer :: "session \<Rightarrow> session" where
  "done_by_writer s = s\<lparr>s_handler := Unregistering, s_writer := WriterDone, s_open := False\<rparr>"

definition handler_returns :: "session \<Rightarrow> session" where
  "handler_returns s = s\<lparr>s_handler := Returned, s_open := False\<rparr>"

section \<open>Steps\<close>

definition on_session :: "nat \<Rightarrow> (session \<Rightarrow> session) \<Rightarrow> server \<Rightarrow> server" where
  "on_session k f s = s\<lparr>sv_sess := (sv_sess s)(k := f (sv_sess s k))\<rparr>"

definition set_chan :: "nat \<Rightarrow> message chan \<Rightarrow> hub \<Rightarrow> hub" where
  "set_chan r c h = h\<lparr>chans := (chans h)(r := c)\<rparr>"

inductive server_step :: "server \<Rightarrow> server \<Rightarrow> bool" where
  connect: "length bytes = 8 \<Longrightarrow> in_int 64 t \<Longrightarrow>
     \<forall>k < sv_n s. peer_id (s_peer (sv_sess s k)) \<noteq> generatePeerID bytes \<Longrightarrow>
     server_step s (s\<lparr>sv_n := Suc (sv_n s),
       sv_sess := (sv_sess s)(sv_n s := new_session (new_peer bytes (sv_n s) t))\<rparr>)"
| register: "k < sv_n s \<Longrightarrow> s_handler (sv_sess s k) = Registering \<Longrightarrow> sv_pc s = Accepting \<Longrightarrow>
     server_step s (on_session k handler_registered (s\<lparr>sv_pc := Serving (Register (s_peer (sv_sess s k)))\<rparr>))"
| unregister: "k < sv_n s \<Longrightarrow> s_handler (sv_sess s k) = Unregistering \<Longrightarrow> sv_pc s = Accepting \<Longrightarrow>
     server_step s (on_session k handler_returns (s\<lparr>sv_pc := Serving (Unregister (s_peer (sv_sess s k)))\<rparr>))"
| broadcast: "k < sv_n s \<Longrightarrow> s_reader (sv_sess s k) = Forwarding m \<Longrightarrow> sv_pc s = Accepting \<Longrightarrow>
     server_step s (on_session k (reader_forwarded m) (s\<lparr>sv_pc := Serving (Broadcast m)\<rparr>))"
| hub_turn: "sv_pc s = Serving ev \<Longrightarrow> env_ok e (table_after ev (peers (sv_hub s))) \<Longrightarrow>
     clock_ok e \<Longrightarrow> hub_step e ev (sv_hub s) = Done h \<Longrightarrow>
     server_step s (s\<lparr>sv_hub := h, sv_pc := Accepting\<rparr>)"
| hub_panic: "sv_pc s = Serving ev \<Longrightarrow> env_ok e (table_after ev (peers (sv_hub s))) \<Longrightarrow>
     clock_ok e \<Longrightarrow> hub_step e ev (sv_hub s) = Panicked msg \<Longrightarrow> server_step s (s\<lparr>sv_crashed := True\<rparr>)"
| read: "k < sv_n s \<Longrightarrow> s_reader (sv_sess s k) = Reading \<Longrightarrow>
     (\<exists>e. r = ReadError e) \<or> s_open (sv_sess s k) \<Longrightarrow> in_int 64 t \<Longrightarrow>
     server_step s (on_session k (reader_turn r t) s)"
| write_message: "k < sv_n s \<Longrightarrow> s_writer (sv_sess s k) = Selecting \<Longrightarrow>
     chan_recv (chans (sv_hub s) (peer_send (s_peer (sv_sess s k)))) = Done (x, c) \<Longrightarrow>
     ok \<longrightarrow> s_open (sv_sess s k) \<Longrightarrow>
     server_step s (on_session k (writer_turn ok x)
       (s\<lparr>sv_hub := set_chan (peer_send (s_peer (sv_sess s k))) c (sv_hub s)\<rparr>))"
| write_ping: "k < sv_n s \<Longrightarrow> s_writer (sv_sess s k) = Selecting \<Longrightarrow>
     ok \<longrightarrow> s_open (sv_sess s k) \<Longrightarrow> server_step s (on_session k (writer_tick ok) s)"
| reader_done: "k < sv_n s \<Longrightarrow> s_handler (sv_sess s k) = Awaiting \<Longrightarrow>
     s_reader (sv_sess s k) = ReaderLeaving \<Longrightarrow> server_step s (on_session k done_by_reader s)"
| writer_done: "k < sv_n s \<Longrightarrow> s_handler (sv_sess s k) = Awaiting \<Longrightarrow>
     s_writer (sv_sess s k) = WriterLeaving \<Longrightarrow> server_step s (on_session k done_by_writer s)"
| drop: "k < sv_n s \<Longrightarrow> server_step s (on_session k (\<lambda>c. c\<lparr>s_open := False\<rparr>) s)"

inductive server_steps :: "server \<Rightarrow> server \<Rightarrow> bool" where
  no_step: "server_steps s s"
| one_more: "server_steps s t \<Longrightarrow> server_step t u \<Longrightarrow> server_steps s u"

definition server_reachable :: "server \<Rightarrow> bool" where
  "server_reachable s \<longleftrightarrow> (\<exists>s0. server_steps (start_server s0) s)"

end
