(* ===== verification/ServerSafety.thy ===== *)
theory ServerSafety
  imports Server
begin

text \<open>
  Invariants of the server's goroutines: the hub only ever gets requests that keep its own
  invariant, so it never panics; the program counters of a connection fit together; and of a
  connection's two pumps at most one ever ends, because only one of them can hand its
  \<open>done\<close> to the handler.
\<close>

section \<open>The invariant\<close>

abbreviation sess_peer :: "server \<Rightarrow> nat \<Rightarrow> peer" where
  "sess_peer s k \<equiv> s_peer (sv_sess s k)"

text \<open>A connection the hub has not put into its table yet.\<close>

definition waiting :: "server \<Rightarrow> nat \<Rightarrow> bool" where
  "waiting s k \<longleftrightarrow>
     s_handler (sv_sess s k) = Registering \<or> sv_pc s = Serving (Register (sess_peer s k))"

definition sess_ok :: "session \<Rightarrow> bool" where
  "sess_ok c \<longleftrightarrow>
     (s_handler c = Registering \<longleftrightarrow> s_reader c = ReaderIdle) \<and>
     (s_handler c = Registering \<longleftrightarrow> s_writer c = WriterIdle) \<and>
     (s_handler c = Registering \<longrightarrow> s_out c = [] \<and> s_lost c = []) \<and>
     (s_reader c = ReaderDone \<or> s_writer c = WriterDone \<longleftrightarrow>
        s_handler c = Unregistering \<or> s_handler c = Returned) \<and>
     \<not> (s_reader c = ReaderDone \<and> s_writer c = WriterDone) \<and>
     (s_writer c = Selecting \<longrightarrow> s_lost c = []) \<and>
     (\<forall>m. s_reader c = Forwarding m \<longrightarrow> m_from m = peer_id (s_peer c)) \<and>
     (\<forall>m \<in> set (s_sent c). m_from m = peer_id (s_peer c))"

definition serving_ok :: "server \<Rightarrow> bool" where
  "serving_ok s \<longleftrightarrow> (\<forall>ev p. sv_pc s = Serving ev \<longrightarrow> ev = Register p \<or> ev = Unregister p \<longrightarrow>
     (\<exists>k < sv_n s. p = sess_peer s k \<and> s_handler (sv_sess s k) \<noteq> Registering))"

definition table_ok :: "server \<Rightarrow> bool" where
  "table_ok s \<longleftrightarrow> (\<forall>i p. peers (sv_hub s) i = Some p \<longrightarrow>
     (\<exists>k < sv_n s. p = sess_peer s k \<and> \<not> waiting s k))"

definition names_ok :: "server \<Rightarrow> bool" where
  "names_ok s \<longleftrightarrow>
     (\<forall>k < sv_n s. peer_send (sess_peer s k) = k) \<and>
     (\<forall>j < sv_n s. \<forall>k < sv_n s. peer_id (sess_peer s j) = peer_id (sess_peer s k) \<longrightarrow> j = k)"

definition server_inv :: "server \<Rightarrow> bool" where
  "server_inv s \<longleftrightarrow>
     hub_inv (sv_hub s) \<and> \<not> sv_crashed s \<and> names_ok s \<and> table_ok s \<and> serving_ok s \<and>
     (\<forall>k < sv_n s. sess_ok (sv_sess s k)) \<and>
     (\<forall>k. (k < sv_n s \<longrightarrow> waiting s k) \<longrightarrow> chans (sv_hub s) k = make_chan sendCapacity)"

lemma server_invD:
  assumes "server_inv s"
  shows "hub_inv (sv_hub s)" "\<not> sv_crashed s" "names_ok s" "table_ok s" "serving_ok s"
    "k < sv_n s \<Longrightarrow> sess_ok (sv_sess s k)"
    "(k < sv_n s \<longrightarrow> waiting s k) \<Longrightarrow> chans (sv_hub s) k = make_chan sendCapacity"
  using assms by (simp_all add: server_inv_def)

lemma names_okD:
  assumes "names_ok s"
  shows "k < sv_n s \<Longrightarrow> peer_send (sess_peer s k) = k"
    "j < sv_n s \<Longrightarrow> k < sv_n s \<Longrightarrow> peer_id (sess_peer s j) = peer_id (sess_peer s k) \<Longrightarrow> j = k"
  using assms by (auto simp: names_ok_def)

lemma table_okE:
  assumes "table_ok s" "peers (sv_hub s) i = Some p"
  obtains k where "k < sv_n s" "p = sess_peer s k" "\<not> waiting s k"
  using assms by (auto simp: table_ok_def)

lemma unused_chan:
  assumes inv: "server_inv s" and k: "k < sv_n s \<longrightarrow> waiting s k"
  shows "\<not> uses_chan (sv_hub s) k"
proof
  assume "uses_chan (sv_hub s) k"
  then obtain i p where p: "peers (sv_hub s) i = Some p" "peer_send p = k"
    by (auto simp: uses_chan_def)
  obtain j where "j < sv_n s" "p = sess_peer s j" "\<not> waiting s j"
    by (rule table_okE[OF server_invD(4)[OF inv] p(1)])
  with p(2) k names_okD(1)[OF server_invD(3)[OF inv]] show False by auto
qed

lemma fresh_waiting:
  assumes inv: "server_inv s" and k: "k < sv_n s" "waiting s k"
  shows "fresh_peer (sv_hub s) (sess_peer s k)"
proof -
  have "peers (sv_hub s) (peer_id (sess_peer s k)) = None"
  proof (rule ccontr)
    assume "peers (sv_hub s) (peer_id (sess_peer s k)) \<noteq> None"
    then obtain p where p: "peers (sv_hub s) (peer_id (sess_peer s k)) = Some p" by auto
    obtain j where j: "j < sv_n s" "p = sess_peer s j" "\<not> waiting s j"
      by (rule table_okE[OF server_invD(4)[OF inv] p])
    then have "j = k"
      using hub_inv_id[OF server_invD(1)[OF inv] p] names_okD(2)[OF server_invD(3)[OF inv] j(1) k(1)]
      by simp
    with j k show False by simp
  qed
  moreover have "peer_send (sess_peer s k) = k"
    by (rule names_okD(1)[OF server_invD(3)[OF inv] k(1)])
  ultimately show ?thesis
    using unused_chan[OF inv] server_invD(7)[OF inv] k by (simp add: fresh_peer_def)
qed

lemma own_session:
  assumes inv: "server_inv s" and k: "k < sv_n s"
  shows "own_entry (sv_hub s) (sess_peer s k)"
proof (cases "peers (sv_hub s) (peer_id (sess_peer s k))")
  case (Some p)
  obtain j where j: "j < sv_n s" "p = sess_peer s j"
    by (rule table_okE[OF server_invD(4)[OF inv] Some])
  then have "j = k"
    using hub_inv_id[OF server_invD(1)[OF inv] Some] names_okD(2)[OF server_invD(3)[OF inv] j(1) k]
    by simp
  with j Some show ?thesis by (simp add: own_entry_def)
qed (simp add: own_entry_def)

text \<open>Whatever the hub is serving, the request is one its invariant allows.\<close>

lemma serving_event_ok:
  assumes inv: "server_inv s" and pc: "sv_pc s = Serving ev"
  shows "event_ok ev (sv_hub s)"
proof (cases ev)
  case (Register p)
  then obtain k where "k < sv_n s" "p = sess_peer s k"
    using server_invD(5)[OF inv] pc by (auto simp: serving_ok_def)
  then show ?thesis
    using fresh_waiting[OF inv, of k] pc Register by (simp add: waiting_def)
next
  case (Unregister p)
  then obtain k where "k < sv_n s" "p = sess_peer s k"
    using server_invD(5)[OF inv] pc by (auto simp: serving_ok_def)
  then show ?thesis
    using own_session[OF inv] Unregister by simp
qed simp

lemma serving_request_ok:
  "server_inv s \<Longrightarrow> sv_pc s = Serving ev \<Longrightarrow> env_ok e (table_after ev (peers (sv_hub s))) \<Longrightarrow>
   request_ok (e, ev) (sv_hub s)"
  by (simp add: request_ok_def serving_event_ok)

section \<open>Every step keeps it\<close>

lemma on_session_simps [simp]:
  "sv_hub (on_session k f s) = sv_hub s" "sv_pc (on_session k f s) = sv_pc s"
  "sv_n (on_session k f s) = sv_n s" "sv_crashed (on_session k f s) = sv_crashed s"
  "sv_sess (on_session k f s) = (sv_sess s)(k := f (sv_sess s k))"
  by (simp_all add: on_session_def)

text \<open>A step of one connection and the hub's program counter.\<close>

lemma server_inv_session:
  assumes inv: "server_inv s" and k: "k < sv_n s"
    and p: "s_peer (f (sv_sess s k)) = sess_peer s k" and f: "sess_ok (f (sv_sess s k))"
    and wait: "\<And>j. j < sv_n s \<Longrightarrow> waiting (on_session k f (s\<lparr>sv_pc := pc\<rparr>)) j \<longleftrightarrow> waiting s j"
    and serv: "serving_ok (on_session k f (s\<lparr>sv_pc := pc\<rparr>))"
  shows "server_inv (on_session k f (s\<lparr>sv_pc := pc\<rparr>))"
proof -
  let ?t = "on_session k f (s\<lparr>sv_pc := pc\<rparr>)"
  have same: "sess_peer ?t j = sess_peer s j" for j using p by simp
  have "names_ok ?t"
    using server_invD(3)[OF inv] unfolding names_ok_def same by simp
  moreover have "table_ok ?t"
    using server_invD(4)[OF inv] wait unfolding table_ok_def same by fastforce
  moreover have "chans (sv_hub ?t) j = make_chan sendCapacity" if "j < sv_n ?t \<longrightarrow> waiting ?t j" for j
    using server_invD(7)[OF inv, of j] wait[of j] that by auto
  ultimately show ?thesis
    using server_invD(1,2,6)[OF inv] f serv by (simp add: server_inv_def)
qed

lemma server_pc_same [simp]: "(s :: server)\<lparr>sv_pc := sv_pc s\<rparr> = s"
  by (cases s) simp

lemma server_inv_local:
  assumes inv: "server_inv s" and k: "k < sv_n s"
    and p: "s_peer (f (sv_sess s k)) = sess_peer s k" and f: "sess_ok (f (sv_sess s k))"
    and h: "s_handler (f (sv_sess s k)) = Registering \<longleftrightarrow> s_handler (sv_sess s k) = Registering"
  shows "server_inv (on_session k f s)"
proof -
  have serv: "serving_ok (on_session k f s)"
    unfolding serving_ok_def
  proof (intro allI impI)
    fix ev q
    assume "sv_pc (on_session k f s) = Serving ev" "ev = Register q \<or> ev = Unregister q"
    then obtain j where "j < sv_n s" "q = sess_peer s j" "s_handler (sv_sess s j) \<noteq> Registering"
      using server_invD(5)[OF inv] by (auto simp: serving_ok_def)
    then show "\<exists>j < sv_n (on_session k f s). q = sess_peer (on_session k f s) j \<and>
        s_handler (sv_sess (on_session k f s) j) \<noteq> Registering"
      using p h by (intro exI[of _ j]) auto
  qed
  have "waiting (on_session k f s) j \<longleftrightarrow> waiting s j" for j
    using p h by (simp add: waiting_def)
  then show ?thesis
    using server_inv_session[OF inv k, of f "sv_pc s"] p f serv by simp
qed

lemma sess_ok_pumps:
  "sess_ok c \<Longrightarrow> s_reader c = Reading \<Longrightarrow> sess_ok (reader_turn r t c)"
  "sess_ok c \<Longrightarrow> s_reader c = Forwarding m \<Longrightarrow> sess_ok (reader_forwarded m c)"
  "sess_ok c \<Longrightarrow> s_writer c = Selecting \<Longrightarrow> sess_ok (writer_turn ok x c)"
  "sess_ok c \<Longrightarrow> s_writer c = Selecting \<Longrightarrow> sess_ok (writer_tick ok c)"
  by (auto simp: sess_ok_def reader_turn_def reader_forwarded_def writer_turn_def writer_tick_def
      stamp_def split: read_result.split sum.split option.split)

lemma sess_ok_handler:
  "sess_ok c \<Longrightarrow> s_handler c = Registering \<Longrightarrow> sess_ok (handler_registered c)"
  "sess_ok c \<Longrightarrow> s_handler c = Awaiting \<Longrightarrow> s_reader c = ReaderLeaving \<Longrightarrow> sess_ok (done_by_reader c)"
  "sess_ok c \<Longrightarrow> s_handler c = Awaiting \<Longrightarrow> s_writer c = WriterLeaving \<Longrightarrow> sess_ok (done_by_writer c)"
  "sess_ok c \<Longrightarrow> s_handler c = Unregistering \<Longrightarrow> sess_ok (handler_returns c)"
  "sess_ok c \<Longrightarrow> sess_ok (c\<lparr>s_open := False\<rparr>)"
  by (auto simp: sess_ok_def handler_registered_def done_by_reader_def done_by_writer_def
      handler_returns_def)

lemma session_peer_same [simp]:
  "s_peer (reader_turn r t c) = s_peer c" "s_peer (reader_forwarded m c) = s_peer c"
  "s_peer (writer_turn ok x c) = s_peer c" "s_peer (writer_tick ok c) = s_peer c"
  "s_peer (handler_registered c) = s_peer c" "s_peer (done_by_reader c) = s_peer c"
  "s_peer (done_by_writer c) = s_peer c" "s_peer (handler_returns c) = s_peer c"
  by (simp_all add: reader_turn_def reader_forwarded_def writer_turn_def writer_tick_def
      handler_registered_def done_by_reader_def done_by_writer_def handler_returns_def
      split: read_result.split sum.split option.split)

lemma session_handler_same [simp]:
  "s_handler (reader_turn r t c) = s_handler c" "s_handler (reader_forwarded m c) = s_handler c"
  "s_handler (writer_turn ok x c) = s_handler c" "s_handler (writer_tick ok c) = s_handler c"
  "s_handler (handler_registered c) = Awaiting" "s_handler (done_by_reader c) = Unregistering"
  "s_handler (done_by_writer c) = Unregistering" "s_handler (handler_returns c) = Returned"
  by (simp_all add: reader_turn_def reader_forwarded_def writer_turn_def writer_tick_def
      handler_registered_def done_by_reader_def done_by_writer_def handler_returns_def
      split: read_result.split sum.split option.split)

text \<open>A request changes hands: the hub was accepting and now serves.\<close>

lemma server_inv_request:
  assumes inv: "server_inv s" and k: "k < sv_n s" and pc: "sv_pc s = Accepting"
    and p: "s_peer (f (sv_sess s k)) = sess_peer s k" and f: "sess_ok (f (sv_sess s k))"
    and ev: "ev = Register (sess_peer s k) \<and> s_handler (sv_sess s k) = Registering \<and>
        s_handler (f (sv_sess s k)) \<noteq> Registering \<or>
      ev = Unregister (sess_peer s k) \<and> s_handler (sv_sess s k) \<noteq> Registering \<and>
        s_handler (f (sv_sess s k)) \<noteq> Registering \<or>
      (\<exists>m. ev = Broadcast m) \<and> s_handler (f (sv_sess s k)) = s_handler (sv_sess s k)"
  shows "server_inv (on_session k f (s\<lparr>sv_pc := Serving ev\<rparr>))"
proof (rule server_inv_session[where f = f, OF inv k p f])
  show "serving_ok (on_session k f (s\<lparr>sv_pc := Serving ev\<rparr>))"
    using ev k p by (auto simp: serving_ok_def)
  fix j
  assume j: "j < sv_n s"
  have "sess_peer s j = sess_peer s k \<longleftrightarrow> j = k"
    using names_okD(2)[OF server_invD(3)[OF inv] j k] by auto
  then show "waiting (on_session k f (s\<lparr>sv_pc := Serving ev\<rparr>)) j \<longleftrightarrow> waiting s j"
    using ev pc p by (auto simp: waiting_def)
qed

lemma server_inv_connect:
  assumes inv: "server_inv s"
    and new: "\<forall>k < sv_n s. peer_id (sess_peer s k) \<noteq> generatePeerID bytes"
  shows "server_inv (s\<lparr>sv_n := Suc (sv_n s),
    sv_sess := (sv_sess s)(sv_n s := new_session (new_peer bytes (sv_n s) t))\<rparr>)"
    (is "server_inv ?t")
proof -
  let ?n = "sv_n s"
  have new': "peer_id (sess_peer ?t ?n) = generatePeerID bytes" "peer_send (sess_peer ?t ?n) = ?n"
      "s_handler (sv_sess ?t ?n) = Registering"
    by (simp_all add: new_session_def new_peer_def)
  have old: "sv_sess ?t k = sv_sess s k" "waiting ?t k = waiting s k" if "k < ?n" for k
    using that by (simp_all add: waiting_def)
  have "names_ok ?t"
    using server_invD(3)[OF inv] new new' by (auto simp: names_ok_def less_Suc_eq)
  moreover have "table_ok ?t"
    unfolding table_ok_def
  proof (intro allI impI)
    fix i p
    assume "peers (sv_hub ?t) i = Some p"
    then obtain k where "k < ?n" "p = sess_peer s k" "\<not> waiting s k"
      by (auto elim: table_okE[OF server_invD(4)[OF inv]])
    then show "\<exists>k < sv_n ?t. p = sess_peer ?t k \<and> \<not> waiting ?t k"
      using old[of k] by (intro exI[of _ k]) auto
  qed
  moreover have "serving_ok ?t"
    unfolding serving_ok_def
  proof (intro allI impI)
    fix ev p
    assume "sv_pc ?t = Serving ev" "ev = Register p \<or> ev = Unregister p"
    then obtain k where "k < ?n" "p = sess_peer s k" "s_handler (sv_sess s k) \<noteq> Registering"
      using server_invD(5)[OF inv] by (auto simp: serving_ok_def)
    then show "\<exists>k < sv_n ?t. p = sess_peer ?t k \<and> s_handler (sv_sess ?t k) \<noteq> Registering"
      by (intro exI[of _ k]) auto
  qed
  moreover have "sess_ok (sv_sess ?t k)" if "k < sv_n ?t" for k
    using that server_invD(6)[OF inv, of k] by (auto simp: less_Suc_eq sess_ok_def new_session_def)
  moreover have "chans (sv_hub ?t) k = make_chan sendCapacity" if "k < sv_n ?t \<longrightarrow> waiting ?t k" for k
    using that server_invD(7)[OF inv, of k] old(2)[of k] by auto
  ultimately show ?thesis
    using server_invD(1,2)[OF inv] by (simp add: server_inv_def)
qed

lemma chan_recv_Done:
  "chan_recv c = Done (x, d) \<Longrightarrow> closed d = closed c \<and> capacity d = capacity c \<and>
     (x = None \<and> d = c \<and> closed c \<and> buf c = [] \<or> (\<exists>m. x = Some m \<and> buf c = m # buf d))"
  by (auto simp: chan_recv_def split: list.splits if_splits)

lemma hub_inv_set_chan:
  assumes inv: "hub_inv h" and c: "chan_ok (chans h r) \<Longrightarrow> chan_ok c"
  shows "hub_inv (set_chan r c h)"
proof (rule hub_invI)
  fix i p
  assume p: "peers (set_chan r c h) i = Some p"
  then show "chan_ok (chans (set_chan r c h) (peer_send p))"
    using hub_inv_chan[OF inv, of i p] c by (auto simp: set_chan_def)
  show "peer_id p = i" using p hub_inv_id[OF inv] by (simp add: set_chan_def)
next
  fix i j p q
  assume "peers (set_chan r c h) i = Some p" "peers (set_chan r c h) j = Some q"
    "peer_send p = peer_send q"
  then show "i = j" using hub_inv_inj[OF inv] by (simp add: set_chan_def)
qed (simp add: set_chan_def hub_inv_finite[OF inv])

lemma selecting_not_waiting:
  assumes inv: "server_inv s" and k: "k < sv_n s" and w: "s_writer (sv_sess s k) = Selecting"
    and recv: "chan_recv (chans (sv_hub s) k) = Done (x, c)"
  shows "\<not> waiting s k"
proof
  assume "waiting s k"
  then have "chans (sv_hub s) k = make_chan sendCapacity" using server_invD(7)[OF inv] by blast
  with recv show False by (simp add: chan_recv_def)
qed

text \<open>The state after a writer took something from its channel.\<close>

lemma server_inv_write:
  assumes inv: "server_inv s" and k: "k < sv_n s" and w: "s_writer (sv_sess s k) = Selecting"
    and recv: "chan_recv (chans (sv_hub s) k) = Done (x, c)"
  shows "server_inv (on_session k (writer_turn ok x) (s\<lparr>sv_hub := set_chan k c (sv_hub s)\<rparr>))"
proof -
  let ?u = "s\<lparr>sv_hub := set_chan k c (sv_hub s)\<rparr>"
  note nw = selecting_not_waiting[OF assms]
  have ok: "chan_ok (chans (sv_hub s) k) \<Longrightarrow> chan_ok c"
    using chan_recv_Done[OF recv] by (auto simp: chan_ok_def)
  have wait: "waiting ?u j \<longleftrightarrow> waiting s j" for j by (simp add: waiting_def)
  have "chans (sv_hub ?u) j = make_chan sendCapacity" if "j < sv_n s \<longrightarrow> waiting s j" for j
    using server_invD(7)[OF inv, of j] that nw k by (auto simp: set_chan_def)
  moreover have "table_ok ?u"
    using server_invD(4)[OF inv] wait by (simp add: table_ok_def set_chan_def)
  ultimately have "server_inv ?u"
    using server_invD[OF inv] hub_inv_set_chan[OF server_invD(1)[OF inv] ok] wait
    by (simp add: server_inv_def names_ok_def serving_ok_def)
  from server_inv_local[OF this, of k "writer_turn ok x"] show ?thesis
    using k w sess_ok_pumps(3)[OF server_invD(6)[OF inv k] w] by simp
qed

lemma server_inv_turn:
  assumes inv: "server_inv s" and pc: "sv_pc s = Serving ev"
    and env: "env_ok e (table_after ev (peers (sv_hub s)))"
    and step: "hub_step e ev (sv_hub s) = Done h"
  shows "server_inv (s\<lparr>sv_hub := h, sv_pc := Accepting\<rparr>)"
proof -
  let ?t = "s\<lparr>sv_hub := h, sv_pc := Accepting\<rparr>"
  note ok = serving_request_ok[OF inv pc env]
  note h = server_invD(1)[OF inv]
  have wait: "waiting ?t k \<longleftrightarrow> s_handler (sv_sess s k) = Registering" for k
    by (simp add: waiting_def)
  have reg: "\<exists>k < sv_n s. p = sess_peer s k \<and> s_handler (sv_sess s k) \<noteq> Registering"
    if "ev = Register p" for p
    using server_invD(5)[OF inv] pc that by (auto simp: serving_ok_def)
  have "table_ok ?t"
    unfolding table_ok_def
  proof (intro allI impI)
    fix i p
    assume "peers (sv_hub ?t) i = Some p"
    then have "table_after ev (peers (sv_hub s)) i = Some p"
      using hub_step_peers[OF h ok step] by simp
    then have "ev = Register p \<or> peers (sv_hub s) i = Some p"
      by (cases ev) (auto split: if_splits)
    then have "\<exists>k < sv_n s. p = sess_peer s k \<and> s_handler (sv_sess s k) \<noteq> Registering"
    proof
      assume "ev = Register p"
      then show ?thesis by (rule reg)
    next
      assume "peers (sv_hub s) i = Some p"
      then obtain k where "k < sv_n s" "p = sess_peer s k" "\<not> waiting s k"
        by (rule table_okE[OF server_invD(4)[OF inv]])
      then show ?thesis by (auto simp: waiting_def)
    qed
    then show "\<exists>k < sv_n ?t. p = sess_peer ?t k \<and> \<not> waiting ?t k"
      by (simp add: wait)
  qed
  moreover have "chans (sv_hub ?t) k = make_chan sendCapacity" if k: "k < sv_n ?t \<longrightarrow> waiting ?t k" for k
  proof -
    have k': "k < sv_n s \<longrightarrow> waiting s k" using k by (auto simp: wait waiting_def)
    have "peer_send p \<noteq> k" if "ev = Register p" for p
      using reg[OF that] names_okD(1)[OF server_invD(3)[OF inv]] k by (auto simp: wait)
    then have "chans h k = chans (sv_hub s) k"
      by (intro hub_step_unused[OF h ok step unused_chan[OF inv k']])
    then show ?thesis using server_invD(7)[OF inv k'] by simp
  qed
  ultimately show ?thesis
    using server_invD(2,3,6)[OF inv] hub_step_inv[OF h ok step]
    by (simp add: server_inv_def names_ok_def serving_ok_def)
qed

lemma server_step_inv:
  assumes inv: "server_inv s" and step: "server_step s t"
  shows "server_inv t"
  using step
proof cases
  case (connect bytes t)
  then show ?thesis using server_inv_connect[OF inv] by simp
next
  case (register k)
  then show ?thesis
    using server_inv_request[OF inv, of k handler_registered]
      sess_ok_handler(1)[OF server_invD(6)[OF inv]] by simp
next
  case (unregister k)
  then show ?thesis
    using server_inv_request[OF inv, of k handler_returns]
      sess_ok_handler(4)[OF server_invD(6)[OF inv]] by simp
next
  case (broadcast k m)
  then show ?thesis
    using server_inv_request[OF inv, of k "reader_forwarded m"]
      sess_ok_pumps(2)[OF server_invD(6)[OF inv]] by simp
next
  case (hub_turn ev e h)
  then show ?thesis using server_inv_turn[OF inv] by simp
next
  case (hub_panic ev e msg)
  then show ?thesis
    using hub.no_panic[OF server_invD(1)[OF inv] serving_request_ok[OF inv]] by simp
next
  case (read k r t)
  then show ?thesis
    using server_inv_local[OF inv, of k "reader_turn r t"]
      sess_ok_pumps(1)[OF server_invD(6)[OF inv]] by simp
next
  case (write_message k x c ok)
  then show ?thesis
    using server_inv_write[OF inv, of k x c ok] names_okD(1)[OF server_invD(3)[OF inv]] by simp
next
  case (write_ping k ok)
  then show ?thesis
    using server_inv_local[OF inv, of k "writer_tick ok"]
      sess_ok_pumps(4)[OF server_invD(6)[OF inv]] by simp
next
  case (reader_done k)
  then show ?thesis
    using server_inv_local[OF inv, of k done_by_reader]
      sess_ok_handler(2)[OF server_invD(6)[OF inv]] by simp
next
  case (writer_done k)
  then show ?thesis
    using server_inv_local[OF inv, of k done_by_writer]
      sess_ok_handler(3)[OF server_invD(6)[OF inv]] by simp
next
  case (drop k)
  then show ?thesis
    using server_inv_local[OF inv, of k "\<lambda>c. c\<lparr>s_open := False\<rparr>"]
      sess_ok_handler(5)[OF server_invD(6)[OF inv]] by simp
qed

lemma server_inv_start: "server_inv (start_server s0)"
  by (simp add: server_inv_def start_server_def hub_inv_NewHub names_ok_def table_ok_def
      serving_ok_def, simp add: NewHub_def)

lemma server_steps_inv: "server_steps s t \<Longrightarrow> server_inv s \<Longrightarrow> server_inv t"
  by (induction rule: server_steps.induct) (auto intro: server_step_inv)

lemma server_reachable_inv: "server_reachable s \<Longrightarrow> server_inv s"
  using server_steps_inv server_inv_start by (auto simp: server_reachable_def)

end
