(* ===== verification/ServerDelivery.thy ===== *)
theory ServerDelivery
  imports ServerSafety
begin

text \<open>
  What reaches a client. The stream of a connection is what was written to its socket, the
  message whose write failed, and what is still in its channel. It only ever grows at its
  end (first in, first out, nothing lost on the way to the socket), it starts with the
  connection's own registration and the list of peers, and every message in it that names a
  sender was sent by the connection of that name.
\<close>

lemma server_reachable_induct [consumes 1, case_names start step]:
  assumes "server_reachable s" "\<And>s0. P (start_server s0)"
    and "\<And>s t. server_inv s \<Longrightarrow> P s \<Longrightarrow> server_step s t \<Longrightarrow> P t"
  shows "P s"
proof -
  have "server_steps s1 s \<Longrightarrow> server_inv s1 \<and> P s1 \<Longrightarrow> server_inv s \<and> P s" for s1
    by (induction rule: server_steps.induct) (use assms(3) server_step_inv in blast)+
  then show ?thesis
    using assms(1,2) server_inv_start by (auto simp: server_reachable_def)
qed

definition stream :: "server \<Rightarrow> nat \<Rightarrow> message list" where
  "stream s k = s_out (sv_sess s k) @ s_lost (sv_sess s k) @ buf (chans (sv_hub s) k)"

lemma session_out_same [simp]:
  "s_out (reader_turn r t c) = s_out c" "s_lost (reader_turn r t c) = s_lost c"
  "s_out (reader_forwarded m c) = s_out c" "s_lost (reader_forwarded m c) = s_lost c"
  "s_out (writer_tick ok c) = s_out c" "s_lost (writer_tick ok c) = s_lost c"
  "s_out (handler_registered c) = s_out c" "s_lost (handler_registered c) = s_lost c"
  "s_out (done_by_reader c) = s_out c" "s_lost (done_by_reader c) = s_lost c"
  "s_out (done_by_writer c) = s_out c" "s_lost (done_by_writer c) = s_lost c"
  "s_out (handler_returns c) = s_out c" "s_lost (handler_returns c) = s_lost c"
  by (simp_all add: reader_turn_def reader_forwarded_def writer_tick_def handler_registered_def
      done_by_reader_def done_by_writer_def handler_returns_def split: read_result.split sum.split)

lemma stream_write:
  assumes inv: "server_inv s" and j: "j < sv_n s" and w: "s_writer (sv_sess s j) = Selecting"
    and recv: "chan_recv (chans (sv_hub s) j) = Done (x, c)"
  shows "stream (on_session j (writer_turn ok x) (s\<lparr>sv_hub := set_chan j c (sv_hub s)\<rparr>)) k = stream s k"
proof -
  have "s_lost (sv_sess s j) = []"
    using server_invD(6)[OF inv j] w by (simp add: sess_ok_def)
  then show ?thesis
    using chan_recv_Done[OF recv]
    by (auto simp: stream_def set_chan_def writer_turn_def)
qed

definition adds :: "server \<Rightarrow> message list \<Rightarrow> bool" where
  "adds s ms \<longleftrightarrow> (ms \<noteq> [] \<longrightarrow> (\<exists>ev. sv_pc s = Serving ev \<and> list_all (may_send ev) ms))"

lemma stream_step:
  assumes inv: "server_inv s" and step: "server_step s t" and k: "k < sv_n s"
  shows "\<exists>ms. stream t k = stream s k @ ms \<and> adds s ms"
proof -
  have same: ?thesis if "stream t k = stream s k"
    using that by (intro exI[of _ "[]"]) (simp add: adds_def)
  from step show ?thesis
  proof cases
    case (hub_turn ev e h)
    then obtain ms where ms: "buf (chans h k) = buf (chans (sv_hub s) k) @ ms" "list_all (may_send ev) ms"
      using appends_step[of e ev "sv_hub s" h] by (auto simp: appends_def)
    then show ?thesis
      using hub_turn by (intro exI[of _ ms]) (simp add: stream_def adds_def)
  next
    case (write_message j x c ok)
    then show ?thesis
      using stream_write[OF inv, of j x c ok k] names_okD(1)[OF server_invD(3)[OF inv], of j]
      by (intro same) simp
  qed (rule same, use k in \<open>simp add: stream_def\<close>)+
qed

lemma stream_connect:
  assumes "server_inv s" "server_step s t" "sv_n s \<le> k" "k < sv_n t"
  shows "k = sv_n s \<and> stream t k = [] \<and> s_handler (sv_sess t k) = Registering"
  using assms(2)
proof cases
  case (connect bytes t)
  with assms show ?thesis
    using server_invD(7)[OF assms(1), of k]
    by (auto simp: stream_def new_session_def)
qed (use assms(3,4) in simp_all)

section \<open>The first two messages\<close>

definition greeted :: "peer \<Rightarrow> message list \<Rightarrow> bool" where
  "greeted p ms \<longleftrightarrow> (\<exists>t0 t1 infos rest. ms = regMsg t0 p # listMsg t1 infos # rest)"

lemma greeted_append: "greeted p ms \<Longrightarrow> greeted p (ms @ ns)"
  unfolding greeted_def by (metis append_Cons)

lemma register_greeting:
  assumes "hub_inv h" "request_ok (e, Register p) h" "hub_step e (Register p) h = Done h'"
  shows "greeted p (buf (chans h' (peer_send p)))"
proof -
  have fresh: "fresh_peer h p" using assms(2) by (simp add: request_ok_def)
  have h': "h' = deliver (joinedMsg (now e 2) p) (- {peer_id p}) (admit e p h)"
    using assms by (simp add: hub_step_def request_ok_def handleRegister_eq)
  have "peers (admit e p h) (peer_id p) = Some p" by (simp add: admit_def Let_def)
  then have "chans h' (peer_send p) = chans (admit e p h) (peer_send p)"
    by (simp add: h' deliver_chan[OF hub_inv_admit[OF assms(1) fresh]])
  then have "buf (chans h' (peer_send p)) = greeting e p ((peers h)(peer_id p \<mapsto> p))"
    by (simp add: admit_def Let_def)
  then show ?thesis unfolding greeted_def greeting_def by blast
qed

lemma server_step_session:
  assumes inv: "server_inv s" and step: "server_step s t" and k: "k < sv_n s"
  shows "k < sv_n t" "sess_peer t k = sess_peer s k"
    "\<exists>ms. s_sent (sv_sess t k) = s_sent (sv_sess s k) @ ms"
  using step
  by (cases; use k in \<open>simp add: reader_turn_def reader_forwarded_def writer_turn_def writer_tick_def
        handler_registered_def done_by_reader_def done_by_writer_def handler_returns_def
        split: read_result.split sum.split option.split\<close>)+

lemma waiting_step:
  assumes inv: "server_inv s" and step: "server_step s t" and k: "k < sv_n s"
    and before: "waiting s k" and after: "\<not> waiting t k"
  obtains e h where "sv_pc s = Serving (Register (sess_peer s k))"
    "env_ok e ((peers (sv_hub s))(peer_id (sess_peer s k) \<mapsto> sess_peer s k))"
    "hub_step e (Register (sess_peer s k)) (sv_hub s) = Done h"
    "t = s\<lparr>sv_hub := h, sv_pc := Accepting\<rparr>"
proof -
  from step show ?thesis
  proof cases
    case (hub_turn ev e h)
    with before after have "ev = Register (sess_peer s k)"
      by (auto simp: waiting_def)
    with hub_turn show ?thesis by (intro that) simp_all
  qed (use k before after in \<open>auto simp: waiting_def split: if_splits\<close>)
qed

lemma waiting_quiet:
  assumes inv: "server_inv s" and step: "server_step s t" and k: "k < sv_n s" and after: "waiting t k"
  shows "waiting s k" "s_out (sv_sess t k) = s_out (sv_sess s k)"
    "s_lost (sv_sess t k) = s_lost (sv_sess s k)"
proof -
  have names: "sess_peer s j = sess_peer s k \<longleftrightarrow> j = k" if "j < sv_n s" for j
    using names_okD(2)[OF server_invD(3)[OF inv] that k] by auto
  have "waiting s k \<and> s_out (sv_sess t k) = s_out (sv_sess s k) \<and>
      s_lost (sv_sess t k) = s_lost (sv_sess s k)"
    using step
  proof cases
    case (write_message j x c ok)
    then have "\<not> waiting s j"
      using selecting_not_waiting[OF inv, of j] names_okD(1)[OF server_invD(3)[OF inv], of j] by simp
    with write_message after k show ?thesis by (cases "j = k") (auto simp: waiting_def)
  qed (use k after names in \<open>auto simp: waiting_def split: if_splits\<close>)
  then show "waiting s k" "s_out (sv_sess t k) = s_out (sv_sess s k)"
    "s_lost (sv_sess t k) = s_lost (sv_sess s k)" by simp_all
qed

definition greetings :: "server \<Rightarrow> bool" where
  "greetings s \<longleftrightarrow> (\<forall>k < sv_n s.
     if waiting s k then s_out (sv_sess s k) = [] \<and> s_lost (sv_sess s k) = []
     else greeted (sess_peer s k) (stream s k))"

lemma greetings_step:
  assumes inv: "server_inv s" and old: "greetings s" and step: "server_step s t"
  shows "greetings t"
  unfolding greetings_def
proof (intro allI impI)
  fix k
  assume k: "k < sv_n t"
  show "if waiting t k then s_out (sv_sess t k) = [] \<and> s_lost (sv_sess t k) = []
     else greeted (sess_peer t k) (stream t k)"
  proof (cases "k < sv_n s")
    case False
    then have "stream t k = []" "waiting t k"
      using stream_connect[OF inv step _ k] by (auto simp: waiting_def)
    then show ?thesis by (simp add: stream_def)
  next
    case k': True
    show ?thesis
    proof (cases "waiting s k")
      case False
      obtain ms where "stream t k = stream s k @ ms"
        using stream_step[OF inv step k'] by blast
      with old k' False show ?thesis
        using server_step_session(2)[OF inv step k'] waiting_quiet(1)[OF inv step k']
        by (auto simp: greetings_def greeted_append)
    next
      case True
      then have quiet: "s_out (sv_sess s k) = []" "s_lost (sv_sess s k) = []"
        using old k' by (auto simp: greetings_def)
      show ?thesis
      proof (cases "waiting t k")
        case True
        with quiet waiting_quiet[OF inv step k'] show ?thesis by simp
      next
        case nw: False
        from waiting_step[OF inv step k' True nw] obtain e h where *:
            "sv_pc s = Serving (Register (sess_peer s k))"
            "env_ok e ((peers (sv_hub s))(peer_id (sess_peer s k) \<mapsto> sess_peer s k))"
            "hub_step e (Register (sess_peer s k)) (sv_hub s) = Done h"
            "t = s\<lparr>sv_hub := h, sv_pc := Accepting\<rparr>" .
        then have "greeted (sess_peer s k) (buf (chans h k))"
          using register_greeting[OF server_invD(1)[OF inv] serving_request_ok[OF inv *(1)] *(3)]
            names_okD(1)[OF server_invD(3)[OF inv] k'] by simp
        with * nw quiet show ?thesis by (simp add: stream_def)
      qed
    qed
  qed
qed

lemma reachable_greetings: "server_reachable s \<Longrightarrow> greetings s"
  by (induction rule: server_reachable_induct)
     (simp add: greetings_def start_server_def, rule greetings_step)

section \<open>Who a message comes from\<close>

definition sent_by :: "server \<Rightarrow> message \<Rightarrow> bool" where
  "sent_by s m \<longleftrightarrow>
     (\<exists>j < sv_n s. m_from m = peer_id (sess_peer s j) \<and> m \<in> set (s_sent (sv_sess s j)))"

definition authentic :: "server \<Rightarrow> bool" where
  "authentic s \<longleftrightarrow>
     (\<forall>m. sv_pc s = Serving (Broadcast m) \<longrightarrow> sent_by s m) \<and>
     (\<forall>k < sv_n s. \<forall>m \<in> set (stream s k). m_from m = '''' \<or> sent_by s m)"

lemma sent_by_step:
  assumes "server_inv s" "server_step s t" "sent_by s m"
  shows "sent_by t m"
proof -
  obtain j where j: "j < sv_n s" "m_from m = peer_id (sess_peer s j)" "m \<in> set (s_sent (sv_sess s j))"
    using assms(3) by (auto simp: sent_by_def)
  obtain ms where ms: "s_sent (sv_sess t j) = s_sent (sv_sess s j) @ ms"
    using server_step_session(3)[OF assms(1,2) j(1)] by blast
  show ?thesis
    unfolding sent_by_def
    using j ms server_step_session(1,2)[OF assms(1,2) j(1)] by (intro exI[of _ j]) simp
qed

lemma authentic_step:
  assumes inv: "server_inv s" and old: "authentic s" and step: "server_step s t"
  shows "authentic t"
  unfolding authentic_def
proof (intro conjI allI impI ballI)
  fix m
  assume m: "sv_pc t = Serving (Broadcast m)"
  show "sent_by t m"
  proof (cases "sv_pc s = Serving (Broadcast m)")
    case True
    with old have "sent_by s m" by (simp add: authentic_def)
    then show ?thesis by (rule sent_by_step[OF inv step])
  next
    case False
    from step m False obtain k where k: "k < sv_n s" "s_reader (sv_sess s k) = Forwarding m"
        "t = on_session k (reader_forwarded m) (s\<lparr>sv_pc := Serving (Broadcast m)\<rparr>)"
      by cases auto
    then have "m_from m = peer_id (sess_peer s k)"
      using server_invD(6)[OF inv k(1)] by (simp add: sess_ok_def)
    then show ?thesis
      unfolding sent_by_def using k by (intro exI[of _ k]) (simp add: reader_forwarded_def)
  qed
next
  fix k m
  assume k: "k < sv_n t" and m: "m \<in> set (stream t k)"
  show "m_from m = '''' \<or> sent_by t m"
  proof (cases "k < sv_n s")
    case False
    then have "stream t k = []" using stream_connect[OF inv step _ k] by auto
    then show ?thesis using m by simp
  next
    case True
    obtain ms where ms: "stream t k = stream s k @ ms" "adds s ms"
      using stream_step[OF inv step True] by blast
    have "m_from m = '''' \<or> sent_by s m"
    proof (cases "m \<in> set (stream s k)")
      case True
      with old \<open>k < sv_n s\<close> show ?thesis by (auto simp: authentic_def)
    next
      case False
      with m ms obtain ev where "sv_pc s = Serving ev" "may_send ev m"
        by (auto simp: adds_def list_all_iff)
      with old show ?thesis by (auto simp: may_send_def authentic_def)
    qed
    then show ?thesis using sent_by_step[OF inv step] by blast
  qed
qed

lemma reachable_authentic: "server_reachable s \<Longrightarrow> authentic s"
  by (induction rule: server_reachable_induct)
     (simp add: authentic_def start_server_def, rule authentic_step)

end
