(* ===== verification/ServerDeadlock.thy ===== *)
theory ServerDeadlock
  imports ServerDelivery
begin

text \<open>
  The hub can stop for ever. An error reply is a plain send; when the sender's channel is full
  and its writer has already left its loop, nothing will ever take a message from that
  channel, and the hub, which alone could unregister the connection, waits on it. \<open>stuck\<close> is
  this situation: no step leaves it, and a single client that stops reading but keeps sending
  brings it about.
\<close>

definition stuck :: "server \<Rightarrow> nat \<Rightarrow> message \<Rightarrow> bool" where
  "stuck s k m \<longleftrightarrow>
     k < sv_n s \<and> sv_pc s = Serving (Broadcast m) \<and>
     undeliverable m (peers (sv_hub s)) \<and> peers (sv_hub s) (m_from m) = Some (sess_peer s k) \<and>
     full (chans (sv_hub s) k) \<and> s_writer (sv_sess s k) \<in> {WriterLeaving, WriterDone}"

lemma stuck_Blocked:
  assumes "server_inv s" "stuck s k m"
  shows "hub_step e (Broadcast m) (sv_hub s) = Blocked"
  using assms names_okD(1)[OF server_invD(3)[OF assms(1)]]
  by (simp add: stuck_def hub_step_def handleBroadcast_undeliverable[OF server_invD(1)])

lemma stuck_step:
  assumes inv: "server_inv s" and stuck: "stuck s k m" and step: "server_step s t"
  shows "stuck t k m"
proof -
  have k: "k < sv_n s" and pc: "sv_pc s = Serving (Broadcast m)"
    using stuck by (simp_all add: stuck_def)
  have "sv_pc t = sv_pc s \<and> peers (sv_hub t) = peers (sv_hub s) \<and>
      chans (sv_hub t) k = chans (sv_hub s) k \<and>
      s_writer (sv_sess t k) \<in> {WriterLeaving, WriterDone}"
    using step
  proof cases
    case (hub_turn ev e h)
    then show ?thesis using stuck_Blocked[OF inv stuck] pc by simp
  next
    case (hub_panic ev e msg)
    then show ?thesis using stuck_Blocked[OF inv stuck] pc by simp
  next
    case (write_message j x c ok)
    then have "j \<noteq> k" using stuck by (auto simp: stuck_def)
    with write_message stuck show ?thesis
      using names_okD(1)[OF server_invD(3)[OF inv], of j] by (simp add: set_chan_def stuck_def)
  qed (use stuck in \<open>auto simp: stuck_def reader_turn_def writer_tick_def
        done_by_reader_def done_by_writer_def split: read_result.split sum.split if_splits\<close>)
  then show ?thesis
    using stuck server_step_session(1,2)[OF inv step k] by (simp add: stuck_def)
qed

lemma stuck_forever:
  "server_steps s t \<Longrightarrow> server_inv s \<Longrightarrow> stuck s k m \<Longrightarrow> server_inv t \<and> stuck t k m"
  by (induction rule: server_steps.induct) (auto intro: server_step_inv stuck_step)

section \<open>A run to it\<close>

definition lone_bytes :: "8 word list" where
  "lone_bytes = replicate 8 0"

definition lone :: peer where
  "lone = new_peer lone_bytes 0 0"

definition lone_env :: env where
  "lone_env = \<lparr>now = (\<lambda>_. 0), range_order = (\<lambda>_. [peer_id lone])\<rparr>"

text \<open>A server with one client, which has \<open>b\<close> messages waiting in its channel.\<close>

definition lonely :: "nat \<Rightarrow> server \<Rightarrow> bool" where
  "lonely b s \<longleftrightarrow>
     server_reachable s \<and> sv_pc s = Accepting \<and> sv_n s = 1 \<and>
     peers (sv_hub s) = [peer_id lone \<mapsto> lone] \<and>
     capacity (chans (sv_hub s) 0) = sendCapacity \<and> length (buf (chans (sv_hub s) 0)) = b \<and>
     s_peer (sv_sess s 0) = lone \<and> s_handler (sv_sess s 0) = Awaiting \<and>
     s_reader (sv_sess s 0) = Reading \<and> s_writer (sv_sess s 0) = Selecting \<and> s_open (sv_sess s 0)"

lemma reachable_step: "server_reachable s \<Longrightarrow> server_step s t \<Longrightarrow> server_reachable t"
  by (auto simp: server_reachable_def intro: server_steps.one_more)

lemma lone_simps [simp]:
  "peer_send lone = 0" "peer_id lone = generatePeerID lone_bytes" "joined_at lone = 0"
  by (simp_all add: lone_def new_peer_def)

lemma lone_env_ok [simp]: "env_ok lone_env [generatePeerID lone_bytes \<mapsto> lone]" "clock_ok lone_env"
  by (simp_all add: env_ok_def lone_env_def visits_def clock_ok_def)

lemma lonely_start: "\<exists>s. lonely 2 s \<and> s_sent (sv_sess s 0) = []"
proof -
  let ?s0 = "start_server (new_session lone)"
  let ?s1 = "?s0\<lparr>sv_n := Suc (sv_n ?s0),
      sv_sess := (sv_sess ?s0)(sv_n ?s0 := new_session (new_peer lone_bytes (sv_n ?s0) 0))\<rparr>"
  let ?s2 = "on_session 0 handler_registered (?s1\<lparr>sv_pc := Serving (Register (sess_peer ?s1 0))\<rparr>)"
  have "server_reachable ?s0"
    by (auto simp: server_reachable_def intro: server_steps.no_step)
  moreover have "server_step ?s0 ?s1"
    by (rule server_step.connect) (simp_all add: lone_bytes_def start_server_def)
  ultimately have "server_reachable ?s1" by (rule reachable_step)
  moreover have "server_step ?s1 ?s2"
    by (rule server_step.register) (simp_all add: start_server_def new_session_def)
  ultimately have r2: "server_reachable ?s2" by (rule reachable_step)
  have pc: "sv_pc ?s2 = Serving (Register lone)" and hub: "sv_hub ?s2 = NewHub (\<lambda>_. make_chan sendCapacity)"
    and n: "sv_n ?s2 = 1" "sess_peer ?s2 0 = lone"
    by (simp_all add: start_server_def new_session_def lone_def)
  have fresh: "fresh_peer (sv_hub ?s2) lone"
    by (simp add: fresh_peer_def uses_chan_def start_server_def NewHub_def)
  have tbl: "(peers (sv_hub ?s2))(peer_id lone \<mapsto> lone) = [generatePeerID lone_bytes \<mapsto> lone]"
    by (simp add: start_server_def NewHub_def)
  let ?h = "deliver (joinedMsg (now lone_env 2) lone) (- {peer_id lone}) (admit lone_env lone (sv_hub ?s2))"
  let ?s3 = "?s2\<lparr>sv_hub := ?h, sv_pc := Accepting\<rparr>"
  have "hub_step lone_env (Register lone) (sv_hub ?s2) = Done ?h"
    using handleRegister_eq[OF server_invD(1)[OF server_reachable_inv[OF r2]] fresh] tbl
    by (simp add: hub_step_def)
  with pc tbl have "server_step ?s2 ?s3"
    by (intro server_step.hub_turn) simp_all
  with r2 have r3: "server_reachable ?s3" by (rule reachable_step)
  have a: "peers (admit lone_env lone (sv_hub ?s2)) = [generatePeerID lone_bytes \<mapsto> lone]"
    using tbl by (simp add: admit_def Let_def)
  have "chans ?h 0 = chans (admit lone_env lone (sv_hub ?s2)) 0"
    using a by (auto simp: deliver_def)
  also have "\<dots> = (make_chan sendCapacity)\<lparr>buf := greeting lone_env lone [generatePeerID lone_bytes \<mapsto> lone]\<rparr>"
    using tbl fresh_peerD(3)[OF fresh] by (simp add: admit_def Let_def)
  finally have c: "capacity (chans ?h 0) = sendCapacity" "length (buf (chans ?h 0)) = 2"
    by (simp_all add: greeting_def)
  have sess: "s_peer (sv_sess ?s3 0) = lone" "s_handler (sv_sess ?s3 0) = Awaiting"
      "s_reader (sv_sess ?s3 0) = Reading" "s_writer (sv_sess ?s3 0) = Selecting"
      "s_open (sv_sess ?s3 0)" "sv_n ?s3 = 1"
    using n by (simp_all add: start_server_def new_session_def handler_registered_def)
  have "lonely 2 ?s3"
    unfolding lonely_def using r3 c sess a by simp
  moreover have "s_sent (sv_sess ?s3 0) = []"
    by (simp add: start_server_def new_session_def handler_registered_def)
  ultimately show ?thesis by blast
qed

text \<open>What its client sends: a message to itself, and one to nobody.\<close>

definition to_self :: message where
  "to_self = \<lparr>m_type = Signal, m_from = '''', m_to = peer_id lone, m_data = Some JNull, m_timestamp = 0\<rparr>"

definition to_nobody :: message where
  "to_nobody = \<lparr>m_type = Signal, m_from = '''', m_to = ''nobody'', m_data = Some JNull, m_timestamp = 0\<rparr>"

lemma lone_id: "peer_id lone \<noteq> ''''" "peer_id lone \<noteq> ''nobody''"
proof -
  have "length (peer_id lone) = 16"
    by (simp add: generatePeerID_def hex_encode_length lone_bytes_def)
  then show "peer_id lone \<noteq> ''''" "peer_id lone \<noteq> ''nobody''" by auto
qed

text \<open>The reader receives a message and hands it to the hub.\<close>

lemma lonely_forward:
  assumes s: "lonely b s" and m: "message_ok m"
    and t: "t = on_session 0 (reader_forwarded (stamp lone 0 m))
      (on_session 0 (reader_turn (ReadText (Some (enc_message m))) 0) s\<lparr>sv_pc := Serving (Broadcast (stamp lone 0 m))\<rparr>)"
  shows "server_reachable t" "sv_pc t = Serving (Broadcast (stamp lone 0 m))" "sv_hub t = sv_hub s"
    "sv_sess t 0 = (sv_sess s 0)\<lparr>s_sent := s_sent (sv_sess s 0) @ [stamp lone 0 m]\<rparr>"
    "sv_n t = 1"
proof -
  let ?u = "on_session 0 (reader_turn (ReadText (Some (enc_message m))) 0) s"
  have u: "sv_sess ?u 0 = (sv_sess s 0)\<lparr>s_reader := Forwarding (stamp lone 0 m)\<rparr>"
    using s by (simp add: lonely_def reader_turn_def msg.dec_enc[OF m])
  have "server_step s ?u"
    using s by (intro server_step.read) (simp_all add: lonely_def)
  then have "server_reachable ?u"
    using s by (auto simp: lonely_def intro: reachable_step)
  moreover have "server_step ?u t"
    unfolding t using s u by (intro server_step.broadcast) (simp_all add: lonely_def)
  ultimately show "server_reachable t" by (rule reachable_step)
  have "(sv_sess s 0)\<lparr>s_reader := Reading\<rparr> = sv_sess s 0"
    using s by (cases "sv_sess s 0") (simp add: lonely_def)
  then show "sv_sess t 0 = (sv_sess s 0)\<lparr>s_sent := s_sent (sv_sess s 0) @ [stamp lone 0 m]\<rparr>"
    unfolding t using u by (simp add: reader_forwarded_def)
qed (use s in \<open>simp_all add: t lonely_def\<close>)

lemma lonely_more:
  assumes s: "lonely b s" and b: "b < sendCapacity"
  shows "\<exists>t. lonely (Suc b) t \<and> stamp lone 0 to_self \<in> set (buf (chans (sv_hub t) 0))"
proof -
  let ?m = "stamp lone 0 to_self"
  have "message_ok to_self" by (simp add: to_self_def message_ok_def in_int_def)
  note f = lonely_forward[OF s this refl]
  let ?t = "on_session 0 (reader_forwarded ?m)
      (on_session 0 (reader_turn (ReadText (Some (enc_message to_self))) 0) s\<lparr>sv_pc := Serving (Broadcast ?m)\<rparr>)"
  have inv: "hub_inv (sv_hub ?t)"
    by (rule server_invD(1)[OF server_reachable_inv[OF f(1)]])
  have tbl: "peers (sv_hub ?t) = [peer_id lone \<mapsto> lone]"
    using s f(3) by (simp add: lonely_def)
  let ?h = "deliver ?m {peer_id lone} (sv_hub ?t)"
  have to: "m_to ?m = peer_id lone" by (simp add: stamp_def to_self_def)
  have "hub_step lone_env (Broadcast ?m) (sv_hub ?t) = Done (deliver ?m (recipients ?m) (sv_hub ?t))"
    unfolding hub_step_def hub_event.case
    by (rule handleBroadcast_deliverable[OF inv]) (simp_all only: tbl to undeliverable_def, simp_all)
  then have step: "hub_step lone_env (Broadcast ?m) (sv_hub ?t) = Done ?h"
    using lone_id(1) to by (simp add: recipients_def)
  have "server_step ?t (?t\<lparr>sv_hub := ?h, sv_pc := Accepting\<rparr>)"
    by (rule server_step.hub_turn[OF f(2) _ _ step]) (simp_all add: tbl del: on_session_simps)
  with f(1) have r: "server_reachable (?t\<lparr>sv_hub := ?h, sv_pc := Accepting\<rparr>)"
    by (rule reachable_step)
  have "peers (sv_hub ?t) (peer_id lone) = Some lone" by (simp only: tbl) simp
  from deliver_chan[OF inv this, of ?m "{peer_id lone}"]
  have c: "chans ?h 0 = offered ?m (chans (sv_hub s) 0)" using f(3) by simp
  have "lonely (Suc b) (?t\<lparr>sv_hub := ?h, sv_pc := Accepting\<rparr>)"
    using r c s b f(4,5) tbl unfolding lonely_def by simp
  moreover have "?m \<in> set (buf (chans (sv_hub (?t\<lparr>sv_hub := ?h, sv_pc := Accepting\<rparr>)) 0))"
    using c s b by (simp add: lonely_def)
  ultimately show ?thesis by blast
qed

lemma lonely_reaches: "2 \<le> b \<Longrightarrow> b \<le> sendCapacity \<Longrightarrow> \<exists>s. lonely b s"
proof (induction b rule: dec_induct)
  case base
  show ?case using lonely_start by blast
next
  case (step b)
  then show ?case using lonely_more by fastforce
qed

text \<open>A full channel, a writer whose ping failed, and a message to nobody.\<close>

lemma stuck_reachable: "\<exists>s m. server_reachable s \<and> stuck s 0 m"
proof -
  obtain s where s: "lonely sendCapacity s"
    using lonely_reaches[of sendCapacity] by (auto simp: sendCapacity_def)
  let ?m = "stamp lone 0 to_nobody"
  have "message_ok to_nobody" by (simp add: to_nobody_def message_ok_def in_int_def)
  note f = lonely_forward[OF s this refl]
  let ?t = "on_session 0 (reader_forwarded ?m)
      (on_session 0 (reader_turn (ReadText (Some (enc_message to_nobody))) 0) s\<lparr>sv_pc := Serving (Broadcast ?m)\<rparr>)"
  let ?u = "on_session 0 (writer_tick False) ?t"
  have "server_step ?t ?u"
    using s f(4,5) by (intro server_step.write_ping) (simp_all add: lonely_def del: on_session_simps)
  with f(1) have "server_reachable ?u" by (rule reachable_step)
  moreover have "stuck ?u 0 ?m"
    using s lone_id
    by (simp add: stuck_def lonely_def undeliverable_def stamp_def to_nobody_def writer_tick_def
        reader_forwarded_def reader_turn_def split: sum.split)
  ultimately show ?thesis by blast
qed

end
