(* ===== verification/ServerProps.thy ===== *)
theory ServerProps
  imports ServerDeadlock
begin

text \<open>
  The properties of the server as a system of goroutines. Each holds in every state that any
  interleaving of the connections, the hub and the network can reach.
\<close>

section \<open>Safety\<close>

text \<open>C1: No interleaving makes the server panic: the hub never sends to or closes a closed
  channel, its table stays consistent, and every entry is a connection that registered.\<close>

theorem server_never_panics:
  assumes "server_reachable s"
  shows "\<not> sv_crashed s \<and> hub_inv (sv_hub s) \<and>
    (\<forall>i p. peers (sv_hub s) i = Some p \<longrightarrow>
       (\<exists>k < sv_n s. p = s_peer (sv_sess s k) \<and> s_handler (sv_sess s k) \<noteq> Registering))"
proof -
  note inv = server_reachable_inv[OF assms]
  have "\<exists>k < sv_n s. p = sess_peer s k \<and> s_handler (sv_sess s k) \<noteq> Registering"
    if p: "peers (sv_hub s) i = Some p" for i p
    using table_okE[OF server_invD(4)[OF inv] p] by (auto simp: waiting_def)
  then show ?thesis using server_invD(1,2)[OF inv] by blast
qed

theorem server_never_panics_witness:
  "\<exists>s. server_reachable s \<and> \<not> sv_crashed s \<and> peers (sv_hub s) = [peer_id lone \<mapsto> lone]"
proof -
  obtain s where s: "lonely 2 s" using lonely_start by blast
  then have "\<not> sv_crashed s" using server_never_panics[of s] by (simp add: lonely_def)
  with s show ?thesis by (auto simp: lonely_def)
qed

text \<open>C26: Of the two pumps of a connection at most one ever ends, namely the one that made the
  handler unregister: the handler takes one value from \<open>done\<close>, so the other pump waits on
  its own \<open>done\<close> for ever (a goroutine is leaked per connection).\<close>

theorem one_pump_leaks:
  assumes "server_reachable s" "k < sv_n s"
  shows "\<not> (s_reader (sv_sess s k) = ReaderDone \<and> s_writer (sv_sess s k) = WriterDone) \<and>
    (s_handler (sv_sess s k) \<in> {Unregistering, Returned} \<longleftrightarrow>
       s_reader (sv_sess s k) = ReaderDone \<or> s_writer (sv_sess s k) = WriterDone)"
  using server_invD(6)[OF server_reachable_inv[OF assms(1)] assms(2)]
  by (auto simp: sess_ok_def)

lemma lonely_reader_fails:
  assumes s: "lonely b s"
  shows "\<exists>t. server_reachable t \<and> sv_n t = 1 \<and> s_handler (sv_sess t 0) = Returned \<and>
    s_reader (sv_sess t 0) = ReaderDone"
proof -
  let ?a = "on_session 0 (reader_turn (ReadError ''EOF'') 0) s"
  let ?b = "on_session 0 done_by_reader ?a"
  let ?c = "on_session 0 handler_returns (?b\<lparr>sv_pc := Serving (Unregister (s_peer (sv_sess ?b 0)))\<rparr>)"
  have "server_step s ?a"
    using s by (intro server_step.read) (auto simp: lonely_def)
  moreover have "server_step ?a ?b"
    using s by (intro server_step.reader_done) (simp_all add: lonely_def reader_turn_def)
  moreover have "server_step ?b ?c"
    using s by (intro server_step.unregister) (simp_all add: lonely_def)
  moreover have "server_reachable s" using s by (simp add: lonely_def)
  ultimately have "server_reachable ?c" by (meson reachable_step)
  moreover have "sv_n ?c = 1" "s_handler (sv_sess ?c 0) = Returned" "s_reader (sv_sess ?c 0) = ReaderDone"
    using s by (simp_all add: lonely_def handler_returns_def done_by_reader_def)
  ultimately show ?thesis by blast
qed

theorem one_pump_leaks_witness:
  "\<exists>s. server_reachable s \<and> s_handler (sv_sess s 0) = Returned \<and>
     s_reader (sv_sess s 0) = ReaderDone \<and> s_writer (sv_sess s 0) \<noteq> WriterDone"
proof -
  obtain b where "lonely 2 b" using lonely_start by blast
  then obtain t where t: "server_reachable t" "sv_n t = 1" "s_handler (sv_sess t 0) = Returned"
      "s_reader (sv_sess t 0) = ReaderDone"
    using lonely_reader_fails by blast
  then show ?thesis using one_pump_leaks[of t 0] by auto
qed

section \<open>Delivery\<close>

text \<open>C18: What a client has been sent only ever grows at its end: written frames, the frame
  whose write failed and the queue, in this order, are never reordered, altered or dropped.\<close>

theorem connection_is_fifo:
  assumes "server_reachable s" "server_steps s t" "k < sv_n s"
  shows "\<exists>ms. stream t k = stream s k @ ms"
proof -
  have "server_steps s t \<Longrightarrow> server_inv s \<and> k < sv_n s \<Longrightarrow>
      server_inv t \<and> k < sv_n t \<and> (\<exists>ms. stream t k = stream s k @ ms)"
  proof (induction rule: server_steps.induct)
    case (one_more s t u)
    then have t: "server_inv t" "k < sv_n t" "\<exists>ms. stream t k = stream s k @ ms" by auto
    with one_more(2) show ?case
      using server_step_inv[OF t(1)] server_step_session(1)[OF t(1) _ t(2)] stream_step[OF t(1) _ t(2)]
      by (metis append.assoc)
  qed simp
  then show ?thesis using assms server_reachable_inv by blast
qed

lemma lonely_write:
  assumes s: "lonely (Suc b) s"
  shows "\<exists>t m. server_step s t \<and> s_out (sv_sess t 0) = s_out (sv_sess s 0) @ [m] \<and>
    server_reachable t \<and> sv_n t = 1"
proof -
  obtain m ms where b: "buf (chans (sv_hub s) 0) = m # ms"
    using s by (cases "buf (chans (sv_hub s) 0)") (auto simp: lonely_def)
  let ?t = "on_session 0 (writer_turn True (Some m))
      (s\<lparr>sv_hub := set_chan (peer_send (s_peer (sv_sess s 0))) ((chans (sv_hub s) 0)\<lparr>buf := ms\<rparr>) (sv_hub s)\<rparr>)"
  have step: "server_step s ?t"
    using s b by (intro server_step.write_message) (simp_all add: lonely_def chan_recv_def)
  then have "server_reachable ?t" using s by (auto simp: lonely_def intro: reachable_step)
  moreover have "s_out (sv_sess ?t 0) = s_out (sv_sess s 0) @ [m]" "sv_n ?t = 1"
    using s by (simp_all add: writer_turn_def lonely_def)
  ultimately show ?thesis using step by blast
qed

theorem connection_is_fifo_witness:
  "\<exists>s t. server_reachable s \<and> server_step s t \<and> s_out (sv_sess t 0) \<noteq> s_out (sv_sess s 0) \<and>
     (\<exists>ms. stream t 0 = stream s 0 @ ms)"
proof -
  obtain s where s: "lonely 2 s" using lonely_start by blast
  then obtain t m where t: "server_step s t" "s_out (sv_sess t 0) = s_out (sv_sess s 0) @ [m]"
    using lonely_write[of 1 s] by (auto simp: numeral_2_eq_2)
  have "\<exists>ms. stream t 0 = stream s 0 @ ms"
    by (rule connection_is_fifo)
       (use s t in \<open>auto simp: lonely_def intro: server_steps.intros\<close>)
  moreover have "server_reachable s" using s by (simp add: lonely_def)
  moreover have "s_out (sv_sess t 0) \<noteq> s_out (sv_sess s 0)" using t(2) by simp
  ultimately show ?thesis using t(1) by blast
qed

text \<open>C19: The first frame a client is sent tells it its own identifier, and the second is the
  list of peers.\<close>

theorem first_frames:
  assumes "server_reachable s" "k < sv_n s" "s_out (sv_sess s k) = m # ms"
  shows "\<exists>t. m = regMsg t (s_peer (sv_sess s k)) \<and>
    (\<forall>m' rest. ms = m' # rest \<longrightarrow> (\<exists>t' infos. m' = listMsg t' infos))"
proof -
  have "greetings s" by (rule reachable_greetings[OF assms(1)])
  then have "greeted (sess_peer s k) (stream s k)"
    using assms(2,3) by (auto simp: greetings_def split: if_splits)
  then obtain t0 t1 infos rest where
      g: "stream s k = regMsg t0 (sess_peer s k) # listMsg t1 infos # rest"
    unfolding greeted_def by blast
  show ?thesis
  proof (rule exI[of _ t0], intro conjI allI impI)
    show "m = regMsg t0 (sess_peer s k)" using g assms(3) by (simp add: stream_def)
    fix m' rest'
    assume "ms = m' # rest'"
    then have "m' = listMsg t1 infos" using g assms(3) by (simp add: stream_def)
    then show "\<exists>t' infos. m' = listMsg t' infos" by (intro exI)
  qed
qed

theorem first_frames_witness:
  "\<exists>s t ms. server_reachable s \<and> s_out (sv_sess s 0) = regMsg t (s_peer (sv_sess s 0)) # ms"
proof -
  obtain s where "lonely 2 s" using lonely_start by blast
  then obtain t m where t: "server_reachable t" "sv_n t = 1" "s_out (sv_sess t 0) = s_out (sv_sess s 0) @ [m]"
    using lonely_write[of 1 s] by (auto simp: numeral_2_eq_2)
  then have "s_out (sv_sess t 0) \<noteq> []" by simp
  then obtain m' ms where out: "s_out (sv_sess t 0) = m' # ms" by (meson neq_Nil_conv)
  have "0 < sv_n t" using t(2) by simp
  from first_frames[OF t(1) this out] obtain u where "m' = regMsg u (s_peer (sv_sess t 0))" by blast
  with t(1) out show ?thesis by blast
qed

text \<open>C10: A client cannot speak under another's name: every message on its way to a client
  either carries no sender, as the hub's own do, or was read from the connection of the peer
  it names.\<close>

theorem senders_are_authentic:
  assumes "server_reachable s" "k < sv_n s" "m \<in> set (stream s k)"
  shows "m_from m = '''' \<or>
    (\<exists>j < sv_n s. m_from m = peer_id (s_peer (sv_sess s j)) \<and> m \<in> set (s_sent (sv_sess s j)))"
  using reachable_authentic[OF assms(1)] assms(2,3) by (auto simp: authentic_def sent_by_def)

theorem senders_are_authentic_witness:
  "\<exists>s. server_reachable s \<and> stamp lone 0 to_self \<in> set (s_sent (sv_sess s 0))"
proof -
  obtain s0 where "lonely 2 s0" using lonely_start by blast
  then obtain s where s: "lonely 3 s" "stamp lone 0 to_self \<in> set (buf (chans (sv_hub s) 0))"
    using lonely_more[of 2 s0] by (auto simp: sendCapacity_def numeral_3_eq_3 numeral_2_eq_2)
  then have "stamp lone 0 to_self \<in> set (stream s 0)" by (simp add: stream_def)
  then show ?thesis
    using senders_are_authentic[of s 0 "stamp lone 0 to_self"] s(1) lone_id(1)
    by (auto simp: lonely_def stamp_def)
qed

section \<open>The hub can stop for ever\<close>

text \<open>C11: There is a reachable state, brought about by a single client that stops reading but
  keeps sending, after which the hub waits on one message for ever: it serves no request and
  accepts no connection in any continuation.\<close>

theorem hub_can_deadlock:
  "\<exists>s m. server_reachable s \<and>
    (\<forall>t. server_steps s t \<longrightarrow> sv_pc t = Serving (Broadcast m) \<and>
       (\<forall>e. hub_step e (Broadcast m) (sv_hub t) = Blocked))"
proof -
  obtain s m where s: "server_reachable s" "stuck s 0 m" using stuck_reachable by blast
  have "sv_pc t = Serving (Broadcast m) \<and> hub_step e (Broadcast m) (sv_hub t) = Blocked"
    if "server_steps s t" for t e
    using stuck_forever[OF that server_reachable_inv[OF s(1)] s(2)] stuck_Blocked
    by (auto simp: stuck_def)
  with s(1) show ?thesis by blast
qed

theorem hub_can_deadlock_witness:
  "\<exists>s m. server_reachable s \<and> sv_pc s = Serving (Broadcast m) \<and>
     hub_step (\<lparr>now = (\<lambda>_. 0), range_order = (\<lambda>_. [])\<rparr>) (Broadcast m) (sv_hub s) = Blocked"
  using hub_can_deadlock server_steps.no_step by blast

text \<open>Identifiers are 16 hexadecimal digits and as different as the random bytes they are
  made from.\<close>

theorem generatePeerID_injective:
  assumes "length b = 8"
  shows "length (generatePeerID b) = 16 \<and> list_all is_hex (generatePeerID b) \<and>
    (generatePeerID b = generatePeerID c \<longleftrightarrow> b = c)"
  using assms hex_encode_inj[of b c]
  by (auto simp: generatePeerID_def hex_encode_length list_all_iff hex_encode_chars)

theorem generatePeerID_injective_witness:
  "length (generatePeerID [1, 2, 3, 4, 5, 6, 7, 255]) = 16"
  by (rule conjunct1[OF generatePeerID_injective]) simp

end
