(* ===== verification/Utf8.thy ===== *)
theory Utf8
  imports Strconv
begin

text \<open>
  The part of Go's \<open>unicode/utf8\<close> that \<open>encoding/json\<close> relies on: which bytes at the head of
  a string are the encoding of a rune, and how a rune is encoded. A string is cut into
  chunks, each the encoding of a rune or a single byte that starts none; \<open>coerce\<close> replaces
  the latter by U+FFFD, as \<open>encoding/json\<close> does with what is not UTF-8.
\<close>

section \<open>Encodings\<close>

abbreviation byte :: "char \<Rightarrow> nat" where
  "byte c \<equiv> of_char c"

definition cont_byte :: "char \<Rightarrow> bool" where
  "cont_byte c \<longleftrightarrow> 128 \<le> byte c \<and> byte c \<le> 191"

text \<open>The second byte: no overlong encodings, no surrogates, nothing above U+10FFFF.\<close>

definition second_byte :: "nat \<Rightarrow> char \<Rightarrow> bool" where
  "second_byte b c \<longleftrightarrow>
     (if b = 224 then 160 else if b = 240 then 144 else 128) \<le> byte c \<and>
     byte c \<le> (if b = 237 then 159 else if b = 244 then 143 else 191)"

text \<open>The length that the first byte announces, 0 for a byte that begins no encoding.\<close>

definition lead_size :: "nat \<Rightarrow> nat" where
  "lead_size b =
     (if b < 128 then 1
      else if 194 \<le> b \<and> b \<le> 223 then 2
      else if 224 \<le> b \<and> b \<le> 239 then 3
      else if 240 \<le> b \<and> b \<le> 244 then 4
      else 0)"

definition tail_ok :: "nat \<Rightarrow> string \<Rightarrow> bool" where
  "tail_ok b ds = (case ds of [] \<Rightarrow> True | d # es \<Rightarrow> second_byte b d \<and> list_all cont_byte es)"

text \<open>The length of the encoding at the head, 0 when there is none.\<close>

fun rune_size :: "string \<Rightarrow> nat" where
  "rune_size [] = 0"
| "rune_size (c # cs) =
     (let n = lead_size (byte c)
      in if n \<le> Suc (length cs) \<and> tail_ok (byte c) (take (n - 1) cs) then n else 0)"

declare rune_size.simps(2) [simp del]

definition encode_rune :: "nat \<Rightarrow> string" where
  "encode_rune v =
     (if v < 128 then [char_of v]
      else if v < 2048 then [char_of (192 + v div 64), char_of (128 + v mod 64)]
      else if v < 65536 then
        [char_of (224 + v div 4096), char_of (128 + v div 64 mod 64), char_of (128 + v mod 64)]
      else
        [char_of (240 + v div 262144), char_of (128 + v div 4096 mod 64),
         char_of (128 + v div 64 mod 64), char_of (128 + v mod 64)])"

definition replacement :: string where
  "replacement = [CHR 0xEF, CHR 0xBF, CHR 0xBD]"

lemma rune_size_bound: "rune_size s \<le> length s"
  by (cases s) (simp_all add: rune_size.simps(2) Let_def)

lemma rune_size_ascii [simp]: "byte c < 128 \<Longrightarrow> rune_size (c # cs) = 1"
  by (simp add: rune_size.simps(2) lead_size_def tail_ok_def)

section \<open>Chunks\<close>

definition is_rune :: "string \<Rightarrow> bool" where
  "is_rune s \<longleftrightarrow> s \<noteq> [] \<and> rune_size s = length s"

lemma rune_size_append: "rune_size s \<noteq> 0 \<Longrightarrow> rune_size (s @ r) = rune_size s"
  by (cases s) (auto simp: rune_size.simps(2) Let_def split: if_splits)

lemma rune_size_take: "rune_size s \<noteq> 0 \<Longrightarrow> rune_size (take (rune_size s) s) = rune_size s"
  by (cases s) (auto simp: rune_size.simps(2) Let_def take_Cons' min_def split: if_splits)

lemma is_rune_append: "is_rune s \<Longrightarrow> rune_size (s @ r) = length s"
  using rune_size_append[of s r] by (cases s) (auto simp: is_rune_def)

lemma is_rune_take: "rune_size s \<noteq> 0 \<Longrightarrow> is_rune (take (rune_size s) s)"
  using rune_size_take[of s] rune_size_bound[of s] by (auto simp: is_rune_def)

function chunks :: "string \<Rightarrow> string list" where
  "chunks s =
     (case s of
        [] \<Rightarrow> []
      | c # cs \<Rightarrow>
          if rune_size s = 0 then [c] # chunks cs
          else take (rune_size s) s # chunks (drop (rune_size s) s))"
  by pat_completeness auto
termination
  by (relation "measure length") (auto simp: neq0_conv)

declare chunks.simps [simp del]

lemma chunks_Nil [simp]: "chunks [] = []"
  by (simp add: chunks.simps)

lemma chunks_bad: "rune_size (c # cs) = 0 \<Longrightarrow> chunks (c # cs) = [c] # chunks cs"
  by (subst chunks.simps) simp

lemma chunks_rune:
  "rune_size (c # cs) \<noteq> 0 \<Longrightarrow>
   chunks (c # cs) = take (rune_size (c # cs)) (c # cs) # chunks (drop (rune_size (c # cs)) (c # cs))"
  by (subst chunks.simps) simp

lemma concat_chunks [simp]: "concat (chunks s) = s"
proof (induction s rule: chunks.induct)
  case (1 s)
  show ?case
  proof (cases s)
    case (Cons c cs)
    with 1 show ?thesis
      by (cases "rune_size s = 0") (simp_all add: chunks_bad chunks_rune)
  qed simp
qed

text \<open>A chunk that is not the encoding of a rune is one byte, and not an ASCII one.\<close>

definition bad_byte :: "string \<Rightarrow> bool" where
  "bad_byte ch \<longleftrightarrow> (\<exists>c. ch = [c] \<and> 128 \<le> byte c)"

lemma chunks_kinds: "ch \<in> set (chunks s) \<Longrightarrow> is_rune ch \<or> bad_byte ch"
proof (induction s rule: chunks.induct)
  case (1 s)
  show ?case
  proof (cases s)
    case Nil
    with "1.prems" show ?thesis by simp
  next
    case (Cons c cs)
    show ?thesis
    proof (cases "rune_size s = 0")
      case True
      then have "128 \<le> byte c" using Cons by (cases "byte c < 128") simp_all
      with True "1.IH"(1)[OF Cons True] "1.prems" Cons show ?thesis
        by (auto simp: chunks_bad bad_byte_def)
    next
      case False
      with "1.IH"(2)[OF Cons False] "1.prems" Cons is_rune_take[OF False] show ?thesis
        by (auto simp: chunks_rune)
    qed
  qed
qed

lemma bad_not_rune: "bad_byte ch \<Longrightarrow> \<not> is_rune ch"
  by (auto simp: bad_byte_def is_rune_def rune_size.simps(2) lead_size_def Let_def split: if_splits)

section \<open>Valid strings\<close>

definition valid_utf8 :: "string \<Rightarrow> bool" where
  "valid_utf8 s \<longleftrightarrow> list_all is_rune (chunks s)"

definition coerce_chunk :: "string \<Rightarrow> string" where
  "coerce_chunk ch = (if is_rune ch then ch else replacement)"

definition coerce :: "string \<Rightarrow> string" where
  "coerce s = concat (map coerce_chunk (chunks s))"

lemma coerce_valid: "valid_utf8 s \<Longrightarrow> coerce s = s"
proof -
  assume "valid_utf8 s"
  then have "map coerce_chunk (chunks s) = chunks s"
    by (intro map_idI) (simp add: valid_utf8_def coerce_chunk_def list_all_iff)
  then show ?thesis by (simp add: coerce_def)
qed

lemma chunks_ascii_Cons: "byte c < 128 \<Longrightarrow> chunks (c # cs) = [c] # chunks cs"
  by (simp add: chunks_rune)

lemma chunks_ascii: "\<forall>c \<in> set s. byte c < 128 \<Longrightarrow> chunks s = map (\<lambda>c. [c]) s"
  by (induction s) (simp_all add: chunks_rune)

lemma valid_ascii: "\<forall>c \<in> set s. byte c < 128 \<Longrightarrow> valid_utf8 s"
  by (simp add: valid_utf8_def chunks_ascii list_all_iff is_rune_def)

lemma chunks_append_rune: "is_rune ch \<Longrightarrow> chunks (ch @ s) = ch # chunks s"
proof -
  assume r: "is_rune ch"
  then obtain c cs where ch: "ch = c # cs" by (cases ch) (auto simp: is_rune_def)
  have n: "rune_size (ch @ s) = length ch" by (rule is_rune_append[OF r])
  then show ?thesis using chunks_rune[of c "cs @ s"] ch by simp
qed

lemma is_rune_replacement: "is_rune replacement"
  by (simp add: is_rune_def replacement_def rune_size.simps lead_size_def tail_ok_def second_byte_def
      cont_byte_def)

lemma chunks_runes: "\<forall>ch \<in> set cs. is_rune ch \<Longrightarrow> chunks (concat cs) = cs"
  by (induction cs) (simp_all add: chunks_append_rune)

lemma valid_coerce: "valid_utf8 (coerce s)"
proof -
  have "\<forall>ch \<in> set (map coerce_chunk (chunks s)). is_rune ch"
    using is_rune_replacement by (auto simp: coerce_chunk_def)
  from chunks_runes[OF this] this show ?thesis by (simp add: valid_utf8_def coerce_def list_all_iff)
qed

section \<open>Runes\<close>

text \<open>What a reader of runes gets: the encodings in order, U+FFFD for each bad byte.\<close>

definition runes :: "string \<Rightarrow> string list" where
  "runes s = map coerce_chunk (chunks s)"

lemma chunks_runes_append: "\<forall>ch \<in> set cs. is_rune ch \<Longrightarrow> chunks (concat cs @ s) = cs @ chunks s"
  by (induction cs) (simp_all add: chunks_append_rune)

lemma chunks_valid: "valid_utf8 s \<Longrightarrow> \<forall>ch \<in> set (chunks s). is_rune ch"
  by (simp add: valid_utf8_def list_all_iff)

lemma map_coerce_runes: "\<forall>ch \<in> set cs. is_rune ch \<Longrightarrow> map coerce_chunk cs = cs"
  by (intro map_idI) (simp add: coerce_chunk_def)

lemma runes_append: "valid_utf8 t \<Longrightarrow> runes (t @ s) = chunks t @ runes s"
  using chunks_runes_append[OF chunks_valid, of t s] map_coerce_runes[OF chunks_valid, of t]
  by (simp add: runes_def)

lemma runes_Nil [simp]: "runes [] = []"
  by (simp add: runes_def)

lemma runes_ascii: "byte c < 128 \<Longrightarrow> runes (c # s) = [c] # runes s"
  by (simp add: runes_def chunks_ascii_Cons coerce_chunk_def is_rune_def)

lemma chunks_eq_Nil [simp]: "chunks s = [] \<longleftrightarrow> s = []"
  by (metis chunks_Nil concat.simps(1) concat_chunks)

end
