(* ===== verification/Sscanf.thy ===== *)
theory Sscanf
  imports Utf8
begin

text \<open>
  \<open>fmt.Sscanf\<close> for formats made of literal ASCII characters, single spaces and the verbs
  \<open>%s\<close> and \<open>%d\<close>: \<open>advance\<close>, \<open>SkipSpace\<close>, \<open>convertString\<close>, \<open>scanInt\<close> and \<open>scanUint\<close> of the
  package \<open>fmt\<close>. The input is read rune by rune (\<open>runes\<close>): a byte that is not UTF-8 is read as
  U+FFFD, and white space is what \<open>isSpace\<close> of the package says, U+0085 and U+00A0
  included. The kind of an operand is the type of the variable it is stored in. Input
  after the last verb is ignored, as \<open>Sscanf\<close> does.

  The lemmas say what scanning does with a token, a number and a literal at the front of the
  input; the parser of candidates is evaluated with them.
\<close>

section \<open>White space\<close>

definition is_space :: "char \<Rightarrow> bool" where
  "is_space c \<longleftrightarrow> (let n = of_char c :: nat in 9 \<le> n \<and> n \<le> 13 \<or> n = 32)"

text \<open>White space of two and three bytes: U+0085, U+00A0; U+1680, U+2000 to U+200A, U+2028, U+2029,
  U+202F, U+205F, U+3000.\<close>

definition space2 :: "char \<Rightarrow> char \<Rightarrow> bool" where
  "space2 a b \<longleftrightarrow> a = CHR 0xC2 \<and> (b = CHR 0x85 \<or> b = CHR 0xA0)"

definition space3 :: "char \<Rightarrow> char \<Rightarrow> char \<Rightarrow> bool" where
  "space3 a b c \<longleftrightarrow>
     a = CHR 0xE1 \<and> b = CHR 0x9A \<and> c = CHR 0x80 \<or>
     a = CHR 0xE2 \<and> b = CHR 0x80 \<and>
       (let n = of_char c :: nat in 0x80 \<le> n \<and> n \<le> 0x8A \<or> n = 0xA8 \<or> n = 0xA9 \<or> n = 0xAF) \<or>
     a = CHR 0xE2 \<and> b = CHR 0x81 \<and> c = CHR 0x9F \<or>
     a = CHR 0xE3 \<and> b = CHR 0x80 \<and> c = CHR 0x80"

text \<open>The number of bytes of the white space character at the front, 0 when there is none.\<close>

definition space_len :: "string \<Rightarrow> nat" where
  "space_len s =
     (case s of
        [] \<Rightarrow> 0
      | a # s1 \<Rightarrow>
          if is_space a then 1
          else (case s1 of
            [] \<Rightarrow> 0
          | b # s2 \<Rightarrow>
              if space2 a b then 2
              else (case s2 of [] \<Rightarrow> 0 | c # _ \<Rightarrow> if space3 a b c then 3 else 0)))"

definition rune_space :: "string \<Rightarrow> bool" where
  "rune_space r \<longleftrightarrow> 0 < space_len r"

definition newline :: string where
  "newline = [CHR 0x0A]"

section \<open>Scanning runes\<close>

datatype operand = OString | OInt nat | OUint nat

datatype scanned = VString string | VInt int | VUint nat

fun skip_space :: "string list \<Rightarrow> string list result" where
  "skip_space [] = Inr []"
| "skip_space (r # rs) =
     (if r = newline then Inl ''unexpected newline''
      else if rune_space r then skip_space rs
      else Inr (r # rs))"

definition unexpected_eof :: "'a result" where
  "unexpected_eof = Inl ''unexpected EOF''"

definition scan_string :: "string list \<Rightarrow> (scanned \<times> string list) result" where
  "scan_string s =
     rbind (skip_space s) (\<lambda>s.
       if s = [] then unexpected_eof
       else Inr (VString (concat (takeWhile (\<lambda>r. \<not> rune_space r) s)), dropWhile (\<lambda>r. \<not> rune_space r) s))"

definition rune_digit :: "string \<Rightarrow> bool" where
  "rune_digit r \<longleftrightarrow> (case r of [c] \<Rightarrow> is_digit c | _ \<Rightarrow> False)"

text \<open>\<open>scanNumber\<close>: at least one digit, then as many as there are.\<close>

definition scan_digits :: "string list \<Rightarrow> (string \<times> string list) result" where
  "scan_digits s =
     (if s = [] then unexpected_eof
      else if takeWhile rune_digit s = [] then Inl ''expected integer''
      else Inr (concat (takeWhile rune_digit s), dropWhile rune_digit s))"

definition accept_sign :: "string list \<Rightarrow> string \<times> string list" where
  "accept_sign s =
     (case s of
        r # rs \<Rightarrow> if r = ''-'' \<or> r = ''+'' then (r, rs) else ([], s)
      | [] \<Rightarrow> ([], []))"

definition scan_int :: "nat \<Rightarrow> string list \<Rightarrow> (scanned \<times> string list) result" where
  "scan_int bits s =
     rbind (skip_space s) (\<lambda>s.
       if s = [] then unexpected_eof
       else (let (sg, s1) = accept_sign s in
         rbind (scan_digits s1) (\<lambda>(ds, s2).
         rbind (parse_int bits (sg @ ds)) (\<lambda>i. Inr (VInt i, s2)))))"

definition scan_uint :: "nat \<Rightarrow> string list \<Rightarrow> (scanned \<times> string list) result" where
  "scan_uint bits s =
     rbind (skip_space s) (\<lambda>s.
       rbind (scan_digits s) (\<lambda>(ds, s2).
       rbind (parse_uint bits ds) (\<lambda>n. Inr (VUint n, s2))))"

text \<open>\<open>%s\<close> into a string, \<open>%d\<close> into an integer; any other pair is a bad verb.\<close>

definition scan_one :: "char \<Rightarrow> operand \<Rightarrow> string list \<Rightarrow> (scanned \<times> string list) result" where
  "scan_one verb k s =
     rbind (skip_space s) (\<lambda>s.
       case k of
         OString \<Rightarrow> if verb = CHR ''s'' then scan_string s else Inl ''bad verb for string''
       | OInt bits \<Rightarrow> if verb = CHR ''d'' then scan_int bits s else Inl ''bad verb for integer''
       | OUint bits \<Rightarrow> if verb = CHR ''d'' then scan_uint bits s else Inl ''bad verb for integer'')"

text \<open>
  A space in the format needs at least one space in the input, or its end, and takes all the
  spaces there are up to a newline.
\<close>

definition match_space :: "string list \<Rightarrow> string list result" where
  "match_space s =
     (case s of
        [] \<Rightarrow> Inr []
      | r # rs \<Rightarrow>
          if \<not> rune_space r then Inl ''expected space in input to match format''
          else if r = newline then Inl ''newline in input does not match format''
          else Inr (dropWhile (\<lambda>r. rune_space r \<and> r \<noteq> newline) rs))"

definition match_char :: "char \<Rightarrow> string list \<Rightarrow> string list result" where
  "match_char c s =
     (case s of
        [] \<Rightarrow> unexpected_eof
      | r # rs \<Rightarrow> if r = [c] then Inr rs else Inl ''input does not match format'')"

function scan_format :: "string \<Rightarrow> operand list \<Rightarrow> string list \<Rightarrow> scanned list result" where
  "scan_format [] ks s = Inr []"
| "scan_format (c # fmt) ks s =
     (if c = CHR '' '' then rbind (match_space s) (scan_format (dropWhile is_space fmt) ks)
      else if c = CHR ''%'' then
        (case fmt of
           [] \<Rightarrow> Inl ''missing verb: % at end of format string''
         | verb # fmt' \<Rightarrow>
             (case ks of
                [] \<Rightarrow> Inl ''too few operands for format''
              | k # ks' \<Rightarrow>
                  rbind (scan_one verb k s) (\<lambda>(v, s').
                  rbind (scan_format fmt' ks' s') (\<lambda>vs. Inr (v # vs)))))
      else rbind (match_char c s) (scan_format fmt ks))"
  by pat_completeness auto
termination
  by (relation "measure (\<lambda>(fmt, ks, s). length fmt)")
     (auto simp: less_Suc_eq_le length_dropWhile_le)

definition sscanf :: "string \<Rightarrow> operand list \<Rightarrow> string \<Rightarrow> scanned list result" where
  "sscanf fmt ks s = scan_format fmt ks (runes s)"

section \<open>Scanning what was printed\<close>

text \<open>A token as \<open>%s\<close> prints and scans it: not empty, UTF-8, and without white space.\<close>

definition token :: "string \<Rightarrow> bool" where
  "token s \<longleftrightarrow> s \<noteq> [] \<and> valid_utf8 s \<and> (\<forall>r \<in> set (chunks s). \<not> rune_space r)"

text \<open>What may follow a token: the end of the input or a space.\<close>

definition gap :: "string list \<Rightarrow> bool" where
  "gap s \<longleftrightarrow> (s = [] \<or> rune_space (hd s))"

lemma is_space_blank [simp]: "is_space (CHR '' '')"
  by (simp add: is_space_def)

lemma rune_space_single [simp]: "rune_space [c] = is_space c"
  by (simp add: rune_space_def space_len_def)

lemma newline_is_space [simp]: "rune_space newline"
  by (simp add: newline_def is_space_def)

lemma rune_digit_single [simp]: "rune_digit [c] = is_digit c"
  by (simp add: rune_digit_def)

lemma digit_not_space: "is_digit c \<Longrightarrow> \<not> is_space c"
  by (auto simp: digit_val_def is_space_def Let_def split: if_splits)

lemma space_not_digit: "rune_space r \<Longrightarrow> \<not> rune_digit r"
  by (auto simp: rune_digit_def split: list.splits) (metis digit_not_space option.distinct(1))

lemma gap_simps [simp]: "gap []" "gap (r # s) \<longleftrightarrow> rune_space r"
  by (simp_all add: gap_def)

lemma skip_space_solid: "s = [] \<or> \<not> rune_space (hd s) \<Longrightarrow> skip_space s = Inr s"
  by (cases s) auto

lemma token_chunks: "token t \<Longrightarrow> chunks t \<noteq> [] \<and> \<not> rune_space (hd (chunks t))"
  by (metis chunks_eq_Nil list.set_sel(1) token_def)

lemma skip_space_token: "token t \<Longrightarrow> skip_space (chunks t @ s) = Inr (chunks t @ s)"
  using token_chunks by (intro skip_space_solid) (auto simp: hd_append)

lemma scan_string_token:
  assumes "token t" "gap s"
  shows "scan_string (chunks t @ s) = Inr (VString t, s)"
proof -
  have "takeWhile (\<lambda>r. \<not> rune_space r) s = []" "dropWhile (\<lambda>r. \<not> rune_space r) s = s"
    using assms(2) by (cases s; simp)+
  with assms(1) show ?thesis
    by (simp add: scan_string_def skip_space_token token_def takeWhile_append2 dropWhile_append2)
qed

text \<open>ASCII strings are read character by character.\<close>

lemma digit_ascii: "is_digit c \<Longrightarrow> byte c < 128"
  by (auto simp: digit_val_def Let_def split: if_splits)

lemma token_ascii: "s \<noteq> [] \<Longrightarrow> \<forall>c \<in> set s. byte c < 128 \<and> \<not> is_space c \<Longrightarrow> token s"
  by (auto simp: token_def valid_ascii chunks_ascii)

lemma chunks_digits: "chunks (digits n) = map (\<lambda>c. [c]) (digits n)"
  using digits_are_digits digit_ascii by (intro chunks_ascii) blast

lemma digits_token: "token (digits n)"
  using digits_are_digits digit_not_space digit_ascii by (intro token_ascii) auto

lemma itoa_ascii: "\<forall>c \<in> set (itoa i). byte c < 128 \<and> \<not> is_space c"
  using itoa_chars digit_not_space digit_ascii by (fastforce simp: is_space_def)

lemma itoa_token: "token (itoa i)"
  using itoa_ascii by (intro token_ascii) auto

lemma gap_not_digit: "gap s \<Longrightarrow> takeWhile rune_digit s = [] \<and> dropWhile rune_digit s = s"
  by (cases s) (auto dest: space_not_digit)

lemma scan_digits_digits:
  assumes "gap s"
  shows "scan_digits (chunks (digits n) @ s) = Inr (digits n, s)"
proof -
  have "\<forall>r \<in> set (chunks (digits n)). rune_digit r"
    using digits_are_digits by (auto simp: chunks_digits)
  then have "takeWhile rune_digit (chunks (digits n) @ s) = chunks (digits n)"
    "dropWhile rune_digit (chunks (digits n) @ s) = s"
    using gap_not_digit[OF assms] by (simp_all add: takeWhile_append2 dropWhile_append2)
  then show ?thesis by (simp add: scan_digits_def)
qed

lemma scan_uint_digits:
  "n < 2 ^ bits \<Longrightarrow> gap s \<Longrightarrow> scan_uint bits (chunks (digits n) @ s) = Inr (VUint n, s)"
  by (simp add: scan_uint_def skip_space_token digits_token scan_digits_digits parse_uint_digits)

lemma accept_sign_digits: "accept_sign (chunks (digits n) @ s) = ([], chunks (digits n) @ s)"
proof -
  obtain c cs where d: "digits n = c # cs" by (cases "digits n") auto
  have "is_digit c" using hd_digits[of n] by (simp add: d)
  then have "c \<noteq> CHR ''-''" "c \<noteq> CHR ''+''" by auto
  then show ?thesis unfolding chunks_digits by (simp add: accept_sign_def d)
qed

lemma scan_int_itoa:
  assumes "in_int bits i" "gap s"
  shows "scan_int bits (chunks (itoa i) @ s) = Inr (VInt i, s)"
proof -
  have ne: "chunks (itoa i) @ s \<noteq> []" by simp
  have sk: "skip_space (chunks (itoa i) @ s) = Inr (chunks (itoa i) @ s)"
    by (rule skip_space_token[OF itoa_token])
  show ?thesis
  proof (cases "i < 0")
    case True
    then have i: "itoa i = CHR ''-'' # digits (nat (- i))" by (simp add: itoa_def)
    then have "chunks (itoa i) = ''-'' # chunks (digits (nat (- i)))" by (simp add: chunks_ascii_Cons)
    then show ?thesis
      using sk parse_int_itoa[OF assms(1)] i
      by (simp add: scan_int_def accept_sign_def scan_digits_digits[OF assms(2)])
  next
    case False
    then have d: "itoa i = digits (nat i)" by (simp add: itoa_def)
    have "accept_sign (chunks (digits (nat i)) @ s) = ([], chunks (digits (nat i)) @ s)"
      by (rule accept_sign_digits)
    then show ?thesis
      using sk ne parse_int_itoa[OF assms(1)]
      by (simp add: d scan_int_def scan_digits_digits[OF assms(2)])
  qed
qed

lemma scan_one_simps:
  "token t \<Longrightarrow> gap s \<Longrightarrow> scan_one (CHR ''s'') OString (chunks t @ s) = Inr (VString t, s)"
  "in_int bits i \<Longrightarrow> gap s \<Longrightarrow> scan_one (CHR ''d'') (OInt bits) (chunks (itoa i) @ s) = Inr (VInt i, s)"
  "n < 2 ^ bits \<Longrightarrow> gap s \<Longrightarrow> scan_one (CHR ''d'') (OUint bits) (chunks (digits n) @ s) = Inr (VUint n, s)"
  by (simp_all add: scan_one_def skip_space_token itoa_token digits_token scan_string_token
      scan_int_itoa scan_uint_digits)

lemma match_space_blank:
  "t = [] \<or> \<not> rune_space (hd t) \<Longrightarrow> match_space ('' '' # t) = Inr t"
  by (cases t) (auto simp: match_space_def newline_def)

lemma match_char_same [simp]: "match_char c ([c] # s) = Inr s"
  by (simp add: match_char_def)

lemma token_head: "token t \<Longrightarrow> chunks t @ s = [] \<or> \<not> rune_space (hd (chunks t @ s))"
  using token_chunks[of t] by (auto simp: hd_append)

end
