(* ===== verification/IceCandidate.thy ===== *)
theory IceCandidate
  imports Json Sscanf
begin

text \<open>
  The candidate type of \<^verbatim>\<open>pkg/p2p/ice/gatherer.go\<close>, its textual form and parser, its
  JSON, and the priority of a candidate. \<open>Priority\<close> is a \<open>uint32\<close>, a 32-bit word here;
  \<open>Component\<close> and \<open>Port\<close> are Go \<open>int\<close>s of 64 bits. An IP address is its bytes, 4 or
  16 of them, as \<open>net.IP\<close>.
\<close>

section \<open>Types\<close>

definition CandidateTypeHost :: string where "CandidateTypeHost = ''host''"
definition CandidateTypeServerReflexive :: string where "CandidateTypeServerReflexive = ''srflx''"
definition CandidateTypePeerReflexive :: string where "CandidateTypePeerReflexive = ''prflx''"
definition CandidateTypeRelay :: string where "CandidateTypeRelay = ''relay''"

lemmas candidate_type_defs = CandidateTypeHost_def CandidateTypeServerReflexive_def
  CandidateTypePeerReflexive_def CandidateTypeRelay_def

record candidate =
  c_type :: string
  c_foundation :: string
  c_component :: int
  c_protocol :: string
  c_priority :: "32 word"
  c_ip :: string
  c_port :: int
  c_base :: string

definition zero_candidate :: candidate where
  "zero_candidate = \<lparr>c_type = '''', c_foundation = '''', c_component = 0, c_protocol = '''',
     c_priority = 0, c_ip = '''', c_port = 0, c_base = ''''\<rparr>"

section \<open>Text\<close>

definition candidate_String :: "candidate \<Rightarrow> string" where
  "candidate_String c =
     ''candidate:'' @ c_foundation c @ '' '' @ itoa (c_component c) @ '' '' @ c_protocol c @ '' '' @
     digits (unat (c_priority c)) @ '' '' @ c_ip c @ '' '' @ itoa (c_port c) @ '' typ '' @ c_type c"

definition candidate_format :: string where
  "candidate_format = ''candidate:%s %d %s %d %s %d typ %s''"

definition candidate_operands :: "operand list" where
  "candidate_operands = [OString, OInt 64, OString, OUint 32, OString, OInt 64, OString]"

definition ParseCandidate :: "string \<Rightarrow> candidate result" where
  "ParseCandidate s =
     (case wrap_err ''parse candidate'' (sscanf candidate_format candidate_operands s) of
        Inl e \<Rightarrow> Inl e
      | Inr vs \<Rightarrow>
          (case vs of
             [VString f, VInt cmp, VString proto, VUint prio, VString ip, VInt port, VString typ] \<Rightarrow>
               Inr \<lparr>c_type = typ, c_foundation = f, c_component = cmp, c_protocol = proto,
                 c_priority = of_nat prio, c_ip = ip, c_port = port, c_base = ''''\<rparr>
           | _ \<Rightarrow> Inr zero_candidate))"

text \<open>
  Candidates whose text is unambiguous: the words are UTF-8, not empty and without white space,
  and the integers fit an \<open>int\<close>.
\<close>

definition printable :: "candidate \<Rightarrow> bool" where
  "printable c \<longleftrightarrow> token (c_foundation c) \<and> token (c_protocol c) \<and> token (c_ip c) \<and> token (c_type c) \<and>
     in_int 64 (c_component c) \<and> in_int 64 (c_port c)"

lemma scan_space:
  assumes "fmt = [] \<or> \<not> is_space (hd fmt)" "token t"
  shows "scan_format (CHR '' '' # fmt) ks ('' '' # chunks t @ s) = scan_format fmt ks (chunks t @ s)"
proof -
  have "dropWhile is_space fmt = fmt" using assms(1) by (cases fmt) auto
  then show ?thesis by (simp add: match_space_blank[OF token_head[OF assms(2)]])
qed

lemma scan_literal:
  "c \<noteq> CHR '' '' \<Longrightarrow> c \<noteq> CHR ''%'' \<Longrightarrow> scan_format (c # fmt) ks ([c] # s) = scan_format fmt ks s"
  by simp

lemma scan_verb:
  "scan_one verb k s = Inr (v, s') \<Longrightarrow>
   scan_format (CHR ''%'' # verb # fmt) (k # ks) s = rbind (scan_format fmt ks s') (\<lambda>vs. Inr (v # vs))"
  by simp

lemma scan_space_char:
  assumes "fmt = [] \<or> \<not> is_space (hd fmt)" "\<not> is_space c"
  shows "scan_format (CHR '' '' # fmt) ks ('' '' # [c] # s) = scan_format fmt ks ([c] # s)"
proof -
  have "dropWhile is_space fmt = fmt" using assms(1) by (cases fmt) auto
  then show ?thesis using assms(2) by (simp add: match_space_blank)
qed

text \<open>The runes of a candidate's text.\<close>

lemma runes_token: "token t \<Longrightarrow> runes (t @ s) = chunks t @ runes s"
  by (simp add: runes_append token_def)

lemma runes_candidate:
  assumes "printable c"
  shows "runes (candidate_String c @ rest) =
    map (\<lambda>c. [c]) ''candidate:'' @ chunks (c_foundation c) @ '' '' # chunks (itoa (c_component c)) @ '' '' #
    chunks (c_protocol c) @ '' '' # chunks (digits (unat (c_priority c))) @ '' '' # chunks (c_ip c) @ '' '' #
    chunks (itoa (c_port c)) @ map (\<lambda>c. [c]) '' typ '' @ chunks (c_type c) @ runes rest"
  using assms
  by (simp add: candidate_String_def runes_ascii runes_token itoa_token digits_token printable_def)

lemma sscanf_candidate:
  assumes "printable c" "gap (runes rest)"
  shows "sscanf candidate_format candidate_operands (candidate_String c @ rest) =
    Inr [VString (c_foundation c), VInt (c_component c), VString (c_protocol c),
      VUint (unat (c_priority c)), VString (c_ip c), VInt (c_port c), VString (c_type c)]"
proof -
  have t: "token (c_foundation c)" "token (c_protocol c)" "token (c_ip c)" "token (c_type c)"
    and i: "in_int 64 (c_component c)" "in_int 64 (c_port c)"
    and p: "unat (c_priority c) < 2 ^ 32"
    using assms(1) unsigned_less[of "c_priority c", where 'a = nat] by (auto simp: printable_def)
  note step = scan_verb[OF scan_one_simps(1)] scan_verb[OF scan_one_simps(2)]
    scan_verb[OF scan_one_simps(3)]
  note sp = scan_space[OF _ itoa_token] scan_space[OF _ digits_token] scan_space[OF _ t(1)]
    scan_space[OF _ t(2)] scan_space[OF _ t(3)] scan_space[OF _ t(4)]
    scan_space_char
  show ?thesis
    using t i p assms(2)
    by (simp add: sscanf_def runes_candidate[OF assms(1)] candidate_format_def candidate_operands_def
        step sp is_space_def del: scan_format.simps(2) add: scan_literal)
qed

lemma ParseCandidate_String:
  assumes "printable c" "gap (runes rest)"
  shows "ParseCandidate (candidate_String c @ rest) = Inr (c\<lparr>c_base := ''''\<rparr>)"
proof -
  have "c\<lparr>c_base := ''''\<rparr> = \<lparr>c_type = c_type c, c_foundation = c_foundation c,
      c_component = c_component c, c_protocol = c_protocol c, c_priority = c_priority c,
      c_ip = c_ip c, c_port = c_port c, c_base = ''''\<rparr>"
    by (cases c) simp
  then show ?thesis
    by (simp add: ParseCandidate_def sscanf_candidate[OF assms])
qed

section \<open>JSON\<close>

definition enc_candidate :: "candidate \<Rightarrow> json" where
  "enc_candidate c = JObj
     ([(''type'', JStr (c_type c)), (''foundation'', JStr (c_foundation c)),
       (''component'', enc_int (c_component c)), (''protocol'', JStr (c_protocol c)),
       (''priority'', JNum (digits (unat (c_priority c)))), (''ip'', JStr (c_ip c)),
       (''port'', enc_int (c_port c))] @
      omit_empty (c_base c = '''') (''base'', JStr (c_base c)))"

definition candidate_fields :: "candidate field list" where
  "candidate_fields =
     [string_field ''type'' (\<lambda>x c. c\<lparr>c_type := x\<rparr>),
      string_field ''foundation'' (\<lambda>x c. c\<lparr>c_foundation := x\<rparr>),
      int_field ''component'' 64 (\<lambda>i c. c\<lparr>c_component := i\<rparr>),
      string_field ''protocol'' (\<lambda>x c. c\<lparr>c_protocol := x\<rparr>),
      uint_field ''priority'' 32 (\<lambda>n c. c\<lparr>c_priority := of_nat n\<rparr>),
      string_field ''ip'' (\<lambda>x c. c\<lparr>c_ip := x\<rparr>),
      int_field ''port'' 64 (\<lambda>i c. c\<lparr>c_port := i\<rparr>),
      string_field ''base'' (\<lambda>x c. c\<lparr>c_base := x\<rparr>)]"

definition CandidateToJSON :: "candidate \<Rightarrow> json result" where
  "CandidateToJSON c = Inr (enc_candidate c)"

definition dec_candidate :: "json \<Rightarrow> candidate result" where
  "dec_candidate j = dec_struct candidate_fields j zero_candidate"

definition CandidateFromJSON :: "raw \<Rightarrow> candidate result" where
  "CandidateFromJSON r = unmarshal_raw dec_candidate r"

definition candidate_ok :: "candidate \<Rightarrow> bool" where
  "candidate_ok c \<longleftrightarrow> in_int 64 (c_component c) \<and> in_int 64 (c_port c)"

interpretation ice_cand: json_codec enc_candidate dec_candidate candidate_ok
proof
  fix c assume ok: "candidate_ok c"
  have p: "unat (c_priority c) < 2 ^ 32"
    using unsigned_less[of "c_priority c", where 'a = nat] by simp
  have "c = \<lparr>c_type = c_type c, c_foundation = c_foundation c,
      c_component = c_component c, c_protocol = c_protocol c, c_priority = c_priority c,
      c_ip = c_ip c, c_port = c_port c, c_base = c_base c\<rparr>"
    by (cases c) simp
  with ok p show "dec_candidate (enc_candidate c) = Inr c"
    by (simp add: dec_candidate_def candidate_fields_def enc_candidate_def candidate_ok_def
        zero_candidate_def omit_empty_def json_simps upper_char_def)
qed

section \<open>IP addresses\<close>

type_synonym ip = "8 word list"

text \<open>\<open>IP.To4\<close>: four bytes, or sixteen with the IPv4-in-IPv6 prefix.\<close>

definition v4_prefix :: "8 word list" where
  "v4_prefix = replicate 10 0 @ [0xff, 0xff]"

definition To4 :: "ip \<Rightarrow> ip option" where
  "To4 a =
     (if length a = 4 then Some a
      else if length a = 16 \<and> take 12 a = v4_prefix then Some (drop 12 a)
      else None)"

definition IsPrivate :: "ip \<Rightarrow> bool" where
  "IsPrivate a =
     (case To4 a of
        Some b \<Rightarrow> b ! 0 = 10 \<or> (b ! 0 = 172 \<and> b ! 1 AND 0xf0 = 16) \<or> (b ! 0 = 192 \<and> b ! 1 = 168)
      | None \<Rightarrow> length a = 16 \<and> a ! 0 AND 0xfe = 0xfc)"

text \<open>\<open>IP.String\<close> of an IPv4 address; the program prints no other.\<close>

definition ip4_String :: "ip \<Rightarrow> string" where
  "ip4_String b =
     digits (unat (b ! 0)) @ ''.'' @ digits (unat (b ! 1)) @ ''.'' @
     digits (unat (b ! 2)) @ ''.'' @ digits (unat (b ! 3))"

lemma To4_length: "To4 a = Some b \<Longrightarrow> length b = 4"
  by (auto simp: To4_def split: if_splits)

lemma ip4_String_token: "token (ip4_String b)"
  using digits_are_digits digit_not_space digit_ascii
  by (intro token_ascii) (auto simp: ip4_String_def is_space_def)

section \<open>Priority\<close>

definition type_pref :: "string \<Rightarrow> 32 word" where
  "type_pref typ =
     (if typ = CandidateTypeHost then 126
      else if typ = CandidateTypePeerReflexive then 110
      else if typ = CandidateTypeServerReflexive then 100
      else if typ = CandidateTypeRelay then 0
      else 0)"

definition local_pref :: "ip \<Rightarrow> 32 word" where
  "local_pref a = (if IsPrivate a then 100 else 200)"

definition calculatePriority :: "string \<Rightarrow> ip \<Rightarrow> 32 word" where
  "calculatePriority typ a =
     push_bit 24 1 * type_pref typ + push_bit 8 1 * local_pref a + (256 - 1)"

text \<open>No product or sum wraps: the word is the number the formula of RFC 5245 gives.\<close>

lemma unat_priority:
  "unat (calculatePriority typ a) =
     2 ^ 24 * unat (type_pref typ) + 2 ^ 8 * unat (local_pref a) + 255"
  by (simp add: calculatePriority_def type_pref_def local_pref_def push_bit_eq_mult)

lemma local_pref_cases: "unat (local_pref a) = (if IsPrivate a then 100 else 200)"
  by (simp add: local_pref_def)

lemma type_pref_cases:
  "unat (type_pref CandidateTypeHost) = 126"
  "unat (type_pref CandidateTypePeerReflexive) = 110"
  "unat (type_pref CandidateTypeServerReflexive) = 100"
  "unat (type_pref CandidateTypeRelay) = 0"
  by (simp_all add: type_pref_def candidate_type_defs)

lemma priority_by_type:
  assumes "unat (type_pref t) < unat (type_pref u)"
  shows "calculatePriority t a < calculatePriority u b"
  using assms unfolding word_less_nat_alt unat_priority local_pref_cases by (auto split: if_splits)

lemma priority_by_address:
  assumes "IsPrivate a" "\<not> IsPrivate b"
  shows "calculatePriority t a < calculatePriority t b"
  using assms unfolding word_less_nat_alt unat_priority local_pref_cases by simp

end
