(* ===== verification/IceGatherer.thy ===== *)
theory IceGatherer
  imports IceCandidate
begin

text \<open>
  The \<open>Gatherer\<close> of \<^verbatim>\<open>pkg/p2p/ice/gatherer.go\<close>: local addresses, sockets and candidates.

  State: the candidates and listeners gathered so far and the port range. A \<open>*Candidate\<close> is
  a pair of its address and its (immutable) contents, because \<open>Agent.Connect\<close> compares
  pointers; \<open>g_alloc\<close> is the next address. The network is outside the repository: what
  \<open>net.Interfaces\<close> returns is an argument, and \<open>net.ListenUDP\<close> is a function
  \<open>listen\<close> over a state of the operating system of any type; \<open>udp_law\<close> states what is
  documented of it. The gatherer's lock, which every method takes and releases, is not
  modelled.
\<close>

section \<open>Types\<close>

record udp_conn =
  u_sock :: nat
  u_ip :: ip
  u_port :: int

datatype net_addr = IPNet ip | IPAddr ip | OtherAddr

record iface =
  if_flags :: "64 word"
  if_addrs :: "net_addr list result"

definition FlagUp :: "64 word" where "FlagUp = 1"
definition FlagLoopback :: "64 word" where "FlagLoopback = 4"

type_synonym cand_ptr = "nat \<times> candidate"

record gatherer_config =
  PortStart :: int
  PortEnd :: int

definition DefaultGathererConfig :: gatherer_config where
  "DefaultGathererConfig = \<lparr>PortStart = 10000, PortEnd = 10100\<rparr>"

record gatherer =
  g_candidates :: "cand_ptr list"
  g_listeners :: "udp_conn list"
  g_port_start :: int
  g_port_end :: int
  g_alloc :: nat

definition NewGatherer :: "gatherer_config \<Rightarrow> gatherer" where
  "NewGatherer cfg =
     \<lparr>g_candidates = [], g_listeners = [], g_port_start = PortStart cfg, g_port_end = PortEnd cfg,
      g_alloc = 0\<rparr>"

type_synonym 'os listen = "ip \<Rightarrow> int \<Rightarrow> 'os \<Rightarrow> udp_conn result \<times> 'os"

section \<open>Operations\<close>

definition addr_ip :: "net_addr \<Rightarrow> ip option" where
  "addr_ip a = (case a of IPNet i \<Rightarrow> Some i | IPAddr i \<Rightarrow> Some i | OtherAddr \<Rightarrow> None)"

text \<open>The IPv4 addresses of one interface that is up and not a loopback.\<close>

definition iface_ips :: "iface \<Rightarrow> ip list" where
  "iface_ips i =
     (if if_flags i AND FlagUp = 0 then []
      else if if_flags i AND FlagLoopback \<noteq> 0 then []
      else case if_addrs i of
        Inl e \<Rightarrow> []
      | Inr addrs \<Rightarrow>
          concat (map (\<lambda>a. case addr_ip a of
              None \<Rightarrow> [] | Some x \<Rightarrow> if To4 x \<noteq> None then [x] else []) addrs))"

definition localhost :: ip where
  "localhost = v4_prefix @ [127, 0, 0, 1]"

definition getLocalIPs :: "iface list result \<Rightarrow> ip list result" where
  "getLocalIPs ifaces =
     rbind (wrap_err ''get interfaces'' ifaces) (\<lambda>ifs.
       let ips = concat (map iface_ips ifs) in Inr (if ips = [] then [localhost] else ips))"

function bind_range :: "'os listen \<Rightarrow> ip \<Rightarrow> int \<Rightarrow> int \<Rightarrow> int \<Rightarrow> 'os \<Rightarrow> udp_conn result \<times> 'os" where
  "bind_range listen a start stop port os =
     (if port \<le> stop then
        (case listen a port os of
           (Inr c, os') \<Rightarrow> (Inr c, os')
         | (Inl e, os') \<Rightarrow> bind_range listen a start stop (port + 1) os')
      else (Inl (''no available ports in range '' @ itoa start @ ''-'' @ itoa stop), os))"
  by pat_completeness auto
termination
  by (relation "measure (\<lambda>(listen, a, start, stop, port, os). nat (stop + 1 - port))") auto

declare bind_range.simps [simp del]

definition bindUDP :: "'os listen \<Rightarrow> ip \<Rightarrow> gatherer \<Rightarrow> 'os \<Rightarrow> udp_conn result \<times> 'os" where
  "bindUDP listen a g os =
     (if 0 < g_port_start g \<and> 0 < g_port_end g
      then bind_range listen a (g_port_start g) (g_port_end g) (g_port_start g) os
      else listen a 0 os)"

definition host_candidate :: "nat \<Rightarrow> udp_conn \<Rightarrow> candidate" where
  "host_candidate foundation c =
     \<lparr>c_type = CandidateTypeHost, c_foundation = itoa (int foundation), c_component = 1,
      c_protocol = ''udp'', c_priority = calculatePriority CandidateTypeHost (u_ip c),
      c_ip = ip4_String (u_ip c), c_port = u_port c, c_base = ''''\<rparr>"

primrec gather_ips ::
  "'os listen \<Rightarrow> ip list \<Rightarrow> nat \<Rightarrow> gatherer \<Rightarrow> 'os \<Rightarrow> gatherer \<times> 'os" where
  "gather_ips listen [] foundation g os = (g, os)"
| "gather_ips listen (a # as) foundation g os =
     (case bindUDP listen a g os of
        (Inl e, os') \<Rightarrow> gather_ips listen as foundation g os'
      | (Inr c, os') \<Rightarrow>
          gather_ips listen as (Suc foundation)
            (g\<lparr>g_candidates := g_candidates g @ [(g_alloc g, host_candidate foundation c)],
               g_listeners := g_listeners g @ [c],
               g_alloc := Suc (g_alloc g)\<rparr>) os')"

definition Gather ::
  "'os listen \<Rightarrow> iface list result \<Rightarrow> gatherer \<Rightarrow> 'os \<Rightarrow> cand_ptr list result \<times> gatherer \<times> 'os" where
  "Gather listen ifaces g os =
     (case wrap_err ''get local IPs'' (getLocalIPs ifaces) of
        Inl e \<Rightarrow> (Inl e, g, os)
      | Inr ips \<Rightarrow>
          (let (g', os') = gather_ips listen ips 1 g os in
           if g_candidates g' = [] then (Inl ''no local candidates gathered'', g', os')
           else (Inr (g_candidates g'), g', os')))"

definition GetCandidates :: "gatherer \<Rightarrow> cand_ptr list" where
  "GetCandidates g = g_candidates g"

definition GetListeners :: "gatherer \<Rightarrow> udp_conn list" where
  "GetListeners g = g_listeners g"

text \<open>\<open>Close\<close> closes every socket and empties the list of listeners, not the candidates.\<close>

definition gatherer_Close :: "(udp_conn \<Rightarrow> 'os \<Rightarrow> 'os) \<Rightarrow> gatherer \<Rightarrow> 'os \<Rightarrow> gatherer \<times> 'os" where
  "gatherer_Close close_udp g os = (g\<lparr>g_listeners := []\<rparr>, fold close_udp (g_listeners g) os)"

record candidate_pair =
  cp_local :: candidate
  cp_remote :: candidate
  cp_state :: string

definition candidate_pair_String :: "candidate_pair \<Rightarrow> string" where
  "candidate_pair_String p =
     c_ip (cp_local p) @ '' <-> '' @ c_ip (cp_remote p) @ '':'' @ itoa (c_port (cp_remote p)) @
     '' ('' @ cp_state p @ '')''"

section \<open>The port search\<close>

text \<open>
  What \<open>net.ListenUDP\<close> documents: a failure leaves the system as it was, a socket is bound to
  the requested IPv4 address and, unless port 0 was requested, to the requested port.
\<close>

definition udp_law :: "'os listen \<Rightarrow> bool" where
  "udp_law listen \<longleftrightarrow>
     (\<forall>a port os e os'. listen a port os = (Inl e, os') \<longrightarrow> os' = os) \<and>
     (\<forall>a port os c os'. listen a port os = (Inr c, os') \<longrightarrow>
        Some (u_ip c) = To4 a \<and> (port \<noteq> 0 \<longrightarrow> u_port c = port))"

lemma udp_law_fail: "udp_law listen \<Longrightarrow> listen a port os = (Inl e, os') \<Longrightarrow> os' = os"
  by (auto simp: udp_law_def)

lemma udp_law_ok:
  "udp_law listen \<Longrightarrow> listen a port os = (Inr c, os') \<Longrightarrow>
   To4 a = Some (u_ip c) \<and> (port \<noteq> 0 \<longrightarrow> u_port c = port)"
  by (metis udp_law_def)

lemma bind_range_first_free:
  assumes "udp_law listen"
    and "bind_range listen a start stop port os = (Inr c, os')"
  shows "\<exists>p. port \<le> p \<and> p \<le> stop \<and> listen a p os = (Inr c, os') \<and>
    (\<forall>q. port \<le> q \<longrightarrow> q < p \<longrightarrow> (\<exists>e. listen a q os = (Inl e, os)))"
  using assms
proof (induction listen a start stop port os rule: bind_range.induct)
  case (1 listen a start stop port os)
  note unfold = bind_range.simps[of listen a start stop port os]
  show ?case
  proof (cases "port \<le> stop")
    case False
    with "1.prems" show ?thesis by (simp add: unfold)
  next
    case le: True
    obtain r os1 where l: "listen a port os = (r, os1)" by fastforce
    show ?thesis
    proof (cases r)
      case (Inr d)
      with "1.prems" le l show ?thesis
        by (intro exI[of _ port]) (simp add: unfold)
    next
      case (Inl e)
      then have os1: "os1 = os" using udp_law_fail[OF "1.prems"(1)] l by blast
      have "bind_range listen a start stop (port + 1) os = (Inr c, os')"
        using "1.prems"(2) le l Inl os1 by (simp add: unfold)
      then obtain p where p: "port + 1 \<le> p" "p \<le> stop" "listen a p os = (Inr c, os')"
          "\<forall>q. port + 1 \<le> q \<longrightarrow> q < p \<longrightarrow> (\<exists>e. listen a q os = (Inl e, os))"
        using "1.IH"[OF le l[symmetric] Inl "1.prems"(1)] os1 by auto
      have "\<exists>e. listen a q os = (Inl e, os)" if "port \<le> q" "q < p" for q
        using that p(4) l Inl os1 by (cases "q = port") auto
      then show ?thesis using p by (intro exI[of _ p]) simp
    qed
  qed
qed

lemma bind_range_exhausted:
  assumes "udp_law listen"
    and "\<And>q. port \<le> q \<Longrightarrow> q \<le> stop \<Longrightarrow> \<exists>e. listen a q os = (Inl e, os)"
  shows "bind_range listen a start stop port os =
    (Inl (''no available ports in range '' @ itoa start @ ''-'' @ itoa stop), os)"
  using assms
proof (induction listen a start stop port os rule: bind_range.induct)
  case (1 listen a start stop port os)
  note unfold = bind_range.simps[of listen a start stop port os]
  show ?case
  proof (cases "port \<le> stop")
    case True
    then obtain e where "listen a port os = (Inl e, os)" using "1.prems"(2) by blast
    with True "1.IH" "1.prems" show ?thesis by (simp add: unfold)
  qed (simp add: unfold)
qed

lemma bind_range_fails:
  assumes "udp_law listen" "bind_range listen a start stop port os = (Inl e, os')"
    and "port \<le> q" "q \<le> stop"
  shows "\<exists>e. listen a q os = (Inl e, os)"
  using assms
proof (induction listen a start stop port os rule: bind_range.induct)
  case (1 listen a start stop port os)
  note unfold = bind_range.simps[of listen a start stop port os]
  have le: "port \<le> stop" using "1.prems" by simp
  obtain r os1 where l: "listen a port os = (r, os1)" by fastforce
  with "1.prems"(2) le obtain e1 where r: "r = Inl e1" by (cases r) (auto simp: unfold)
  then have os1: "os1 = os" using udp_law_fail[OF "1.prems"(1)] l by blast
  show ?case
  proof (cases "q = port")
    case True
    with l r os1 show ?thesis by simp
  next
    case False
    have "bind_range listen a start stop (port + 1) os1 = (Inl e, os')"
      using "1.prems"(2) le l r by (simp add: unfold)
    with False "1.IH"[OF le l[symmetric] r "1.prems"(1)] "1.prems"(3,4) os1 show ?thesis by simp
  qed
qed

section \<open>Candidates and listeners agree\<close>

text \<open>
  The contents of the \<open>i\<close>-th candidate describe the \<open>i\<close>-th listener, and no two candidates
  have the same address in memory.
\<close>

definition aligned :: "gatherer \<Rightarrow> bool" where
  "aligned g \<longleftrightarrow>
     map snd (g_candidates g) =
       map (\<lambda>(i, c). host_candidate (Suc i) c) (enumerate 0 (g_listeners g)) \<and>
     map fst (g_candidates g) = [0..<g_alloc g]"

lemma aligned_length: "aligned g \<Longrightarrow> length (g_candidates g) = length (g_listeners g)"
  by (metis aligned_def length_map length_enumerate)

lemma aligned_alloc: "aligned g \<Longrightarrow> g_alloc g = length (g_listeners g)"
  by (metis aligned_def aligned_length diff_zero length_map length_upt)

lemma aligned_NewGatherer: "aligned (NewGatherer cfg)"
  by (simp add: aligned_def NewGatherer_def)

lemma aligned_push:
  assumes "aligned g"
  shows "aligned (g\<lparr>g_candidates := g_candidates g @
      [(g_alloc g, host_candidate (Suc (length (g_listeners g))) c)],
    g_listeners := g_listeners g @ [c], g_alloc := Suc (g_alloc g)\<rparr>)"
  using assms by (simp add: aligned_def enumerate_append_eq)

lemma gather_ips_aligned:
  assumes "aligned g" "f = Suc (length (g_listeners g))" "gather_ips listen ips f g os = (g', os')"
  shows "aligned g'"
  using assms
proof (induction ips arbitrary: f g os)
  case (Cons a ips)
  obtain r os1 where b: "bindUDP listen a g os = (r, os1)" by fastforce
  show ?case
  proof (cases r)
    case (Inl e)
    with Cons.IH[OF Cons.prems(1,2)] Cons.prems(3) b show ?thesis by simp
  next
    case (Inr c)
    show ?thesis
      by (rule Cons.IH[OF aligned_push[OF Cons.prems(1), of c]])
         (use Cons.prems b Inr in \<open>simp_all\<close>)
  qed
qed simp

lemma aligned_nth:
  assumes "aligned g" "i < length (g_listeners g)"
  shows "g_candidates g ! i = (i, host_candidate (Suc i) (g_listeners g ! i))"
proof -
  have len: "length (g_candidates g) = length (g_listeners g)" by (rule aligned_length[OF assms(1)])
  have "snd (g_candidates g ! i) = map snd (g_candidates g) ! i"
    using assms(2) len by simp
  also have "\<dots> = host_candidate (Suc i) (g_listeners g ! i)"
    using assms by (simp add: aligned_def nth_enumerate_eq)
  finally have "snd (g_candidates g ! i) = host_candidate (Suc i) (g_listeners g ! i)" .
  moreover have "fst (g_candidates g ! i) = map fst (g_candidates g) ! i"
    using assms(2) len by simp
  then have "fst (g_candidates g ! i) = i"
    using assms aligned_alloc[OF assms(1)] by (simp add: aligned_def)
  ultimately show ?thesis by (metis prod.collapse)
qed

text \<open>What a new gatherer gathered.\<close>

lemma Gather_new:
  assumes "Gather listen ifaces (NewGatherer cfg) os = (Inr cs, g, os')"
  shows "aligned g" "g_candidates g = cs" "cs \<noteq> []"
    "\<exists>ips. getLocalIPs ifaces = Inr ips \<and> gather_ips listen ips 1 (NewGatherer cfg) os = (g, os')"
proof -
  obtain ips where ips: "getLocalIPs ifaces = Inr ips"
    using assms by (cases "getLocalIPs ifaces") (simp_all add: Gather_def)
  obtain g1 os1 where g1: "gather_ips listen ips 1 (NewGatherer cfg) os = (g1, os1)" by fastforce
  have g: "g1 = g" "os1 = os'" "g_candidates g = cs" "cs \<noteq> []"
    using assms ips g1 by (auto simp: Gather_def split: if_splits)
  show "aligned g"
    using gather_ips_aligned[OF aligned_NewGatherer _ g1] g(1) by (simp add: NewGatherer_def)
  show "g_candidates g = cs" "cs \<noteq> []"
    "\<exists>ips. getLocalIPs ifaces = Inr ips \<and> gather_ips listen ips 1 (NewGatherer cfg) os = (g, os')"
    using g g1 ips by auto
qed

text \<open>With a port range every bound socket has an IPv4 address and a port of the range.\<close>

definition bound_in :: "int \<Rightarrow> int \<Rightarrow> udp_conn \<Rightarrow> bool" where
  "bound_in lo hi c \<longleftrightarrow> length (u_ip c) = 4 \<and> lo \<le> u_port c \<and> u_port c \<le> hi"

lemma bindUDP_bound:
  assumes "udp_law listen" "0 < g_port_start g" "0 < g_port_end g" "bindUDP listen a g os = (Inr c, os')"
  shows "bound_in (g_port_start g) (g_port_end g) c"
proof -
  obtain p where p: "g_port_start g \<le> p" "p \<le> g_port_end g" "listen a p os = (Inr c, os')"
    using bind_range_first_free[OF assms(1), of a "g_port_start g" "g_port_end g" "g_port_start g" os c os'] assms(2-4)
    by (auto simp: bindUDP_def)
  then show ?thesis
    using udp_law_ok[OF assms(1) p(3)] To4_length assms(2) by (auto simp: bound_in_def)
qed

lemma gather_ips_bound:
  assumes "udp_law listen" "0 < g_port_start g" "0 < g_port_end g"
    and "\<forall>c \<in> set (g_listeners g). bound_in (g_port_start g) (g_port_end g) c"
    and "gather_ips listen ips f g os = (g', os')"
  shows "\<forall>c \<in> set (g_listeners g'). bound_in (g_port_start g) (g_port_end g) c"
  using assms
proof (induction ips arbitrary: f g os)
  case (Cons a ips)
  obtain r os1 where b: "bindUDP listen a g os = (r, os1)" by fastforce
  show ?case
  proof (cases r)
    case (Inl e)
    with Cons.IH[OF Cons.prems(1-4)] Cons.prems(5) b show ?thesis by simp
  next
    case (Inr c)
    let ?g = "g\<lparr>g_candidates := g_candidates g @ [(g_alloc g, host_candidate f c)],
      g_listeners := g_listeners g @ [c], g_alloc := Suc (g_alloc g)\<rparr>"
    have "bound_in (g_port_start g) (g_port_end g) c"
      by (rule bindUDP_bound[OF Cons.prems(1-3)]) (use b Inr in simp)
    then have "\<forall>c \<in> set (g_listeners g'). bound_in (g_port_start ?g) (g_port_end ?g) c"
      using Cons.prems b Inr by (intro Cons.IH[of ?g]) auto
    then show ?thesis by simp
  qed
qed simp

lemma Gather_bound:
  assumes "udp_law listen" "0 < PortStart cfg" "0 < PortEnd cfg"
    and "Gather listen ifaces (NewGatherer cfg) os = (Inr cs, g, os')"
  shows "\<forall>c \<in> set (g_listeners g). bound_in (PortStart cfg) (PortEnd cfg) c"
proof -
  obtain ips where "gather_ips listen ips 1 (NewGatherer cfg) os = (g, os')"
    using Gather_new(4)[OF assms(4)] by blast
  from gather_ips_bound[OF assms(1) _ _ _ this] assms(2,3) show ?thesis by (simp add: NewGatherer_def)
qed

text \<open>A gathered candidate prints to text that parses back, and fits its JSON.\<close>

lemma host_candidate_printable:
  "in_int 64 (u_port c) \<Longrightarrow> printable (host_candidate f c) \<and> candidate_ok (host_candidate f c)"
  using itoa_token ip4_String_token
  by (simp add: printable_def candidate_ok_def host_candidate_def token_ascii is_space_def
      candidate_type_defs in_int_def)

end
