(* ===== verification/IceConnection.thy ===== *)
theory IceConnection
  imports IceGatherer "HOL-Library.Multiset"
begin

text \<open>
  \<^verbatim>\<open>pkg/p2p/ice/connection.go\<close>: a UDP \<open>Connection\<close> to the selected remote candidate and
  the \<open>Agent\<close> that gathers, collects remote candidates and connects.

  A remote address is its text \<open>ip:port\<close>, which is how the code compares addresses. The
  network is a parameter: \<open>resolve\<close> is \<open>net.ResolveUDPAddr\<close>, \<open>wr\<close> the result of
  \<open>WriteToUDP\<close>, and what \<open>ReadFromUDP\<close> returns is an input of the receive loop.
  \<open>Agent.mu\<close> is modelled, since one of the methods does not release what it took.
  \<open>Connection.mu\<close>, which every method takes and releases, is not, but what \<open>Send\<close> does under
  it and after it are two definitions, and \<open>conn_run\<close> lets the calls of several goroutines
  interleave there. Of the logger only the line that shows received data is modelled.
\<close>

section \<open>Connection\<close>

record connection =
  cn_local :: candidate
  cn_remote :: candidate
  cn_conn :: "udp_conn option"
  cn_remote_addr :: string
  cn_closed :: bool
  cn_cancelled :: bool
  cn_handler :: bool
  cn_sent :: "(string \<times> string) list"

definition host_port :: "candidate \<Rightarrow> string" where
  "host_port c = c_ip c @ '':'' @ itoa (c_port c)"

definition NewConnection ::
  "(string \<Rightarrow> string result) \<Rightarrow> candidate \<Rightarrow> candidate \<Rightarrow> udp_conn option \<Rightarrow> connection result" where
  "NewConnection resolve local remote localConn =
     rbind (wrap_err ''resolve remote address'' (resolve (host_port remote))) (\<lambda>addr.
       Inr \<lparr>cn_local = local, cn_remote = remote, cn_conn = localConn, cn_remote_addr = addr,
         cn_closed = False, cn_cancelled = False, cn_handler = False, cn_sent = []\<rparr>)"

text \<open>
  \<open>Send\<close> up to the write: what it copies under the read lock, or its error. Then the write,
  on the copies. A datagram that was written is the last element of \<open>cn_sent\<close>, with its
  destination.
\<close>

definition send_check :: "connection \<Rightarrow> (udp_conn \<times> string) result" where
  "send_check c =
     (if cn_closed c then Inl ''connection closed''
      else case cn_conn c of
        None \<Rightarrow> Inl ''no connection''
      | Some k \<Rightarrow> Inr (k, cn_remote_addr c))"

definition send_write :: "error option \<Rightarrow> string \<Rightarrow> udp_conn \<times> string \<Rightarrow> connection \<Rightarrow> unit result \<times> connection" where
  "send_write wr data dest c =
     (case wr of
        Some e \<Rightarrow> (wrap_err ''send'' (Inl e), c)
      | None \<Rightarrow> (Inr (), c\<lparr>cn_sent := cn_sent c @ [(snd dest, data)]\<rparr>))"

definition cn_Send :: "error option \<Rightarrow> string \<Rightarrow> connection \<Rightarrow> unit result \<times> connection" where
  "cn_Send wr data c =
     (case send_check c of Inl e \<Rightarrow> (Inl e, c) | Inr dest \<Rightarrow> send_write wr data dest c)"

lemmas cn_Send_defs = cn_Send_def send_check_def send_write_def

definition SendString :: "error option \<Rightarrow> string \<Rightarrow> connection \<Rightarrow> unit result \<times> connection" where
  "SendString wr s c = cn_Send wr s c"

text \<open>What a read returns: a timeout, another error, or a datagram with its sender.\<close>

datatype udp_read = ReadTimeout | ReadFailed error | Datagram string string

text \<open>\<open>Receive\<close> with a buffer of \<open>n\<close> bytes; the datagram is cut to the buffer.\<close>

definition cn_Receive :: "nat \<Rightarrow> udp_read \<Rightarrow> connection \<Rightarrow> string result" where
  "cn_Receive n r c =
     (if cn_closed c then Inl ''connection closed''
      else case cn_conn c of
        None \<Rightarrow> Inl ''no connection''
      | Some k \<Rightarrow>
          (case r of
             ReadTimeout \<Rightarrow> Inl ''i/o timeout''
           | ReadFailed e \<Rightarrow> Inl e
           | Datagram from data \<Rightarrow>
               if from \<noteq> cn_remote_addr c then Inl (''unexpected sender: '' @ from)
               else Inr (take n data)))"

definition cn_Close :: "connection \<Rightarrow> connection" where
  "cn_Close c = (if cn_closed c then c else c\<lparr>cn_closed := True, cn_cancelled := True\<rparr>)"

text \<open>
  Calls of several goroutines: \<open>Send\<close> is called and passes its check, or returns the error;
  one of the sends that have passed it writes; \<open>Close\<close> is called. The sends under way are
  kept with their data.
\<close>

datatype conn_input = SendCalled string | SendWrites nat "error option" | ConnCloses

type_synonym sends = "(string \<times> udp_conn \<times> string) list"

fun conn_event :: "conn_input \<Rightarrow> sends \<times> connection \<Rightarrow> sends \<times> connection" where
  "conn_event (SendCalled data) (ps, c) =
     (case send_check c of Inl e \<Rightarrow> (ps, c) | Inr dest \<Rightarrow> (ps @ [(data, dest)], c))"
| "conn_event (SendWrites i wr) (ps, c) =
     (if i < length ps
      then (take i ps @ drop (Suc i) ps, snd (send_write wr (fst (ps ! i)) (snd (ps ! i)) c))
      else (ps, c))"
| "conn_event ConnCloses (ps, c) = (ps, cn_Close c)"

definition conn_run :: "conn_input list \<Rightarrow> sends \<times> connection \<Rightarrow> sends \<times> connection" where
  "conn_run evs s = fold conn_event evs s"

definition LocalCandidate :: "connection \<Rightarrow> candidate" where
  "LocalCandidate c = cn_local c"

definition RemoteCandidate :: "connection \<Rightarrow> candidate" where
  "RemoteCandidate c = cn_remote c"

definition SetReceiveHandler :: "connection \<Rightarrow> connection" where
  "SetReceiveHandler c = c\<lparr>cn_handler := True\<rparr>"

text \<open>
  \<open>receiveLoop\<close> is at the top of its loop, inside \<open>ReadFromUDP\<close> with the handler it has
  copied, or has returned. Its inputs are its own passage of the top of the loop, the return
  of the read, and the calls other goroutines make in between. The result is what becomes of
  the data: it is logged, with its sender, and then passed to the handler if there is one.
\<close>

datatype loop_event = Logged string string | Handled string string


definition receive_buffer :: nat where
  "receive_buffer = 65535"

datatype loop_pc = LoopTop | InRead bool | LoopReturned

datatype receive_input = TopPassed | ReadReturned udp_read | DoClose | DoSetHandler

definition loop_top :: "connection \<Rightarrow> loop_pc" where
  "loop_top c =
     (if cn_cancelled c then LoopReturned
      else if cn_conn c = None then LoopReturned
      else InRead (cn_handler c))"

definition read_returned :: "udp_read \<Rightarrow> bool \<Rightarrow> connection \<Rightarrow> loop_pc \<times> loop_event list" where
  "read_returned r handler c =
     (case r of
        ReadTimeout \<Rightarrow> (LoopTop, [])
      | ReadFailed e \<Rightarrow> (LoopReturned, [])
      | Datagram from data \<Rightarrow>
          if from \<noteq> cn_remote_addr c then (LoopTop, [])
          else (LoopTop, Logged (take receive_buffer data) from #
            (if handler then [Handled (take receive_buffer data) from] else [])))"

fun receiveLoop :: "receive_input list \<Rightarrow> loop_pc \<Rightarrow> connection \<Rightarrow> loop_event list" where
  "receiveLoop [] pc c = []"
| "receiveLoop (DoClose # ins) pc c = receiveLoop ins pc (cn_Close c)"
| "receiveLoop (DoSetHandler # ins) pc c = receiveLoop ins pc (SetReceiveHandler c)"
| "receiveLoop (TopPassed # ins) pc c =
     receiveLoop ins (if pc = LoopTop then loop_top c else pc) c"
| "receiveLoop (ReadReturned r # ins) pc c =
     (case pc of
        InRead handler \<Rightarrow>
          (let (pc', evs) = read_returned r handler c in evs @ receiveLoop ins pc' c)
      | _ \<Rightarrow> receiveLoop ins pc c)"

text \<open>The data that was accepted, and the data the handler was called with.\<close>

fun logged :: "loop_event list \<Rightarrow> (string \<times> string) list" where
  "logged [] = []"
| "logged (Logged d i # es) = (d, i) # logged es"
| "logged (Handled d i # es) = logged es"

fun handled :: "loop_event list \<Rightarrow> (string \<times> string) list" where
  "handled [] = []"
| "handled (Logged d i # es) = handled es"
| "handled (Handled d i # es) = (d, i) # handled es"

section \<open>Agent\<close>

record agent =
  ag_mu :: rwmutex
  ag_gatherer :: gatherer
  ag_local :: "cand_ptr list"
  ag_remote :: "candidate list"
  ag_connection :: "connection option"

definition NewAgent :: "gatherer_config \<Rightarrow> agent" where
  "NewAgent cfg =
     \<lparr>ag_mu = free_mutex, ag_gatherer = NewGatherer cfg, ag_local = [], ag_remote = [],
      ag_connection = None\<rparr>"

text \<open>A method body between \<open>mu.Lock()\<close> and a deferred \<open>mu.Unlock()\<close>, and with the read lock.\<close>

definition locked :: "(agent \<Rightarrow> 'r \<times> agent) \<Rightarrow> agent \<Rightarrow> ('r \<times> agent) outcome" where
  "locked body a =
     obind (rw_Lock (ag_mu a)) (\<lambda>m.
       let (r, a') = body (a\<lparr>ag_mu := m\<rparr>) in
       obind (rw_Unlock (ag_mu a')) (\<lambda>m'. Done (r, a'\<lparr>ag_mu := m'\<rparr>)))"

definition rlocked :: "(agent \<Rightarrow> 'r) \<Rightarrow> agent \<Rightarrow> ('r \<times> agent) outcome" where
  "rlocked body a =
     obind (rw_RLock (ag_mu a)) (\<lambda>m.
       obind (rw_RUnlock m) (\<lambda>m'. Done (body a, a\<lparr>ag_mu := m'\<rparr>)))"

definition agent_Gather ::
  "'os listen \<Rightarrow> iface list result \<Rightarrow> agent \<Rightarrow> 'os \<Rightarrow> (cand_ptr list result \<times> agent) outcome \<times> 'os" where
  "agent_Gather listen ifaces a os =
     (let (r, g, os') = Gather listen ifaces (ag_gatherer a) os;
          a1 = a\<lparr>ag_gatherer := g\<rparr>
      in ((case r of
             Inl e \<Rightarrow> Done (Inl e, a1)
           | Inr cs \<Rightarrow> locked (\<lambda>a. (Inr cs, a\<lparr>ag_local := cs\<rparr>)) a1), os'))"

definition AddRemoteCandidate :: "candidate \<Rightarrow> agent \<Rightarrow> (unit \<times> agent) outcome" where
  "AddRemoteCandidate c = locked (\<lambda>a. ((), a\<lparr>ag_remote := ag_remote a @ [c]\<rparr>))"

definition GetLocalCandidates :: "agent \<Rightarrow> (cand_ptr list \<times> agent) outcome" where
  "GetLocalCandidates = rlocked ag_local"

text \<open>\<open>mu.RLock()\<close>, then a deferred \<open>mu.Unlock()\<close>.\<close>

definition GetRemoteCandidates :: "agent \<Rightarrow> (candidate list \<times> agent) outcome" where
  "GetRemoteCandidates a =
     obind (rw_RLock (ag_mu a)) (\<lambda>m.
       obind (rw_Unlock m) (\<lambda>m'. Done (ag_remote a, a\<lparr>ag_mu := m'\<rparr>)))"

text \<open>The listener of a candidate: the first index with the same pointer that has a listener.\<close>

fun find_listener :: "cand_ptr \<Rightarrow> cand_ptr list \<Rightarrow> nat \<Rightarrow> udp_conn list \<Rightarrow> udp_conn option" where
  "find_listener local [] i listeners = None"
| "find_listener local (c # cs) i listeners =
     (if fst c = fst local \<and> i < length listeners then Some (listeners ! i)
      else find_listener local cs (Suc i) listeners)"

definition connect_body :: "(string \<Rightarrow> string result) \<Rightarrow> agent \<Rightarrow> connection result \<times> agent" where
  "connect_body resolve a =
     (case ag_local a of
        [] \<Rightarrow> (Inl ''no local candidates'', a)
      | local # _ \<Rightarrow>
          (case ag_remote a of
             [] \<Rightarrow> (Inl ''no remote candidates'', a)
           | remote # _ \<Rightarrow>
               (case find_listener local (ag_local a) 0 (GetListeners (ag_gatherer a)) of
                  None \<Rightarrow> (Inl ''no listener for local candidate'', a)
                | Some conn \<Rightarrow>
                    (case wrap_err ''create connection''
                        (NewConnection resolve (snd local) remote (Some conn)) of
                       Inl e \<Rightarrow> (Inl e, a)
                     | Inr c \<Rightarrow> (Inr c, a\<lparr>ag_connection := Some c\<rparr>)))))"

definition agent_Connect :: "(string \<Rightarrow> string result) \<Rightarrow> agent \<Rightarrow> (connection result \<times> agent) outcome" where
  "agent_Connect resolve = locked (connect_body resolve)"

definition GetConnection :: "agent \<Rightarrow> (connection option \<times> agent) outcome" where
  "GetConnection = rlocked ag_connection"

definition agent_Close ::
  "(udp_conn \<Rightarrow> 'os \<Rightarrow> 'os) \<Rightarrow> agent \<Rightarrow> 'os \<Rightarrow> (unit \<times> 'os \<times> agent) outcome" where
  "agent_Close close_udp a os =
     omap (\<lambda>((u, os'), a'). (u, os', a'))
       (locked (\<lambda>a.
          let a1 = a\<lparr>ag_connection := map_option cn_Close (ag_connection a)\<rparr>;
              (g, os') = gatherer_Close close_udp (ag_gatherer a1) os
          in (((), os'), a1\<lparr>ag_gatherer := g\<rparr>)) a)"

section \<open>Lemmas\<close>

text \<open>Between two calls the lock is free; the bodies do not touch it.\<close>

definition idle :: "agent \<Rightarrow> bool" where
  "idle a \<longleftrightarrow> ag_mu a = free_mutex"

lemma locked_idle:
  assumes "idle a" "\<And>b. ag_mu (snd (body b)) = ag_mu b"
  shows "locked body a = (let (r, a') = body (a\<lparr>ag_mu := \<lparr>readers = 0, writer = True\<rparr>\<rparr>)
    in Done (r, a'\<lparr>ag_mu := free_mutex\<rparr>))"
proof -
  obtain r a' where b: "body (a\<lparr>ag_mu := \<lparr>readers = 0, writer = True\<rparr>\<rparr>) = (r, a')" by fastforce
  then have "ag_mu a' = \<lparr>readers = 0, writer = True\<rparr>"
    using assms(2)[of "a\<lparr>ag_mu := \<lparr>readers = 0, writer = True\<rparr>\<rparr>"] by simp
  with assms(1) b show ?thesis
    by (simp add: locked_def idle_def go_simps)
qed

lemma rlocked_idle: "idle a \<Longrightarrow> rlocked body a = Done (body a, a)"
  by (cases a) (simp add: rlocked_def idle_def go_simps)

lemma AddRemoteCandidate_idle:
  "idle a \<Longrightarrow> AddRemoteCandidate c a = Done ((), a\<lparr>ag_remote := ag_remote a @ [c]\<rparr>)"
  by (cases a) (simp add: AddRemoteCandidate_def locked_idle idle_def)

lemma connect_body_mu: "ag_mu (snd (connect_body resolve a)) = ag_mu a"
  by (simp add: connect_body_def split: list.split option.split sum.split)

lemma find_listener_first: "0 < length ls \<Longrightarrow> find_listener c (c # cs) 0 ls = Some (ls ! 0)"
  by simp

text \<open>What is sent after \<open>Close\<close>.\<close>

lemma send_check_closed [simp]: "cn_closed c \<Longrightarrow> send_check c = Inl ''connection closed''"
  by (simp add: send_check_def)

lemma cn_Close_simps [simp]: "cn_closed (cn_Close c)" "cn_sent (cn_Close c) = cn_sent c"
  by (simp_all add: cn_Close_def)

lemma cn_closed_write [simp]: "cn_closed (snd (send_write wr data dest c)) = cn_closed c"
  by (simp add: send_write_def split: option.split)

text \<open>The datagrams of the sends under way.\<close>

definition under_way :: "sends \<Rightarrow> (string \<times> string) multiset" where
  "under_way ps = image_mset (\<lambda>(data, dest). (snd dest, data)) (mset ps)"

lemma under_way_take:
  "i < length ps \<Longrightarrow> under_way ps =
     add_mset (snd (snd (ps ! i)), fst (ps ! i)) (under_way (take i ps @ drop (Suc i) ps))"
  by (subst id_take_nth_drop[of i ps]) (simp_all add: under_way_def case_prod_beta)

lemma conn_event_closed:
  assumes "cn_closed c" "conn_event ev (ps, c) = (qs, d)"
  shows "cn_closed d \<and> (\<exists>xs. cn_sent d = cn_sent c @ xs \<and> mset xs + under_way qs \<subseteq># under_way ps)"
proof (cases ev)
  case (SendWrites i wr)
  show ?thesis
  proof (cases "i < length ps")
    case True
    note s = assms(2)[unfolded SendWrites conn_event.simps if_P[OF True] prod.inject]
    from s have qs: "qs = take i ps @ drop (Suc i) ps" by simp
    show ?thesis
    proof (cases wr)
      case None
      with s have "d = c\<lparr>cn_sent := cn_sent c @ [(snd (snd (ps ! i)), fst (ps ! i))]\<rparr>"
        by (simp add: send_write_def)
      then show ?thesis using assms(1) under_way_take[OF True] qs by simp
    next
      case (Some e)
      with s have "d = c" by (simp add: send_write_def)
      then show ?thesis using assms(1) under_way_take[OF True] qs by simp
    qed
  next
    case False
    then show ?thesis using assms SendWrites by simp
  qed
qed (use assms in auto)

lemma conn_run_closed:
  "cn_closed c \<Longrightarrow> conn_run evs (ps, c) = (qs, d) \<Longrightarrow>
   \<exists>xs. cn_sent d = cn_sent c @ xs \<and> mset xs + under_way qs \<subseteq># under_way ps"
proof (induction evs arbitrary: ps c)
  case (Cons ev evs)
  obtain ps1 c1 where ev: "conn_event ev (ps, c) = (ps1, c1)" by fastforce
  then obtain xs where c1: "cn_closed c1" "cn_sent c1 = cn_sent c @ xs" "mset xs + under_way ps1 \<subseteq># under_way ps"
    using conn_event_closed[OF Cons.prems(1)] by blast
  moreover have "conn_run evs (ps1, c1) = (qs, d)" using Cons.prems(2) ev by (simp add: conn_run_def)
  ultimately obtain ys where ys: "cn_sent d = cn_sent c1 @ ys" "mset ys + under_way qs \<subseteq># under_way ps1"
    using Cons.IH by blast
  have "mset (xs @ ys) + under_way qs \<subseteq># mset xs + under_way ps1"
    using ys(2) by (simp add: add.assoc)
  then have "mset (xs @ ys) + under_way qs \<subseteq># under_way ps"
    using c1(3) by (rule subset_mset.trans)
  then show ?case using ys(1) c1(2) by (intro exI[of _ "xs @ ys"]) simp
qed (simp add: conn_run_def)

text \<open>The loop only ever accepts datagrams of the remote candidate's address.\<close>

lemma logged_append [simp]:
  "logged (es @ fs) = logged es @ logged fs" "handled (es @ fs) = handled es @ handled fs"
  by (induction es rule: logged.induct) simp_all

lemma remote_addr_same [simp]:
  "cn_remote_addr (cn_Close c) = cn_remote_addr c"
  "cn_remote_addr (SetReceiveHandler c) = cn_remote_addr c"
  by (simp_all add: cn_Close_def SetReceiveHandler_def)

lemma receiveLoop_from:
  "Logged d from \<in> set (receiveLoop ins pc c) \<or> Handled d from \<in> set (receiveLoop ins pc c) \<Longrightarrow>
   from = cn_remote_addr c"
  by (induction ins pc c rule: receiveLoop.induct)
     (auto simp: read_returned_def split: loop_pc.splits udp_read.splits if_splits)

text \<open>A cancelled connection stays cancelled, so a loop that reaches its top returns.\<close>

lemma cancelled_stays [simp]:
  "cn_cancelled (cn_Close c) = (cn_cancelled c \<or> \<not> cn_closed c)"
  "cn_cancelled (SetReceiveHandler c) = cn_cancelled c"
  by (simp_all add: cn_Close_def SetReceiveHandler_def)

lemma receiveLoop_cancelled:
  "cn_cancelled c \<Longrightarrow>
   length (logged (receiveLoop ins pc c)) \<le> (case pc of InRead h \<Rightarrow> 1 | _ \<Rightarrow> 0) \<and>
   length (handled (receiveLoop ins pc c)) \<le> (case pc of InRead h \<Rightarrow> if h then 1 else 0 | _ \<Rightarrow> 0)"
proof (induction ins pc c rule: receiveLoop.induct)
  case (4 ins pc c)
  then show ?case by (cases pc) (simp_all add: loop_top_def)
next
  case (5 r ins pc c)
  then show ?case
    by (cases pc) (auto simp: read_returned_def split: udp_read.splits)
qed auto

section \<open>An open connection\<close>

text \<open>One full turn of the loop per read.\<close>

definition full_turns :: "udp_read list \<Rightarrow> receive_input list" where
  "full_turns rs = concat (map (\<lambda>r. [TopPassed, ReadReturned r]) rs)"

text \<open>What an open connection should accept: the datagrams of the remote address, up to the
  first read that fails for another reason than a timeout.\<close>

fun from_remote :: "string \<Rightarrow> udp_read list \<Rightarrow> (string \<times> string) list" where
  "from_remote addr [] = []"
| "from_remote addr (ReadTimeout # rs) = from_remote addr rs"
| "from_remote addr (ReadFailed e # rs) = []"
| "from_remote addr (Datagram from d # rs) =
     (if from = addr then [(take receive_buffer d, from)] else []) @ from_remote addr rs"

lemma receiveLoop_returned [simp]: "receiveLoop (full_turns rs) LoopReturned c = []"
  by (induction rs) (auto simp: full_turns_def)

lemma receiveLoop_open:
  assumes "\<not> cn_cancelled c" "cn_conn c \<noteq> None"
  shows "logged (receiveLoop (full_turns rs) LoopTop c) = from_remote (cn_remote_addr c) rs \<and>
    handled (receiveLoop (full_turns rs) LoopTop c) =
      (if cn_handler c then from_remote (cn_remote_addr c) rs else [])"
  using assms
proof (induction "cn_remote_addr c" rs rule: from_remote.induct)
  case (3 e rs)
  then show ?case using receiveLoop_returned[of rs c]
    by (simp add: full_turns_def loop_top_def read_returned_def)
qed (auto simp: full_turns_def loop_top_def read_returned_def)

text \<open>A successful \<open>Connect\<close> of an agent that has a candidate on each side.\<close>

definition new_connection :: "candidate \<Rightarrow> candidate \<Rightarrow> udp_conn \<Rightarrow> string \<Rightarrow> connection" where
  "new_connection local remote u addr =
     \<lparr>cn_local = local, cn_remote = remote, cn_conn = Some u, cn_remote_addr = addr,
      cn_closed = False, cn_cancelled = False, cn_handler = False, cn_sent = []\<rparr>"

lemma agent_Connect_first:
  assumes "idle a" "ag_local a = l # ls" "ag_remote a = r # rs"
    and "g_listeners (ag_gatherer a) = u # us" "resolve (host_port r) = Inr addr"
  shows "agent_Connect resolve a = Done (Inr (new_connection (snd l) r u addr),
    a\<lparr>ag_connection := Some (new_connection (snd l) r u addr)\<rparr>)"
proof -
  let ?b = "a\<lparr>ag_mu := \<lparr>readers = 0, writer = True\<rparr>\<rparr>"
  have "connect_body resolve ?b = (Inr (new_connection (snd l) r u addr),
      ?b\<lparr>ag_connection := Some (new_connection (snd l) r u addr)\<rparr>)"
    using assms(2-5)
    by (simp add: connect_body_def GetListeners_def NewConnection_def new_connection_def)
  then show ?thesis
    using assms(1) unfolding agent_Connect_def locked_idle[OF assms(1) connect_body_mu]
    by (cases a) (simp add: idle_def)
qed

lemma find_listener_none [simp]: "find_listener c cs i [] = None"
  by (induction cs arbitrary: i) simp_all

lemma agent_Connect_no_listener:
  assumes "idle a" "ag_local a \<noteq> []" "ag_remote a \<noteq> []" "g_listeners (ag_gatherer a) = []"
  shows "\<exists>a'. agent_Connect resolve a = Done (Inl ''no listener for local candidate'', a')"
  using assms unfolding agent_Connect_def locked_idle[OF assms(1) connect_body_mu]
  by (cases a) (simp add: connect_body_def idle_def GetListeners_def split: list.split)

lemma agent_Connect_no_remote:
  assumes "idle a" "ag_local a \<noteq> []" "ag_remote a = []"
  shows "agent_Connect resolve a = Done (Inl ''no remote candidates'', a)"
  using assms unfolding agent_Connect_def locked_idle[OF assms(1) connect_body_mu]
  by (cases a) (simp add: connect_body_def idle_def split: list.split)

end
