(* ===== verification/IceProps.thy ===== *)
theory IceProps
  imports IceConnection
begin

text \<open>
  The properties of candidates, of the gatherer, of the agent and of the direct connection.
  The witnesses use an operating system on which some UDP ports are taken.
\<close>

section \<open>Candidates\<close>

definition example_candidate :: candidate where
  "example_candidate = \<lparr>c_type = ''host'', c_foundation = ''1'', c_component = 1, c_protocol = ''udp'',
     c_priority = 2113929471, c_ip = ''10.0.0.7'', c_port = 10003, c_base = ''''\<rparr>"

text \<open>A word with a no-break space in it would be cut there, as \<open>fmt\<close> does; and a byte that is not
  UTF-8 would come back as U+FFFD.\<close>

lemma not_printable_words:
  "\<not> token [CHR 0x61, CHR 0xC2, CHR 0xA0, CHR 0x62]" "\<not> token [CHR 0x61, CHR 0xFF]"
  "sscanf ''%s'' [OString] [CHR 0x61, CHR 0xC2, CHR 0xA0, CHR 0x62] = Inr [VString ''a'']"
  "sscanf ''%s'' [OString] [CHR 0x61, CHR 0xFF] = Inr [VString (''a'' @ replacement)]"
proof -
  have c: "chunks [CHR 0x61, CHR 0xC2, CHR 0xA0, CHR 0x62] = [''a'', [CHR 0xC2, CHR 0xA0], ''b'']"
    by (simp add: chunks_ascii_Cons chunks_rune rune_size.simps lead_size_def tail_ok_def second_byte_def)
  have d: "chunks [CHR 0x61, CHR 0xFF] = [''a'', [CHR 0xFF]]"
    by (simp add: chunks_ascii_Cons chunks_bad rune_size.simps lead_size_def)
  have r: "is_rune ''a''" "is_rune ''b''" "is_rune [CHR 0xC2, CHR 0xA0]" "\<not> is_rune [CHR 0xFF]"
    by (simp_all add: is_rune_def rune_size.simps(2) lead_size_def tail_ok_def second_byte_def)
  have sp: "rune_space [CHR 0xC2, CHR 0xA0]" "\<not> rune_space replacement"
    by (simp_all add: rune_space_def space_len_def space2_def space3_def replacement_def is_space_def)
  show "\<not> token [CHR 0x61, CHR 0xC2, CHR 0xA0, CHR 0x62]" "\<not> token [CHR 0x61, CHR 0xFF]"
    using sp r by (simp_all add: token_def valid_utf8_def c d)
  show "sscanf ''%s'' [OString] [CHR 0x61, CHR 0xC2, CHR 0xA0, CHR 0x62] = Inr [VString ''a'']"
    "sscanf ''%s'' [OString] [CHR 0x61, CHR 0xFF] = Inr [VString (''a'' @ replacement)]"
    using sp r by (simp_all add: sscanf_def runes_def c d coerce_chunk_def scan_one_def scan_string_def
        newline_def is_space_def)
qed

text \<open>C27: Parsing the text of a candidate whose words are not empty, UTF-8 and without Unicode
  white space gives the candidate back, all but the base address, which the text does not
  carry; text after it that starts with ASCII white space is ignored.\<close>

theorem ParseCandidate_roundtrip:
  assumes "printable c" "rest = '''' \<or> is_space (hd rest)"
  shows "ParseCandidate (candidate_String c @ rest) = Inr (c\<lparr>c_base := ''''\<rparr>)"
proof (rule ParseCandidate_String[OF assms(1)])
  show "gap (runes rest)"
  proof (cases rest)
    case (Cons x xs)
    then have "is_space x" using assms(2) by simp
    moreover from this have "byte x < 128" by (auto simp: is_space_def Let_def)
    ultimately show ?thesis by (simp add: Cons runes_ascii)
  qed simp
qed

theorem ParseCandidate_roundtrip_witness:
  "ParseCandidate (candidate_String example_candidate @ '' generation 0'') = Inr example_candidate"
  using ParseCandidate_roundtrip[of example_candidate "'' generation 0''"]
  by (simp add: example_candidate_def printable_def token_ascii is_space_def in_int_def)

text \<open>A candidate survives its JSON, and different candidates have different JSON.\<close>

theorem candidate_json_roundtrip:
  assumes "candidate_ok c"
  shows "rbind (CandidateToJSON c) (\<lambda>j. CandidateFromJSON (Some j)) = Inr c \<and>
    (\<forall>d. candidate_ok d \<longrightarrow> CandidateToJSON c = CandidateToJSON d \<longrightarrow> c = d)"
  using ice_cand.dec_enc[OF assms] ice_cand.enc_separates[OF assms]
  by (auto simp: CandidateToJSON_def CandidateFromJSON_def)

theorem candidate_json_roundtrip_witness:
  "rbind (CandidateToJSON example_candidate) (\<lambda>j. CandidateFromJSON (Some j)) = Inr example_candidate"
  by (rule conjunct1[OF candidate_json_roundtrip])
     (simp add: example_candidate_def candidate_ok_def in_int_def)

text \<open>C31: The 32-bit priority is the number of the formula, without wrap-around, so a better
  type always wins and, for one type, a public address wins over a private one.\<close>

theorem calculatePriority_formula:
  "unat (calculatePriority typ a) =
     2 ^ 24 * (if typ = CandidateTypeHost then 126 else if typ = CandidateTypePeerReflexive then 110
       else if typ = CandidateTypeServerReflexive then 100 else 0) +
     2 ^ 8 * (if IsPrivate a then 100 else 200) + (256 - 1) \<and>
   calculatePriority CandidateTypeRelay a < calculatePriority CandidateTypeServerReflexive b \<and>
   calculatePriority CandidateTypeServerReflexive a < calculatePriority CandidateTypePeerReflexive b \<and>
   calculatePriority CandidateTypePeerReflexive a < calculatePriority CandidateTypeHost b"
  by (intro conjI priority_by_type; simp only: unat_priority local_pref_cases type_pref_cases)
     (simp_all add: type_pref_def)

section \<open>Gathering\<close>

text \<open>The state of the operating system: the taken sockets and the next handle.\<close>

definition busy_listen :: "(ip \<times> int) list \<Rightarrow> nat listen" where
  "busy_listen taken a port n =
     (case To4 a of
        None \<Rightarrow> (Inl ''no suitable address'', n)
      | Some b \<Rightarrow>
          if (b, port) \<in> set taken then (Inl ''address already in use'', n)
          else (Inr \<lparr>u_sock = n, u_ip = b, u_port = (if port = 0 then 50000 + int n else port)\<rparr>, Suc n))"

lemma busy_listen_law: "udp_law (busy_listen taken)"
  by (auto simp: udp_law_def busy_listen_def split: option.splits if_splits)

definition lan :: ip where "lan = [10, 0, 0, 7]"

definition example_gatherer :: gatherer where
  "example_gatherer = NewGatherer \<lparr>PortStart = 10000, PortEnd = 10002\<rparr>"

text \<open>With a port range \<open>bindUDP\<close> takes the first free port of the range, having tried all
  lower ones, and fails only when every port of the range is taken.\<close>

theorem bindUDP_first_free:
  assumes "udp_law listen" "0 < g_port_start g" "0 < g_port_end g"
  shows "case fst (bindUDP listen a g os) of
      Inr c \<Rightarrow> g_port_start g \<le> u_port c \<and> u_port c \<le> g_port_end g \<and> To4 a = Some (u_ip c) \<and>
        (\<forall>q. g_port_start g \<le> q \<longrightarrow> q < u_port c \<longrightarrow> (\<exists>e. listen a q os = (Inl e, os)))
    | Inl e \<Rightarrow> \<forall>q. g_port_start g \<le> q \<longrightarrow> q \<le> g_port_end g \<longrightarrow> (\<exists>e. listen a q os = (Inl e, os))"
proof -
  obtain r os' where b: "bind_range listen a (g_port_start g) (g_port_end g) (g_port_start g) os = (r, os')"
    by fastforce
  then have f: "fst (bindUDP listen a g os) = r" using assms(2,3) by (simp add: bindUDP_def)
  show ?thesis
  proof (cases r)
    case (Inl e)
    then show ?thesis
      using bind_range_fails[OF assms(1)] b f by simp
  next
    case (Inr c)
    obtain p where p: "g_port_start g \<le> p" "p \<le> g_port_end g" "listen a p os = (Inr c, os')"
        "\<forall>q. g_port_start g \<le> q \<longrightarrow> q < p \<longrightarrow> (\<exists>e. listen a q os = (Inl e, os))"
      using bind_range_first_free[OF assms(1)] b Inr by blast
    moreover have "To4 a = Some (u_ip c)" "u_port c = p"
      using udp_law_ok[OF assms(1) p(3)] p(1) assms(2) by auto
    ultimately show ?thesis using f Inr by simp
  qed
qed

lemma first_free_example:
  "bindUDP (busy_listen [(lan, 10000)]) lan example_gatherer 3 =
     (Inr \<lparr>u_sock = 3, u_ip = lan, u_port = 10001\<rparr>, 4)"
  by (simp add: bindUDP_def example_gatherer_def NewGatherer_def bind_range.simps busy_listen_def
      lan_def To4_def)

theorem bindUDP_first_free_witness:
  "fst (bindUDP (busy_listen [(lan, 10000)]) lan example_gatherer 3) = Inr \<lparr>u_sock = 3, u_ip = lan, u_port = 10001\<rparr> \<and>
   (\<exists>e. busy_listen [(lan, 10000)] lan 10000 3 = (Inl e, 3))"
proof -
  have range: "g_port_start example_gatherer = 10000" "g_port_end example_gatherer = 10002"
    by (simp_all add: example_gatherer_def NewGatherer_def)
  then show ?thesis
    using bindUDP_first_free[OF busy_listen_law, of example_gatherer "[(lan, 10000)]" lan 3]
    by (simp add: first_free_example)
qed

text \<open>C28: Gathering gives one host candidate per bound socket, in the same order: the \<open>i\<close>-th
  candidate names the address and port of the \<open>i\<close>-th listener, has a foundation and an
  object of its own, prints to text that parses back and fits its JSON.\<close>

theorem Gather_matches_listeners:
  assumes "Gather listen ifaces (NewGatherer cfg) os = (Inr cs, g, os')"
  shows "cs \<noteq> [] \<and> GetCandidates g = cs \<and> length cs = length (GetListeners g) \<and>
    (\<forall>i < length cs. fst (cs ! i) = i \<and>
       c_ip (snd (cs ! i)) = ip4_String (u_ip (GetListeners g ! i)) \<and>
       c_port (snd (cs ! i)) = u_port (GetListeners g ! i) \<and>
       c_foundation (snd (cs ! i)) = itoa (int (Suc i)) \<and> c_type (snd (cs ! i)) = CandidateTypeHost)"
proof -
  note g = Gather_new[OF assms]
  have len: "length cs = length (GetListeners g)"
    using aligned_length[OF g(1)] g(2) by (simp add: GetListeners_def)
  have nth: "cs ! i = (i, host_candidate (Suc i) (GetListeners g ! i))" if "i < length cs" for i
    using aligned_nth[OF g(1), of i] that len g(2) by (simp add: GetListeners_def)
  show ?thesis
    using g(2,3) len nth by (simp add: GetCandidates_def host_candidate_def)
qed

definition example_ifaces :: "iface list" where
  "example_ifaces =
     [\<lparr>if_flags = 5, if_addrs = Inr [IPNet localhost]\<rparr>,
      \<lparr>if_flags = 1, if_addrs = Inr [IPNet lan, OtherAddr, IPAddr (replicate 16 1)]\<rparr>]"

lemma gather_example:
  "\<exists>cs g os'. Gather (busy_listen [(lan, 10000)]) (Inr example_ifaces) example_gatherer 3 = (Inr cs, g, os') \<and>
     map (\<lambda>c. c_port (snd c)) cs = [10001]"
proof -
  have "To4 (replicate 16 1) = None"
    by (simp add: To4_def v4_prefix_def numeral_eq_Suc)
  then have "getLocalIPs (Inr example_ifaces) = Inr [lan]"
    by (simp add: getLocalIPs_def example_ifaces_def iface_ips_def FlagUp_def FlagLoopback_def
        addr_ip_def lan_def) (simp add: To4_def)
  then show ?thesis
    by (simp add: Gather_def first_free_example host_candidate_def)
       (simp add: example_gatherer_def NewGatherer_def)
qed

theorem Gather_matches_listeners_witness:
  "\<exists>cs g os'. Gather (busy_listen [(lan, 10000)]) (Inr example_ifaces) example_gatherer 3 = (Inr cs, g, os') \<and>
     length (GetListeners g) = 1 \<and> u_port (GetListeners g ! 0) = 10001"
proof -
  obtain cs g os' where g: "Gather (busy_listen [(lan, 10000)]) (Inr example_ifaces) example_gatherer 3 = (Inr cs, g, os')"
      "map (\<lambda>c. c_port (snd c)) cs = [10001]"
    using gather_example by (elim exE conjE)
  from Gather_matches_listeners[OF g(1)[unfolded example_gatherer_def]] g show ?thesis
    by (cases cs) auto
qed

section \<open>The agent\<close>

text \<open>\<open>Connect\<close> fails without local candidates, without remote candidates and without a
  listener, in this order of checks; else it connects the first local candidate's socket to
  the first remote candidate, as far as that resolves. The agent's lock is free again after
  every branch.\<close>

theorem agent_Connect_result:
  assumes "idle a"
  shows "\<exists>a'. agent_Connect resolve a = Done
      (if ag_local a = [] then Inl ''no local candidates''
       else if ag_remote a = [] then Inl ''no remote candidates''
       else if GetListeners (ag_gatherer a) = [] then Inl ''no listener for local candidate''
       else case resolve (host_port (hd (ag_remote a))) of
         Inl e \<Rightarrow> Inl (''create connection: resolve remote address: '' @ e)
       | Inr addr \<Rightarrow> Inr \<lparr>cn_local = snd (hd (ag_local a)), cn_remote = hd (ag_remote a),
           cn_conn = Some (hd (GetListeners (ag_gatherer a))), cn_remote_addr = addr,
           cn_closed = False, cn_cancelled = False, cn_handler = False, cn_sent = []\<rparr>, a') \<and> idle a'"
proof -
  let ?b = "a\<lparr>ag_mu := \<lparr>readers = 0, writer = True\<rparr>\<rparr>"
  have "agent_Connect resolve a = (let (r, a') = connect_body resolve ?b in Done (r, a'\<lparr>ag_mu := free_mutex\<rparr>))"
    unfolding agent_Connect_def by (rule locked_idle[OF assms connect_body_mu])
  moreover have "fst (connect_body resolve ?b) =
      (if ag_local a = [] then Inl ''no local candidates''
       else if ag_remote a = [] then Inl ''no remote candidates''
       else if GetListeners (ag_gatherer a) = [] then Inl ''no listener for local candidate''
       else case resolve (host_port (hd (ag_remote a))) of
         Inl e \<Rightarrow> Inl (''create connection: resolve remote address: '' @ e)
       | Inr addr \<Rightarrow> Inr \<lparr>cn_local = snd (hd (ag_local a)), cn_remote = hd (ag_remote a),
           cn_conn = Some (hd (GetListeners (ag_gatherer a))), cn_remote_addr = addr,
           cn_closed = False, cn_cancelled = False, cn_handler = False, cn_sent = []\<rparr>)"
    by (cases "ag_local a"; cases "ag_remote a"; cases "GetListeners (ag_gatherer a)";
        cases "resolve (host_port (hd (ag_remote a)))")
       (simp_all add: connect_body_def NewConnection_def)
  ultimately show ?thesis
    by (cases "connect_body resolve ?b") (simp add: idle_def)
qed

definition example_agent :: agent where
  "example_agent = \<lparr>ag_mu = free_mutex,
     ag_gatherer = \<lparr>g_candidates = [(0, example_candidate)],
       g_listeners = [\<lparr>u_sock = 3, u_ip = lan, u_port = 10003\<rparr>],
       g_port_start = 10000, g_port_end = 10100, g_alloc = 1\<rparr>,
     ag_local = [(0, example_candidate)],
     ag_remote = [example_candidate\<lparr>c_ip := ''10.0.0.9''\<rparr>, example_candidate], ag_connection = None\<rparr>"

lemma idle_example: "idle example_agent"
  by (simp add: idle_def example_agent_def)

theorem agent_Connect_result_witness:
  "\<exists>conn a'. agent_Connect Inr example_agent = Done (Inr conn, a') \<and>
     cn_remote_addr conn = ''10.0.0.9:10003''"
proof -
  have "itoa 10003 = ''10003''" by (simp add: itoa_def digits.simps digit_char_def char_of_eq_iff)
  then show ?thesis
    using agent_Connect_result[OF idle_example, of Inr]
    by (auto simp: example_agent_def GetListeners_def host_port_def example_candidate_def)
qed

text \<open>Closing the agent closes its connection and its sockets but not its candidates: a
  later \<open>Connect\<close> fails for want of a listener, and the old connection sends nothing.\<close>

theorem agent_Close_effect:
  assumes "idle a" "ag_local a \<noteq> []" "ag_remote a \<noteq> []"
  shows "\<exists>os' a'. agent_Close close_udp a os = Done ((), os', a') \<and>
    os' = fold close_udp (GetListeners (ag_gatherer a)) os \<and>
    GetListeners (ag_gatherer a') = [] \<and> GetCandidates (ag_gatherer a') = GetCandidates (ag_gatherer a) \<and>
    (\<exists>a''. agent_Connect resolve a' = Done (Inl ''no listener for local candidate'', a'')) \<and>
    (\<forall>conn wr data. ag_connection a' = Some conn \<longrightarrow> cn_Send wr data conn = (Inl ''connection closed'', conn))"
proof -
  let ?body = "\<lambda>a. let a1 = a\<lparr>ag_connection := map_option cn_Close (ag_connection a)\<rparr>;
      (g, os') = gatherer_Close close_udp (ag_gatherer a1) os in (((), os'), a1\<lparr>ag_gatherer := g\<rparr>)"
  let ?os = "fold close_udp (g_listeners (ag_gatherer a)) os"
  let ?a = "a\<lparr>ag_mu := free_mutex, ag_connection := map_option cn_Close (ag_connection a),
      ag_gatherer := (ag_gatherer a)\<lparr>g_listeners := []\<rparr>\<rparr>"
  have "locked ?body a = Done (((), ?os), ?a)"
    by (subst locked_idle[OF assms(1)]) (simp_all add: gatherer_Close_def)
  then have c: "agent_Close close_udp a os = Done ((), ?os, ?a)"
    by (simp add: agent_Close_def)
  have "idle ?a" by (simp add: idle_def)
  from agent_Connect_result[OF this, of resolve] assms(2,3)
  have "\<exists>a''. agent_Connect resolve ?a = Done (Inl ''no listener for local candidate'', a'')"
    by (auto simp: GetListeners_def)
  moreover have "cn_Send wr data conn = (Inl ''connection closed'', conn)"
    if "ag_connection ?a = Some conn" for conn wr data
    using that by (auto simp: cn_Send_def cn_Close_def)
  ultimately show ?thesis
    using c by (simp add: GetListeners_def GetCandidates_def)
qed

theorem agent_Close_effect_witness:
  "\<exists>a'. agent_Close (\<lambda>u. remdups) example_agent [1 :: nat] = Done ((), [1], a') \<and>
     (\<exists>a''. agent_Connect Inr a' = Done (Inl ''no listener for local candidate'', a''))"
proof -
  have "ag_local example_agent \<noteq> []" "ag_remote example_agent \<noteq> []"
    by (simp_all add: example_agent_def)
  from agent_Close_effect[OF idle_example this, of "\<lambda>u. remdups" "[1 :: nat]" Inr]
  show ?thesis by (auto simp: GetListeners_def example_agent_def)
qed

text \<open>\<open>GetRemoteCandidates\<close> can never be used: on an agent whose lock is free it takes the
  read lock and releases the write lock, which ends the process.\<close>

theorem GetRemoteCandidates_panics:
  assumes "idle a"
  shows "GetRemoteCandidates a = Panicked ''sync: Unlock of unlocked RWMutex'' \<and>
    GetLocalCandidates a = Done (ag_local a, a)"
  using assms rlocked_idle[OF assms]
  by (simp add: GetRemoteCandidates_def GetLocalCandidates_def idle_def go_simps)

theorem GetRemoteCandidates_panics_witness:
  "GetRemoteCandidates example_agent = Panicked ''sync: Unlock of unlocked RWMutex''"
  by (rule conjunct1[OF GetRemoteCandidates_panics[OF idle_example]])

section \<open>The direct connection\<close>

definition example_connection :: connection where
  "example_connection = \<lparr>cn_local = example_candidate, cn_remote = example_candidate,
     cn_conn = Some \<lparr>u_sock = 3, u_ip = lan, u_port = 10003\<rparr>, cn_remote_addr = ''10.0.0.9:10003'',
     cn_closed = False, cn_cancelled = False, cn_handler = True, cn_sent = []\<rparr>"

text \<open>An open connection accepts exactly the datagrams of the remote candidate's address, in the
  order of their arrival, and its handler, if it has one, gets exactly these; other senders are
  ignored, timeouts are waited out, another error ends the loop.\<close>

theorem receiveLoop_delivers:
  assumes "\<not> cn_cancelled c" "cn_conn c \<noteq> None"
  shows "logged (receiveLoop (full_turns rs) LoopTop c) = from_remote (cn_remote_addr c) rs \<and>
    handled (receiveLoop (full_turns rs) LoopTop c) =
      (if cn_handler c then from_remote (cn_remote_addr c) rs else [])"
  using assms by (rule receiveLoop_open)

theorem receiveLoop_delivers_witness:
  "handled (receiveLoop (full_turns [Datagram ''10.0.0.9:10003'' ''a'', Datagram ''6.6.6.6:1'' ''x'', ReadTimeout,
     Datagram ''10.0.0.9:10003'' ''b'', ReadFailed ''closed'', Datagram ''10.0.0.9:10003'' ''c'']) LoopTop
     example_connection) =
   [(''a'', ''10.0.0.9:10003''), (''b'', ''10.0.0.9:10003'')]"
  using receiveLoop_delivers[of example_connection]
  by (simp add: example_connection_def receive_buffer_def)

text \<open>C30: Once a connection is closed a \<open>Send\<close> that is called returns an error and sends nothing;
  whatever several goroutines call and however their calls interleave, only sends that had
  passed their check before can still write, each its datagram at most once. At most one more
  datagram is accepted, namely when a read was under way, and the handler sees it only if it
  had been set when that read began. Open or closed, no data of another sender than the remote
  candidate's address is ever accepted.\<close>

theorem closed_connection_quiet:
  assumes "\<not> cn_closed c"
  shows "cn_Send wr data (cn_Close c) = (Inl ''connection closed'', cn_Close c) \<and>
    (\<exists>xs. cn_sent (snd (conn_run (ConnCloses # evs) (ps, c))) = cn_sent c @ xs \<and>
       mset xs \<subseteq># image_mset (\<lambda>(data, k, addr). (addr, data)) (mset ps)) \<and>
    length (logged (receiveLoop (DoClose # ins) pc c)) \<le> (case pc of InRead h \<Rightarrow> 1 | _ \<Rightarrow> 0) \<and>
    length (handled (receiveLoop (DoClose # ins) pc c)) \<le> (case pc of InRead h \<Rightarrow> if h then 1 else 0 | _ \<Rightarrow> 0) \<and>
    (\<forall>d from. Logged d from \<in> set (receiveLoop ins' pc c) \<or> Handled d from \<in> set (receiveLoop ins' pc c) \<longrightarrow>
       from = cn_remote_addr c)"
proof -
  obtain qs d where d: "conn_run (ConnCloses # evs) (ps, c) = (qs, d)" by fastforce
  then have "conn_run evs (ps, cn_Close c) = (qs, d)" by (simp add: conn_run_def)
  then obtain xs where xs: "cn_sent d = cn_sent c @ xs" "mset xs + under_way qs \<subseteq># under_way ps"
    using conn_run_closed[of "cn_Close c" evs ps] by auto
  have "mset xs \<subseteq># under_way ps"
    using xs(2) by (meson mset_subset_eq_add_left subset_mset.order_trans)
  moreover have "(\<lambda>(data, dest). (snd dest, data)) = (\<lambda>(data :: string, k :: udp_conn, addr :: string). (addr, data))"
    by auto
  ultimately have "mset xs \<subseteq># image_mset (\<lambda>(data, k, addr). (addr, data)) (mset ps)"
    by (simp add: under_way_def)
  moreover have "cn_cancelled (cn_Close c)" using assms by simp
  ultimately show ?thesis
    using d xs(1) receiveLoop_cancelled[of "cn_Close c" ins pc] receiveLoop_from[of _ _ ins' pc c]
    by (auto simp: cn_Send_def)
qed

text \<open>Two sends have passed their check when \<open>Close\<close> is called; a third comes after it.\<close>

theorem closed_connection_quiet_witness:
  "\<exists>ps xs. conn_run [SendCalled ''a'', SendCalled ''b''] ([], example_connection) = (ps, example_connection) \<and>
     map fst ps = [''a'', ''b''] \<and>
     cn_sent (snd (conn_run [ConnCloses, SendCalled ''c'', SendWrites 1 None, SendWrites 1 None]
       (ps, example_connection))) = xs \<and> mset xs \<subseteq># {#(''10.0.0.9:10003'', ''a''), (''10.0.0.9:10003'', ''b'')#}"
proof -
  let ?u = "\<lparr>u_sock = 3, u_ip = lan, u_port = 10003\<rparr>"
  let ?ps = "[(''a'', ?u, ''10.0.0.9:10003''), (''b'', ?u, ''10.0.0.9:10003'')]"
  have "\<not> cn_closed example_connection" by (simp add: example_connection_def)
  from conjunct1[OF conjunct2[OF closed_connection_quiet[OF this, where ps = ?ps and
      evs = "[SendCalled ''c'', SendWrites 1 None, SendWrites 1 None]"]]]
  show ?thesis
    by (intro exI[of _ ?ps]) (auto simp: example_connection_def conn_run_def send_check_def)
qed

end
