(* ===== verification/GoTime.thy ===== *)
theory GoTime
  imports Json "HOL-Library.Monad_Syntax"
begin

text \<open>
  \<open>time.Time\<close> as the program uses it in \<open>sdp.Signal\<close>: a civil time with a zone offset,
  its JSON text (RFC 3339 with nanoseconds, \<open>Time.MarshalJSON\<close>) and the strict parser of
  that text (\<open>Time.UnmarshalJSON\<close>). Printing then parsing gives the time back.
\<close>

section \<open>Numbers of a fixed width\<close>

primrec pad :: "nat \<Rightarrow> nat \<Rightarrow> string" where
  "pad 0 v = []"
| "pad (Suc n) v = pad n (v div 10) @ [digit_char (v mod 10)]"

definition num :: "nat \<Rightarrow> string \<Rightarrow> (nat \<times> string) option" where
  "num n s =
     (if length s < n then None
      else case digits_val 0 (take n s) of None \<Rightarrow> None | Some v \<Rightarrow> Some (v, drop n s))"

lemma length_pad [simp]: "length (pad n v) = n"
  by (induction n arbitrary: v) simp_all

lemma digits_val_pad: "v < 10 ^ n \<Longrightarrow> digits_val a (pad n v) = Some (a * 10 ^ n + v)"
proof (induction n arbitrary: v)
  case (Suc n)
  then have "v div 10 < 10 ^ n" by simp
  from Suc.IH[OF this] show ?case
    by (simp add: digits_val_append)
qed simp

lemma num_pad [simp]: "v < 10 ^ n \<Longrightarrow> num n (pad n v @ rest) = Some (v, rest)"
  by (simp add: num_def digits_val_pad)

lemma pad_digits: "c \<in> set (pad n v) \<Longrightarrow> is_digit c"
  by (induction n arbitrary: v) auto

lemma digit_char_0 [simp]: "digit_char 0 = CHR ''0''"
  by code_simp

lemma pad_zero: "i < n \<Longrightarrow> pad n 0 ! i = CHR ''0''"
proof (induction n)
  case (Suc n)
  then show ?case by (auto simp: nth_append less_Suc_eq)
qed simp

section \<open>The fraction of a second\<close>

definition trim_zeros :: "string \<Rightarrow> string" where
  "trim_zeros s = rev (dropWhile (\<lambda>c. c = CHR ''0'') (rev s))"

definition zeros :: "nat \<Rightarrow> string" where
  "zeros n = replicate n (CHR ''0'')"

lemma trim_zeros_fill:
  "length s = n \<Longrightarrow> take n (trim_zeros s @ zeros n) = s"
proof -
  assume n: "length s = n"
  let ?t = "takeWhile (\<lambda>c. c = CHR ''0'') (rev s)"
  have t: "?t = zeros (length ?t)"
    unfolding zeros_def by (rule replicate_eqI) (auto dest: set_takeWhileD)
  have "rev s = ?t @ dropWhile (\<lambda>c. c = CHR ''0'') (rev s)" by simp
  then have s: "s = trim_zeros s @ rev ?t"
    unfolding trim_zeros_def by (metis rev_append rev_rev_ident)
  moreover have "rev ?t = zeros (length ?t)"
    by (subst t) (simp add: zeros_def)
  ultimately have s': "s = trim_zeros s @ zeros (length ?t)" by simp
  then have "length (trim_zeros s) + length ?t = n"
    using n by (metis length_append length_replicate zeros_def)
  then have "take n (trim_zeros s @ zeros n) = trim_zeros s @ zeros (length ?t)"
    by (simp add: zeros_def)
  with s' show ?thesis by simp
qed

lemma trim_zeros_digits: "c \<in> set (trim_zeros s) \<Longrightarrow> c \<in> set s"
  by (auto simp: trim_zeros_def dest: set_dropWhileD)

text \<open>\<open>.\<close> and at least one digit; digits after the ninth are ignored.\<close>

definition parse_frac :: "string \<Rightarrow> (nat \<times> string) option" where
  "parse_frac s =
     (case s of
        c # cs \<Rightarrow>
          if c = CHR ''.'' then
            (let ds = takeWhile is_digit cs in
             if ds = [] then None
             else case digits_val 0 (take 9 (ds @ zeros 9)) of
                    None \<Rightarrow> None
                  | Some v \<Rightarrow> Some (v, dropWhile is_digit cs))
          else Some (0, s)
      | [] \<Rightarrow> Some (0, s))"

definition print_frac :: "nat \<Rightarrow> string" where
  "print_frac ns = (if ns = 0 then [] else CHR ''.'' # trim_zeros (pad 9 ns))"

lemma trim_pad_nonempty: "0 < v \<Longrightarrow> v < 10 ^ n \<Longrightarrow> trim_zeros (pad n v) \<noteq> []"
proof
  assume v: "0 < v" "v < 10 ^ n" and "trim_zeros (pad n v) = []"
  then have "\<forall>c \<in> set (pad n v). c = CHR ''0''"
    by (simp add: trim_zeros_def)
  then have "pad n v = pad n 0"
    by (intro nth_equalityI) (auto simp: all_set_conv_all_nth pad_zero)
  then have "digits_val 0 (pad n v) = digits_val 0 (pad n 0)" by simp
  then show False using v by (simp add: digits_val_pad)
qed

lemma parse_frac_print:
  assumes "ns < 10 ^ 9" and r: "r = [] \<or> \<not> is_digit (hd r) \<and> hd r \<noteq> CHR ''.''"
  shows "parse_frac (print_frac ns @ r) = Some (ns, r)"
proof (cases "ns = 0")
  case True
  then show ?thesis using r by (cases r) (auto simp: parse_frac_def print_frac_def)
next
  case False
  let ?ds = "trim_zeros (pad 9 ns)"
  have dig: "\<forall>c \<in> set ?ds. is_digit c"
    using trim_zeros_digits pad_digits by blast
  have r0: "takeWhile is_digit r = []" "dropWhile is_digit r = r"
    using r by (cases r; auto)+
  have tw: "takeWhile is_digit (?ds @ r) = ?ds" "dropWhile is_digit (?ds @ r) = r"
    using dig r0 by (simp_all add: takeWhile_append2 dropWhile_append2)
  have "take 9 (?ds @ zeros 9) = pad 9 ns"
    by (rule trim_zeros_fill) simp
  with False assms(1) tw trim_pad_nonempty[of ns 9] show ?thesis
    by (simp add: parse_frac_def print_frac_def Let_def digits_val_pad)
qed

section \<open>Times\<close>

record go_time =
  year :: nat
  month :: nat
  day :: nat
  hour :: nat
  minute :: nat
  second :: nat
  nsec :: nat
  zone :: int

text \<open>The zero \<open>time.Time\<close>: 1 January of year 1, 00:00:00 UTC.\<close>

definition zero_time :: go_time where
  "zero_time = \<lparr>year = 1, month = 1, day = 1, hour = 0, minute = 0, second = 0, nsec = 0, zone = 0\<rparr>"

definition leap :: "nat \<Rightarrow> bool" where
  "leap y \<longleftrightarrow> y mod 4 = 0 \<and> (y mod 100 \<noteq> 0 \<or> y mod 400 = 0)"

definition days_in :: "nat \<Rightarrow> nat \<Rightarrow> nat" where
  "days_in y m =
     (if m = 2 then (if leap y then 29 else 28) else if m \<in> {4, 6, 9, 11} then 30 else 31)"

text \<open>Zone offsets are whole minutes below 24 hours.\<close>

definition time_ok :: "go_time \<Rightarrow> bool" where
  "time_ok t \<longleftrightarrow>
     year t < 10000 \<and> 1 \<le> month t \<and> month t \<le> 12 \<and>
     1 \<le> day t \<and> day t \<le> days_in (year t) (month t) \<and>
     hour t < 24 \<and> minute t < 60 \<and> second t < 60 \<and> nsec t < 10 ^ 9 \<and> \<bar>zone t\<bar> < 24 * 60"

definition print_zone :: "int \<Rightarrow> string" where
  "print_zone z =
     (if z = 0 then ''Z''
      else (if z < 0 then CHR ''-'' else CHR ''+'') #
        pad 2 (nat \<bar>z\<bar> div 60) @ CHR '':'' # pad 2 (nat \<bar>z\<bar> mod 60))"

text \<open>\<open>Time.AppendFormat\<close> with the layout of \<open>RFC3339Nano\<close>.\<close>

definition print_time :: "go_time \<Rightarrow> string" where
  "print_time t =
     pad 4 (year t) @ CHR ''-'' # pad 2 (month t) @ CHR ''-'' # pad 2 (day t) @ CHR ''T'' #
     pad 2 (hour t) @ CHR '':'' # pad 2 (minute t) @ CHR '':'' # pad 2 (second t) @
     print_frac (nsec t) @ print_zone (zone t)"

definition lit :: "char \<Rightarrow> string \<Rightarrow> string option" where
  "lit c s = (case s of [] \<Rightarrow> None | d # cs \<Rightarrow> if d = c then Some cs else None)"

definition parse_zone :: "string \<Rightarrow> int option" where
  "parse_zone s =
     (case s of
        [] \<Rightarrow> None
      | c # cs \<Rightarrow>
          if c = CHR ''Z'' \<and> cs = [] then Some 0
          else if c = CHR ''+'' \<or> c = CHR ''-'' then
            do {
              (h, cs) \<leftarrow> num 2 cs;
              cs \<leftarrow> lit (CHR '':'') cs;
              (m, cs) \<leftarrow> num 2 cs;
              if cs = [] \<and> h < 24 \<and> m < 60
              then Some ((if c = CHR ''-'' then -1 else 1) * int (60 * h + m))
              else None
            }
          else None)"

definition parse_time :: "string \<Rightarrow> go_time option" where
  "parse_time s =
     do {
       (y, s) \<leftarrow> num 4 s; s \<leftarrow> lit (CHR ''-'') s;
       (mo, s) \<leftarrow> num 2 s; s \<leftarrow> lit (CHR ''-'') s;
       (d, s) \<leftarrow> num 2 s; s \<leftarrow> lit (CHR ''T'') s;
       (h, s) \<leftarrow> num 2 s; s \<leftarrow> lit (CHR '':'') s;
       (mi, s) \<leftarrow> num 2 s; s \<leftarrow> lit (CHR '':'') s;
       (sec, s) \<leftarrow> num 2 s;
       (ns, s) \<leftarrow> parse_frac s;
       z \<leftarrow> parse_zone s;
       let t = \<lparr>year = y, month = mo, day = d, hour = h, minute = mi, second = sec, nsec = ns, zone = z\<rparr>
       in if time_ok t then Some t else None
     }"

lemma lit_Cons [simp]: "lit c (d # cs) = (if d = c then Some cs else None)"
  by (simp add: lit_def)

lemma parse_zone_print:
  assumes "\<bar>z\<bar> < 24 * 60"
  shows "parse_zone (print_zone z) = Some z"
proof (cases "z = 0")
  case True
  then show ?thesis by (simp add: parse_zone_def print_zone_def)
next
  case False
  define n where "n = nat \<bar>z\<bar>"
  have n: "n < 24 * 60" "int n = \<bar>z\<bar>" using assms by (auto simp: n_def)
  then have b: "n div 60 < 24" "n div 60 < 100" "n mod 60 < 100" by auto
  have num2: "num 2 (pad 2 (n mod 60)) = Some (n mod 60, [])"
    using num_pad[of "n mod 60" 2 "[]"] b by simp
  have split: "60 * (n div 60) + n mod 60 = n" by simp
  show ?thesis
    using False b n(2)
    by (auto simp: parse_zone_def print_zone_def num2 split simp flip: n_def)
qed

lemma print_zone_head: "print_zone z = [] \<or> \<not> is_digit (hd (print_zone z)) \<and> hd (print_zone z) \<noteq> CHR ''.''"
  by (simp add: print_zone_def digit_val_def)

lemma parse_print_time: "time_ok t \<Longrightarrow> parse_time (print_time t) = Some t"
proof -
  assume ok: "time_ok t"
  have "days_in (year t) (month t) \<le> 31" by (simp add: days_in_def)
  with ok have b: "year t < 10 ^ 4" "month t < 10 ^ 2" "day t < 10 ^ 2" "hour t < 10 ^ 2"
    "minute t < 10 ^ 2" "second t < 10 ^ 2" "nsec t < 10 ^ 9" "\<bar>zone t\<bar> < 24 * 60"
    by (auto simp: time_ok_def)
  note f = parse_frac_print[OF b(7) print_zone_head]
  have t: "\<lparr>year = year t, month = month t, day = day t, hour = hour t, minute = minute t,
      second = second t, nsec = nsec t, zone = zone t\<rparr> = t" by simp
  show ?thesis
    unfolding parse_time_def print_time_def
    using b ok by (simp add: f parse_zone_print Let_def t)
qed

section \<open>JSON\<close>

definition enc_time :: "go_time \<Rightarrow> json" where
  "enc_time t = JStr (print_time t)"

definition time_field :: "string \<Rightarrow> (go_time \<Rightarrow> 'r \<Rightarrow> 'r) \<Rightarrow> 'r field" where
  "time_field k upd =
     (k, \<lambda>j r. case j of
           JNull \<Rightarrow> Inr r
         | JStr s \<Rightarrow> (case parse_time s of None \<Rightarrow> Inl ''parsing time'' | Some t \<Rightarrow> Inr (upd t r))
         | _ \<Rightarrow> Inl ''Time.UnmarshalJSON: input is not a JSON string'')"

lemma time_field_simps [json_simps]:
  "fst (time_field k upd) = k"
  "time_ok t \<Longrightarrow> snd (time_field k upd) (enc_time t) r = Inr (upd t r)"
  "snd (time_field k upd) JNull r = Inr r"
  by (simp_all add: time_field_def enc_time_def parse_print_time)

end
