(* ===== verification/Sdp.thy ===== *)
theory Sdp
  imports GoTime
begin

text \<open>
  \<^verbatim>\<open>pkg/p2p/sdp/sdp.go\<close>: session descriptions, ICE candidates in their SDP form and the
  \<open>Signal\<close> envelope, with their JSON, their conversions to a \<open>Signal\<close> and the parsers of
  a signal's payload. The structured SDP types of the file, which no code uses, are records.
  A Go \<open>int\<close> is 64 bits wide. The interpretations of \<open>json_codec\<close> say that each struct
  survives JSON; the round trips through a \<open>Signal\<close> follow from them.
\<close>

section \<open>Types\<close>

definition TypeOffer :: string where "TypeOffer = ''offer''"
definition TypeAnswer :: string where "TypeAnswer = ''answer''"
definition TypeICE :: string where "TypeICE = ''ice''"
definition TypeRenegotiate :: string where "TypeRenegotiate = ''renegotiate''"
definition TypeClose :: string where "TypeClose = ''close''"

lemmas sdp_type_defs = TypeOffer_def TypeAnswer_def TypeICE_def TypeRenegotiate_def TypeClose_def

record session_description =
  sd_type :: string
  sd_sdp :: string
  sd_version :: int

record sdp_candidate =
  sc_type :: string
  sc_candidate :: string
  sc_sdp_mid :: string
  sc_line_index :: int
  sc_ufrag :: string

record signal =
  sig_type :: string
  sig_payload :: raw
  sig_timestamp :: go_time
  sig_from :: string
  sig_to :: string

record connection_info =
  ci_network_type :: string
  ci_address_type :: string
  ci_address :: string

record media_section =
  ms_type :: string
  ms_port :: int
  ms_protocol :: string
  ms_formats :: "int list"
  ms_connection :: "connection_info option"

record origin_info =
  oi_username :: string
  oi_session_id :: int
  oi_session_version :: int
  oi_network_type :: string
  oi_address_type :: string
  oi_address :: string

record timing_info =
  ti_start :: int
  ti_stop :: int

record attribute_info =
  at_key :: string
  at_value :: string

record simplified_sdp =
  ss_version :: int
  ss_origin :: origin_info
  ss_session_name :: string
  ss_timing :: timing_info
  ss_media_sections :: "media_section list"
  ss_attributes :: "attribute_info list"

section \<open>Constructors\<close>

definition NewOffer :: "string \<Rightarrow> session_description" where
  "NewOffer s = \<lparr>sd_type = TypeOffer, sd_sdp = s, sd_version = 1\<rparr>"

definition NewAnswer :: "string \<Rightarrow> session_description" where
  "NewAnswer s = \<lparr>sd_type = TypeAnswer, sd_sdp = s, sd_version = 1\<rparr>"

definition NewICECandidate :: "string \<Rightarrow> string \<Rightarrow> int \<Rightarrow> sdp_candidate" where
  "NewICECandidate c mid idx =
     \<lparr>sc_type = TypeICE, sc_candidate = c, sc_sdp_mid = mid, sc_line_index = idx, sc_ufrag = ''''\<rparr>"

definition IsOffer :: "session_description \<Rightarrow> bool" where
  "IsOffer s \<longleftrightarrow> sd_type s = TypeOffer"

definition IsAnswer :: "session_description \<Rightarrow> bool" where
  "IsAnswer s \<longleftrightarrow> sd_type s = TypeAnswer"

definition sd_String :: "session_description \<Rightarrow> string" where
  "sd_String s = sd_type s @ ''[v'' @ itoa (sd_version s) @ '']: '' @ itoa (int (length (sd_sdp s))) @ '' bytes''"

section \<open>JSON\<close>

definition enc_session_description :: "session_description \<Rightarrow> json" where
  "enc_session_description s = JObj
     [(''type'', JStr (sd_type s)), (''sdp'', JStr (sd_sdp s)), (''version'', enc_int (sd_version s))]"

definition dec_session_description :: "json \<Rightarrow> session_description result" where
  "dec_session_description j = dec_struct
     [string_field ''type'' (\<lambda>x s. s\<lparr>sd_type := x\<rparr>),
      string_field ''sdp'' (\<lambda>x s. s\<lparr>sd_sdp := x\<rparr>),
      int_field ''version'' 64 (\<lambda>i s. s\<lparr>sd_version := i\<rparr>)] j
     \<lparr>sd_type = '''', sd_sdp = '''', sd_version = 0\<rparr>"

definition session_ok :: "session_description \<Rightarrow> bool" where
  "session_ok s \<longleftrightarrow> in_int 64 (sd_version s)"

definition enc_sdp_candidate :: "sdp_candidate \<Rightarrow> json" where
  "enc_sdp_candidate c = JObj
     ([(''type'', JStr (sc_type c)), (''candidate'', JStr (sc_candidate c))] @
      omit_empty (sc_sdp_mid c = '''') (''sdpMid'', JStr (sc_sdp_mid c)) @
      omit_empty (sc_line_index c = 0) (''sdpMLineIndex'', enc_int (sc_line_index c)) @
      omit_empty (sc_ufrag c = '''') (''usernameFragment'', JStr (sc_ufrag c)))"

definition dec_sdp_candidate :: "json \<Rightarrow> sdp_candidate result" where
  "dec_sdp_candidate j = dec_struct
     [string_field ''type'' (\<lambda>x c. c\<lparr>sc_type := x\<rparr>),
      string_field ''candidate'' (\<lambda>x c. c\<lparr>sc_candidate := x\<rparr>),
      string_field ''sdpMid'' (\<lambda>x c. c\<lparr>sc_sdp_mid := x\<rparr>),
      int_field ''sdpMLineIndex'' 64 (\<lambda>i c. c\<lparr>sc_line_index := i\<rparr>),
      string_field ''usernameFragment'' (\<lambda>x c. c\<lparr>sc_ufrag := x\<rparr>)] j
     \<lparr>sc_type = '''', sc_candidate = '''', sc_sdp_mid = '''', sc_line_index = 0, sc_ufrag = ''''\<rparr>"

definition sdp_candidate_ok :: "sdp_candidate \<Rightarrow> bool" where
  "sdp_candidate_ok c \<longleftrightarrow> in_int 64 (sc_line_index c)"

definition zero_signal :: signal where
  "zero_signal =
     \<lparr>sig_type = '''', sig_payload = None, sig_timestamp = zero_time, sig_from = '''', sig_to = ''''\<rparr>"

definition enc_signal :: "signal \<Rightarrow> json" where
  "enc_signal s = JObj
     ([(''signal_type'', JStr (sig_type s)), (''payload'', enc_raw (sig_payload s)),
       (''timestamp'', enc_time (sig_timestamp s))] @
      omit_empty (sig_from s = '''') (''from'', JStr (sig_from s)) @
      omit_empty (sig_to s = '''') (''to'', JStr (sig_to s)))"

definition dec_signal :: "json \<Rightarrow> signal result" where
  "dec_signal j = dec_struct
     [string_field ''signal_type'' (\<lambda>x s. s\<lparr>sig_type := x\<rparr>),
      raw_field ''payload'' (\<lambda>r s. s\<lparr>sig_payload := r\<rparr>),
      time_field ''timestamp'' (\<lambda>t s. s\<lparr>sig_timestamp := t\<rparr>),
      string_field ''from'' (\<lambda>x s. s\<lparr>sig_from := x\<rparr>),
      string_field ''to'' (\<lambda>x s. s\<lparr>sig_to := x\<rparr>)] j zero_signal"

definition signal_ok :: "signal \<Rightarrow> bool" where
  "signal_ok s \<longleftrightarrow> sig_payload s \<noteq> None \<and> time_ok (sig_timestamp s)"

section \<open>Conversions\<close>

text \<open>\<open>t\<close> is the reading of \<open>time.Now()\<close>; marshalling these structs cannot fail.\<close>

definition sd_ToSignal :: "go_time \<Rightarrow> session_description \<Rightarrow> signal result" where
  "sd_ToSignal t s = Inr \<lparr>sig_type = sd_type s, sig_payload = Some (enc_session_description s),
     sig_timestamp = t, sig_from = '''', sig_to = ''''\<rparr>"

definition sc_ToSignal :: "go_time \<Rightarrow> sdp_candidate \<Rightarrow> signal result" where
  "sc_ToSignal t c = Inr \<lparr>sig_type = TypeICE, sig_payload = Some (enc_sdp_candidate c),
     sig_timestamp = t, sig_from = '''', sig_to = ''''\<rparr>"

definition ParseSessionDescription :: "signal \<Rightarrow> session_description result" where
  "ParseSessionDescription s =
     wrap_err ''unmarshal session description'' (unmarshal_raw dec_session_description (sig_payload s))"

definition ParseICECandidate :: "signal \<Rightarrow> sdp_candidate result" where
  "ParseICECandidate s =
     wrap_err ''unmarshal ice candidate'' (unmarshal_raw dec_sdp_candidate (sig_payload s))"

section \<open>Codecs\<close>

interpretation session: json_codec enc_session_description dec_session_description session_ok
  by unfold_locales
     (simp add: dec_session_description_def enc_session_description_def session_ok_def json_simps upper_char_def)

interpretation candidate: json_codec enc_sdp_candidate dec_sdp_candidate sdp_candidate_ok
proof
  fix c assume "sdp_candidate_ok c"
  then show "dec_sdp_candidate (enc_sdp_candidate c) = Inr c"
    by (cases c)
       (simp add: dec_sdp_candidate_def enc_sdp_candidate_def sdp_candidate_ok_def omit_empty_def
         json_simps upper_char_def)
qed

interpretation signal: json_codec enc_signal dec_signal signal_ok
proof
  fix s assume "signal_ok s"
  then show "dec_signal (enc_signal s) = Inr s"
    by (cases s)
       (auto simp add: dec_signal_def enc_signal_def signal_ok_def zero_signal_def omit_empty_def
         enc_raw_def json_simps upper_char_def)
qed

text \<open>A description or candidate put into a signal is what the parser finds in it.\<close>

lemma parse_ToSignal:
  "session_ok s \<Longrightarrow> rbind (sd_ToSignal t s) ParseSessionDescription = Inr s"
  by (simp add: sd_ToSignal_def ParseSessionDescription_def session.dec_enc)

lemma parse_candidate_ToSignal:
  "sdp_candidate_ok c \<Longrightarrow> rbind (sc_ToSignal t c) ParseICECandidate = Inr c"
  by (simp add: sc_ToSignal_def ParseICECandidate_def candidate.dec_enc)

lemma ToSignal_ok: "time_ok t \<Longrightarrow> sd_ToSignal t s = Inr sg \<Longrightarrow> signal_ok sg \<and> sig_type sg = sd_type s"
  by (auto simp: sd_ToSignal_def signal_ok_def)

end
