(* ===== verification/Wire.thy ===== *)
theory Wire
  imports SigMessage Transport
begin

text \<open>
  The wire contract: the server (\<^verbatim>\<open>internal/signaling\<close>) and the client library
  (\<^verbatim>\<open>pkg/p2p/transport\<close>) declare their own structs for the same messages. Each
  interpretation of \<open>json_link\<close> says that what one side encodes, the other side decodes to
  the corresponding value.
\<close>

definition ws_view :: "message \<Rightarrow> ws_message" where
  "ws_view m = \<lparr>t_type = m_type m, t_from = m_from m, t_to = m_to m, t_data = m_data m,
     t_timestamp = m_timestamp m\<rparr>"

definition server_view :: "ws_message \<Rightarrow> message" where
  "server_view m = \<lparr>m_type = t_type m, m_from = t_from m, m_to = t_to m, m_data = t_data m,
     m_timestamp = t_timestamp m\<rparr>"

definition ws_peer_view :: "peer_info \<Rightarrow> ws_peer_info" where
  "ws_peer_view p = \<lparr>wp_id = pi_id p, wp_joined_at = pi_joined_at p\<rparr>"

definition ws_message_ok :: "ws_message \<Rightarrow> bool" where
  "ws_message_ok m \<longleftrightarrow> in_int 64 (t_timestamp m) \<and> t_data m \<noteq> None"

lemma ws_view_simps [simp]:
  "t_type (ws_view m) = m_type m" "t_from (ws_view m) = m_from m" "t_to (ws_view m) = m_to m"
  "t_data (ws_view m) = m_data m" "t_timestamp (ws_view m) = m_timestamp m"
  by (simp_all add: ws_view_def)

lemma ws_peer_view_simps [simp]:
  "wp_id (ws_peer_view p) = pi_id p" "wp_joined_at (ws_peer_view p) = pi_joined_at p"
  by (simp_all add: ws_peer_view_def)

interpretation to_client: json_link enc_message dec_ws_message message_ok ws_view
proof
  fix m assume "message_ok m"
  then show "dec_ws_message (enc_message m) = Inr (ws_view m)"
    by (cases m)
       (auto simp: dec_ws_message_def enc_message_def ws_view_def message_ok_def omit_empty_def
         enc_raw_def json_simps upper_char_def)
qed

interpretation to_server: json_link enc_ws_message dec_message ws_message_ok server_view
proof
  fix m assume "ws_message_ok m"
  then show "dec_message (enc_ws_message m) = Inr (server_view m)"
    by (cases m)
       (auto simp: dec_message_def enc_ws_message_def message_fields_def zero_message_def
         server_view_def ws_message_ok_def omit_empty_def enc_raw_def json_simps upper_char_def)
qed

lemma dec_ws_peer_enc:
  "peer_info_ok p \<Longrightarrow> dec_struct ws_peer_fields (enc_peer_info p) q = Inr (ws_peer_view p)"
  by (simp add: ws_peer_fields_def enc_peer_info_def peer_info_ok_def ws_peer_view_def json_simps
      upper_char_def)

lemma dec_elems_ws_peers:
  "list_all peer_info_ok ps \<Longrightarrow>
   dec_elems ws_peer_fields zero_ws_peer [] (map enc_peer_info ps) = Inr (map ws_peer_view ps)"
  by (induction ps) (auto simp: dec_ws_peer_enc)

interpretation peer_list_link: json_link enc_peer_list dec_peers peer_list_ok
  "\<lambda>d. map ws_peer_view (pl_peers d)"
  by unfold_locales
     (simp add: dec_peers_def enc_peer_list_def peer_list_ok_def json_simps dec_elems_ws_peers)

interpretation joined_left_link: json_link enc_joined_left dec_peer joined_left_ok
  "\<lambda>d. ws_peer_view (jl_peer d)"
  by unfold_locales
     (simp add: dec_peer_def enc_joined_left_def joined_left_ok_def json_simps dec_ws_peer_enc)

interpretation registered_link: json_link enc_registered dec_peer_id "\<lambda>_. True" rd_peer_id
  by unfold_locales (simp add: dec_peer_id_def enc_registered_def json_simps)

interpretation error_link: json_link enc_error_data dec_error "\<lambda>_. True"
  "\<lambda>d. (er_message d, er_code d)"
  by unfold_locales (simp add: dec_error_def enc_error_data_def json_simps upper_char_def)

end
