(* ===== verification/P2PClient.thy ===== *)
theory P2PClient
  imports Sdp Wire IceConnection
begin

text \<open>
  \<^verbatim>\<open>pkg/p2p/client.go\<close>: the high-level client. It owns a transport, remembers the peers
  the server announced, and hands signals and peer events to the application.

  Each handler ends with at most one call of the application's callback, which is returned
  (\<open>app_call\<close>). \<open>Client.mu\<close> is modelled, because \<open>handlePeerEvent\<close> makes its callback
  while it holds the lock: it returns the client as it is during that call, and
  \<open>handlePeerEvent_return\<close> is the deferred unlock. A map \<open>map[string]bool\<close> is a partial
  function; \<open>Peers\<close> takes the order of its iteration.
\<close>

section \<open>State\<close>

record peer_event =
  pe_type :: string
  pe_peer_id :: string
  pe_peers :: "string list"

record client =
  transport :: ws_client
  cl_handler :: bool
  cl_peer_handler :: bool
  cl_mu :: rwmutex
  cl_peers :: "string \<rightharpoonup> bool"

datatype app_call = CallSignal string signal | CallPeerEvent peer_event

definition new_client :: "string \<Rightarrow> client" where
  "new_client url =
     \<lparr>transport = SetPeerHandler (SetHandler (NewWebSocketClient (DefaultConfig url))),
      cl_handler = False, cl_peer_handler = False, cl_mu = free_mutex, cl_peers = Map.empty\<rparr>"

definition client_Connect ::
  "(string \<Rightarrow> string result) \<Rightarrow> (string \<Rightarrow> ws_conn result) \<Rightarrow> string \<Rightarrow> client result" where
  "client_Connect parse dial url =
     (let c = new_client url;
          (r, t) = ws_Connect parse dial (transport c)
      in case wrap_err ''connect to server'' r of
           Inl e \<Rightarrow> Inl e
         | Inr u \<Rightarrow> Inr (c\<lparr>transport := t\<rparr>))"

definition client_Close :: "client \<Rightarrow> client outcome" where
  "client_Close c = obind (ws_Close (transport c)) (\<lambda>t. Done (c\<lparr>transport := t\<rparr>))"

definition MyID :: "client \<Rightarrow> string" where
  "MyID c = ws_MyID (transport c)"

section \<open>Sending\<close>

definition send_signal ::
  "(frame \<Rightarrow> error option) \<Rightarrow> int \<Rightarrow> string \<Rightarrow> signal \<Rightarrow> client \<Rightarrow> unit result \<times> client" where
  "send_signal wr t to sg c =
     (let (r, tr) = ws_Send wr t to (Inr (enc_signal sg)) (transport c) in (r, c\<lparr>transport := tr\<rparr>))"

text \<open>The clock is read twice: \<open>tm\<close> for the signal, \<open>t\<close> (Unix seconds) for the envelope.\<close>

definition SendOffer ::
  "(frame \<Rightarrow> error option) \<Rightarrow> go_time \<Rightarrow> int \<Rightarrow> string \<Rightarrow> session_description \<Rightarrow> client \<Rightarrow>
   unit result \<times> client" where
  "SendOffer wr tm t to offer c =
     (case wrap_err ''convert offer to signal'' (sd_ToSignal tm offer) of
        Inl e \<Rightarrow> (Inl e, c)
      | Inr sg \<Rightarrow> send_signal wr t to sg c)"

definition SendAnswer ::
  "(frame \<Rightarrow> error option) \<Rightarrow> go_time \<Rightarrow> int \<Rightarrow> string \<Rightarrow> session_description \<Rightarrow> client \<Rightarrow>
   unit result \<times> client" where
  "SendAnswer wr tm t to answer c =
     (case wrap_err ''convert answer to signal'' (sd_ToSignal tm answer) of
        Inl e \<Rightarrow> (Inl e, c)
      | Inr sg \<Rightarrow> send_signal wr t to sg c)"

definition SendICECandidate ::
  "(frame \<Rightarrow> error option) \<Rightarrow> go_time \<Rightarrow> int \<Rightarrow> string \<Rightarrow> sdp_candidate \<Rightarrow> client \<Rightarrow>
   unit result \<times> client" where
  "SendICECandidate wr tm t to cand c =
     (case wrap_err ''convert candidate to signal'' (sc_ToSignal tm cand) of
        Inl e \<Rightarrow> (Inl e, c)
      | Inr sg \<Rightarrow> send_signal wr t to sg c)"

record ice_candidate_msg =
  im_type :: string
  im_candidate :: raw

definition enc_ice_msg :: "ice_candidate_msg \<Rightarrow> json" where
  "enc_ice_msg m = JObj [(''type'', JStr (im_type m)), (''candidate'', enc_raw (im_candidate m))]"

definition dec_ice_msg :: "json \<Rightarrow> ice_candidate_msg result" where
  "dec_ice_msg j = dec_struct
     [string_field ''type'' (\<lambda>s m. m\<lparr>im_type := s\<rparr>),
      raw_field ''candidate'' (\<lambda>r m. m\<lparr>im_candidate := r\<rparr>)] j
     \<lparr>im_type = '''', im_candidate = None\<rparr>"

interpretation ice_msg: json_codec enc_ice_msg dec_ice_msg "\<lambda>m. im_candidate m \<noteq> None"
proof
  fix m :: ice_candidate_msg assume "im_candidate m \<noteq> None"
  then show "dec_ice_msg (enc_ice_msg m) = Inr m"
    by (cases m) (auto simp: dec_ice_msg_def enc_ice_msg_def enc_raw_def json_simps)
qed

definition SendICECandidateJSON ::
  "(frame \<Rightarrow> error option) \<Rightarrow> go_time \<Rightarrow> int \<Rightarrow> string \<Rightarrow> candidate \<Rightarrow> client \<Rightarrow>
   unit result \<times> client" where
  "SendICECandidateJSON wr tm t to cand c =
     (case wrap_err ''marshal candidate'' (CandidateToJSON cand) of
        Inl e \<Rightarrow> (Inl e, c)
      | Inr j \<Rightarrow>
          (let payload = enc_ice_msg \<lparr>im_type = ''ice-candidate'', im_candidate = Some j\<rparr>;
               sg = \<lparr>sig_type = TypeICE, sig_payload = Some payload, sig_timestamp = tm,
                 sig_from = '''', sig_to = ''''\<rparr>
           in send_signal wr t to sg c))"

definition NewICEAgent :: "gatherer_config \<Rightarrow> client \<Rightarrow> agent" where
  "NewICEAgent cfg c = NewAgent cfg"

section \<open>Callbacks and queries\<close>

definition OnSignal :: "client \<Rightarrow> client outcome" where
  "OnSignal c =
     obind (rw_Lock (cl_mu c)) (\<lambda>m. obind (rw_Unlock m) (\<lambda>m'.
       Done (c\<lparr>cl_handler := True, cl_mu := m'\<rparr>)))"

definition OnPeerEvent :: "client \<Rightarrow> client outcome" where
  "OnPeerEvent c =
     obind (rw_Lock (cl_mu c)) (\<lambda>m. obind (rw_Unlock m) (\<lambda>m'.
       Done (c\<lparr>cl_peer_handler := True, cl_mu := m'\<rparr>)))"

definition Peers :: "string list \<Rightarrow> client \<Rightarrow> (string list \<times> client) outcome" where
  "Peers ord c =
     obind (rw_RLock (cl_mu c)) (\<lambda>m. obind (rw_RUnlock m) (\<lambda>m'.
       Done (filter (\<lambda>i. cl_peers c i \<noteq> None) ord, c\<lparr>cl_mu := m'\<rparr>)))"

section \<open>Incoming messages\<close>

text \<open>The signal in a message, or a plain one around the raw data when there is none.\<close>

definition signal_of :: "ws_message \<Rightarrow> signal" where
  "signal_of msg =
     (case unmarshal_raw dec_signal (t_data msg) of
        Inl e \<Rightarrow> zero_signal\<lparr>sig_type := t_type msg, sig_payload := t_data msg\<rparr>
      | Inr s \<Rightarrow> s)\<lparr>sig_from := t_from msg\<rparr>"

definition handleTransportMessage :: "ws_message \<Rightarrow> client \<Rightarrow> (client \<times> app_call option) outcome" where
  "handleTransportMessage msg c =
     obind (rw_RLock (cl_mu c)) (\<lambda>m. obind (rw_RUnlock m) (\<lambda>m'.
       Done (c\<lparr>cl_mu := m'\<rparr>,
         if cl_handler c then Some (CallSignal (t_from msg) (signal_of msg)) else None)))"

definition peer_call :: "client \<Rightarrow> peer_event \<Rightarrow> app_call option" where
  "peer_call c ev = (if cl_peer_handler c then Some (CallPeerEvent ev) else None)"

definition handlePeerEvent :: "ws_event \<Rightarrow> client \<Rightarrow> (client \<times> app_call option) outcome" where
  "handlePeerEvent ev c0 =
     obind (rw_Lock (cl_mu c0)) (\<lambda>m.
       let c = c0\<lparr>cl_mu := m\<rparr> in
       if we_type ev = ''joined'' then
         (let i = wp_id (we_peer ev) in
          Done (c\<lparr>cl_peers := (cl_peers c)(i \<mapsto> True)\<rparr>,
            peer_call c \<lparr>pe_type = ''joined'', pe_peer_id = i, pe_peers = []\<rparr>))
       else if we_type ev = ''left'' then
         (let i = wp_id (we_peer ev) in
          Done (c\<lparr>cl_peers := (cl_peers c)(i := None)\<rparr>,
            peer_call c \<lparr>pe_type = ''left'', pe_peer_id = i, pe_peers = []\<rparr>))
       else if we_type ev = ''list'' then
         (let ids = map wp_id (we_peers ev) in
          Done (c\<lparr>cl_peers := fold (\<lambda>i ps. ps(i \<mapsto> True)) ids (cl_peers c)\<rparr>,
            peer_call c \<lparr>pe_type = ''list'', pe_peer_id = '''', pe_peers = ids\<rparr>))
       else Done (c, None))"

definition handlePeerEvent_return :: "client \<Rightarrow> client outcome" where
  "handlePeerEvent_return c = obind (rw_Unlock (cl_mu c)) (\<lambda>m. Done (c\<lparr>cl_mu := m\<rparr>))"

definition ParseOffer :: "signal \<Rightarrow> session_description result" where
  "ParseOffer s = ParseSessionDescription s"

definition ParseAnswer :: "signal \<Rightarrow> session_description result" where
  "ParseAnswer s = ParseSessionDescription s"

definition parser_ParseICECandidate :: "signal \<Rightarrow> sdp_candidate result" where
  "parser_ParseICECandidate s = ParseICECandidate s"

section \<open>A message from the socket to the application\<close>

text \<open>
  A message that \<open>readPump\<close> received: the transport's \<open>handleMessage\<close>, then the client's
  handler it calls. An application callback that does not itself use the client's lock is
  assumed, so the lock is released right after it.
\<close>

definition deliver_event :: "ws_event \<Rightarrow> client \<Rightarrow> (client \<times> app_call option) outcome" where
  "deliver_event ev c =
     obind (handlePeerEvent ev c) (\<lambda>(c', call).
       obind (handlePeerEvent_return c') (\<lambda>c''. Done (c'', call)))"

definition dispatch :: "ws_message \<Rightarrow> client \<Rightarrow> (client \<times> app_call option) outcome" where
  "dispatch msg c =
     (let (tr, cb) = handleMessage msg (transport c); c1 = c\<lparr>transport := tr\<rparr> in
      case cb of
        None \<Rightarrow> Done (c1, None)
      | Some (CallHandler m) \<Rightarrow> handleTransportMessage m c1
      | Some (CallPeerHandler ev) \<Rightarrow> deliver_event ev c1)"

primrec dispatch_all :: "ws_message list \<Rightarrow> client \<Rightarrow> client outcome" where
  "dispatch_all [] c = Done c"
| "dispatch_all (m # ms) c = obind (dispatch m c) (\<lambda>(c', call). dispatch_all ms c')"

section \<open>Lemmas\<close>

text \<open>A client as \<open>Connect\<close> returns it: callbacks from the transport set, lock free.\<close>

definition ready :: "client \<Rightarrow> bool" where
  "ready c \<longleftrightarrow> cl_mu c = free_mutex \<and> ws_handler (transport c) \<and> ws_peer_handler (transport c)"

lemma ready_new_client: "ready (new_client url)"
  by (simp add: ready_def new_client_def SetPeerHandler_def SetHandler_def)

lemma client_mu_same [simp]: "cl_mu c = m \<Longrightarrow> c\<lparr>cl_mu := m\<rparr> = c"
  by (cases c) simp

lemma client_transport_same [simp]: "transport c = t \<Longrightarrow> c\<lparr>transport := t\<rparr> = c"
  by (cases c) simp

lemma handleTransportMessage_ready:
  "ready c \<Longrightarrow> handleTransportMessage msg c =
     Done (c, if cl_handler c then Some (CallSignal (t_from msg) (signal_of msg)) else None)"
  by (simp add: handleTransportMessage_def ready_def go_simps)

text \<open>What an event does to the remembered peers.\<close>

definition after_event :: "ws_event \<Rightarrow> (string \<rightharpoonup> bool) \<Rightarrow> (string \<rightharpoonup> bool)" where
  "after_event ev ps =
     (if we_type ev = ''joined'' then ps(wp_id (we_peer ev) \<mapsto> True)
      else if we_type ev = ''left'' then ps(wp_id (we_peer ev) := None)
      else if we_type ev = ''list'' then fold (\<lambda>i ps. ps(i \<mapsto> True)) (map wp_id (we_peers ev)) ps
      else ps)"

definition event_call :: "ws_event \<Rightarrow> client \<Rightarrow> app_call option" where
  "event_call ev c =
     (if we_type ev \<in> {''joined'', ''left''} then
        peer_call c \<lparr>pe_type = we_type ev, pe_peer_id = wp_id (we_peer ev), pe_peers = []\<rparr>
      else if we_type ev = ''list'' then
        peer_call c \<lparr>pe_type = ''list'', pe_peer_id = '''', pe_peers = map wp_id (we_peers ev)\<rparr>
      else None)"

lemma client_eta:
  "cl_mu c = free_mutex \<Longrightarrow> c\<lparr>cl_mu := free_mutex, cl_peers := ps\<rparr> = c\<lparr>cl_peers := ps\<rparr>"
  "cl_peers c = ps \<Longrightarrow> c\<lparr>cl_peers := ps\<rparr> = c"
  by (cases c; simp)+

lemma deliver_event_ready:
  "ready c \<Longrightarrow> deliver_event ev c = Done (c\<lparr>cl_peers := after_event ev (cl_peers c)\<rparr>, event_call ev c)"
  by (simp add: deliver_event_def handlePeerEvent_def handlePeerEvent_return_def ready_def go_simps
      Let_def after_event_def event_call_def peer_call_def client_eta)

lemma ready_cl_peers [simp]: "ready (c\<lparr>cl_peers := ps\<rparr>) = ready c"
  by (simp add: ready_def)

lemma Peers_ready: "ready c \<Longrightarrow> Peers ord c = Done (filter (\<lambda>i. cl_peers c i \<noteq> None) ord, c)"
  by (simp add: Peers_def ready_def go_simps)

lemma dispatch_signal:
  "ready c \<Longrightarrow> t_type msg = MsgSignal \<Longrightarrow> dispatch msg c =
     Done (c, if cl_handler c then Some (CallSignal (t_from msg) (signal_of msg)) else None)"
  by (simp add: dispatch_def handleMessage_def ws_type_defs handleTransportMessage_ready,
      simp add: ready_def handleTransportMessage_ready)

end
