(* ===== verification/PeerView.thy ===== *)
theory PeerView
  imports HubOrder P2PClient
begin

text \<open>
  The hub and the client library together: the set of peers a client reports is the set of
  peers connected to the hub, less itself.

  \<open>net\<close> is a hub with one client per registered identifier. Its steps are a turn of the
  hub, and a client receiving the next message of its channel, encoded by the server and
  decoded by the client. \<open>learn\<close> is what one message does to the set of known peers. The
  invariant says that a client's known peers, once it has taken in what is still in its
  channel, are the hub's table without the client. It needs that no buffer is full when the
  hub sends (a full buffer loses the message) and that clients do not send messages of the
  server's own types (the server does not stop them).
\<close>

section \<open>One message at a client\<close>

definition receive_frame :: "json \<Rightarrow> client \<Rightarrow> (client \<times> app_call option) outcome" where
  "receive_frame j c =
     (case unmarshal_raw dec_ws_message (Some j) of Inl e \<Rightarrow> Done (c, None) | Inr m \<Rightarrow> dispatch m c)"

definition learn :: "message \<Rightarrow> string set \<Rightarrow> string set" where
  "learn m S =
     (let d = Some (enc_raw (m_data m)) in
      if m_type m = PeerList then
        (case unmarshal_raw dec_peers d of Inl e \<Rightarrow> S | Inr ps \<Rightarrow> S \<union> wp_id ` set ps)
      else if m_type m = PeerJoined then
        (case unmarshal_raw dec_peer d of Inl e \<Rightarrow> S | Inr p \<Rightarrow> insert (wp_id p) S)
      else if m_type m = PeerLeft then
        (case unmarshal_raw dec_peer d of Inl e \<Rightarrow> S | Inr p \<Rightarrow> S - {wp_id p})
      else S)"

lemma dec_ws_enc:
  "in_int 64 (m_timestamp m) \<Longrightarrow>
   dec_ws_message (enc_message m) = Inr ((ws_view m)\<lparr>t_data := Some (enc_raw (m_data m))\<rparr>)"
  by (cases m)
     (auto simp: dec_ws_message_def enc_message_def ws_view_def omit_empty_def json_simps upper_char_def)

lemma dom_fold_insert: "dom (fold (\<lambda>i ps. ps(i \<mapsto> True)) ids m) = dom m \<union> set ids"
  by (induction ids arbitrary: m) auto

lemma server_type_names:
  "MsgPeerRegistered = PeerRegistered" "MsgPeerList = PeerList" "MsgPeerJoined = PeerJoined"
  "MsgPeerLeft = PeerLeft" "MsgSignal = Signal" "MsgError = Error"
  by (simp_all add: ws_type_defs msg_type_defs)

lemma type_names_distinct [simp]:
  "PeerRegistered \<noteq> PeerList" "PeerRegistered \<noteq> PeerJoined" "PeerRegistered \<noteq> PeerLeft" "PeerRegistered \<noteq> Signal" "PeerRegistered \<noteq> Error"
  "PeerList \<noteq> PeerRegistered" "PeerList \<noteq> PeerJoined" "PeerList \<noteq> PeerLeft" "PeerList \<noteq> Signal" "PeerList \<noteq> Error"
  "PeerJoined \<noteq> PeerRegistered" "PeerJoined \<noteq> PeerList" "PeerJoined \<noteq> PeerLeft" "PeerJoined \<noteq> Signal" "PeerJoined \<noteq> Error"
  "PeerLeft \<noteq> PeerRegistered" "PeerLeft \<noteq> PeerList" "PeerLeft \<noteq> PeerJoined" "PeerLeft \<noteq> Signal" "PeerLeft \<noteq> Error"
  "Signal \<noteq> PeerRegistered" "Signal \<noteq> PeerList" "Signal \<noteq> PeerJoined" "Signal \<noteq> PeerLeft" "Signal \<noteq> Error"
  "Error \<noteq> PeerRegistered" "Error \<noteq> PeerList" "Error \<noteq> PeerJoined" "Error \<noteq> PeerLeft" "Error \<noteq> Signal"
  by (simp_all add: msg_type_defs)

lemma dom_after_event:
  "dom (after_event ev ps) =
     (if we_type ev = ''joined'' then insert (wp_id (we_peer ev)) (dom ps)
      else if we_type ev = ''left'' then dom ps - {wp_id (we_peer ev)}
      else if we_type ev = ''list'' then dom ps \<union> wp_id ` set (we_peers ev)
      else dom ps)"
  by (auto simp: after_event_def dom_fold_insert simp del: fold_map)

lemma ready_my_id [simp]:
  "ready (c\<lparr>transport := (transport c)\<lparr>ws_my_id := i\<rparr>\<rparr>) = ready c"
  by (simp add: ready_def)

lemma receive_effect:
  assumes c: "ready c" and t: "in_int 64 (m_timestamp m)"
  shows "\<exists>c' call. receive_frame (enc_message m) c = Done (c', call) \<and> ready c' \<and>
    dom (cl_peers c') = learn m (dom (cl_peers c))"
proof -
  have h: "ws_handler (transport c)" "ws_peer_handler (transport c)"
    using c by (simp_all add: ready_def)
  show ?thesis
    by (simp add: receive_frame_def dec_ws_enc[OF t] dispatch_def handleMessage_def h
        server_type_names learn_def Let_def call_peer_def zero_event_def c
        handleTransportMessage_ready deliver_event_ready dom_after_event split: sum.split)
qed

section \<open>The hub's own messages\<close>

lemma learn_joined:
  "in_int 64 (joined_at p) \<Longrightarrow> learn (joinedMsg t p) S = insert (peer_id p) S"
  by (simp add: learn_def joinedMsg_def enc_raw_def joined_left_link.dec_enc joined_left_ok_def
      peer_info_ok_def)

lemma learn_left: "learn (leftMsg t p) S = S - {peer_id p}"
  by (simp add: learn_def leftMsg_def enc_raw_def joined_left_link.dec_enc joined_left_ok_def
      peer_info_ok_def)

lemma learn_list:
  "list_all peer_info_ok infos \<Longrightarrow> learn (listMsg t infos) S = S \<union> pi_id ` set infos"
  by (simp add: learn_def listMsg_def enc_raw_def peer_list_link.dec_enc peer_list_ok_def image_image)

lemma learn_other:
  "m_type m \<notin> {PeerList, PeerJoined, PeerLeft} \<Longrightarrow> learn m S = S"
  by (auto simp: learn_def Let_def)

lemma learn_reg: "learn (regMsg t p) S = S"
  by (rule learn_other) (simp add: regMsg_def)

lemma learn_err: "learn (errMsg t m) S = S"
  by (rule learn_other) (simp add: errMsg_def)

lemma hub_timestamps [simp]:
  "m_timestamp (regMsg t p) = t" "m_timestamp (listMsg t infos) = t"
  "m_timestamp (joinedMsg t p) = t" "m_timestamp (leftMsg t p) = t" "m_timestamp (errMsg t m) = t"
  by (simp_all add: regMsg_def listMsg_def joinedMsg_def leftMsg_def errMsg_def)

lemma peer_infos_ids:
  assumes "visits ids tbl"
  shows "pi_id ` set (peer_infos self ids tbl) = dom tbl - {self}"
proof (rule set_eqI)
  fix i
  have "i \<in> pi_id ` set (peer_infos self ids tbl) \<longleftrightarrow>
      (\<exists>x. x \<in> set (peer_infos self ids tbl) \<and> i = pi_id x)"
    by auto
  also have "\<dots> \<longleftrightarrow> (\<exists>j p. j \<in> set ids \<and> tbl j = Some p \<and> j \<noteq> self \<and>
      i = pi_id \<lparr>pi_id = j, pi_joined_at = joined_at p\<rparr>)"
    unfolding peer_infos_mem by blast
  also have "\<dots> \<longleftrightarrow> i \<in> set ids \<and> tbl i \<noteq> None \<and> i \<noteq> self"
    by auto
  finally show "i \<in> pi_id ` set (peer_infos self ids tbl) \<longleftrightarrow> i \<in> dom tbl - {self}"
    using assms by (auto simp: visits_def)
qed

lemma peer_infos_ok:
  assumes "\<And>i p. tbl i = Some p \<Longrightarrow> in_int 64 (joined_at p)"
  shows "list_all peer_info_ok (peer_infos self ids tbl)"
  unfolding list_all_iff
proof
  fix x assume "x \<in> set (peer_infos self ids tbl)"
  then show "peer_info_ok x"
    using assms unfolding peer_infos_mem by (auto simp: peer_info_ok_def)
qed

section \<open>The net\<close>

record net =
  n_hub :: hub
  n_clients :: "string \<Rightarrow> client"

text \<open>
  The conditions of a turn: no registered buffer is full, the clock is one of Go, and a
  client's message is not one of the three types that only the server should send.
\<close>

definition roomy :: "hub \<Rightarrow> bool" where
  "roomy h \<longleftrightarrow> (\<forall>i p. peers h i = Some p \<longrightarrow> \<not> full (chans h (peer_send p)))"

fun polite :: "hub_event \<Rightarrow> bool" where
  "polite (Register p) \<longleftrightarrow> in_int 64 (joined_at p)"
| "polite (Unregister p) \<longleftrightarrow> True"
| "polite (Broadcast m) \<longleftrightarrow>
     in_int 64 (m_timestamp m) \<and> m_type m \<notin> {PeerList, PeerJoined, PeerLeft}"

text \<open>A registration comes with a new client, which knows no peers yet.\<close>

fun add_client :: "hub_event \<Rightarrow> client \<Rightarrow> (string \<Rightarrow> client) \<Rightarrow> (string \<Rightarrow> client)" where
  "add_client (Register p) c cs = cs(peer_id p := c)"
| "add_client (Unregister p) c cs = cs"
| "add_client (Broadcast m) c cs = cs"

definition pop :: "nat \<Rightarrow> hub \<Rightarrow> hub" where
  "pop r h = h\<lparr>chans := (chans h)(r := (chans h r)\<lparr>buf := tl (buf (chans h r))\<rparr>)\<rparr>"

inductive net_step :: "net \<Rightarrow> net \<Rightarrow> bool" where
  turn: "request_ok (e, ev) (n_hub s) \<Longrightarrow> roomy (n_hub s) \<Longrightarrow> clock_ok e \<Longrightarrow> polite ev \<Longrightarrow>
     hub_step e ev (n_hub s) = Done h \<Longrightarrow> ready c \<Longrightarrow> cl_peers c = Map.empty \<Longrightarrow>
     net_step s \<lparr>n_hub = h, n_clients = add_client ev c (n_clients s)\<rparr>"
| receive: "peers (n_hub s) i = Some p \<Longrightarrow> buf (chans (n_hub s) (peer_send p)) = m # ms \<Longrightarrow>
     receive_frame (enc_message m) (n_clients s i) = Done (c, call) \<Longrightarrow>
     net_step s \<lparr>n_hub = pop (peer_send p) (n_hub s), n_clients = (n_clients s)(i := c)\<rparr>"

inductive net_reachable :: "net \<Rightarrow> bool" where
  start: "net_reachable \<lparr>n_hub = NewHub cs, n_clients = clients\<rparr>"
| step: "net_reachable s \<Longrightarrow> net_step s t \<Longrightarrow> net_reachable t"

section \<open>The invariant of the net\<close>

text \<open>What a client will know when it has taken in the messages \<open>ms\<close>.\<close>

definition foresee :: "message list \<Rightarrow> string set \<Rightarrow> string set" where
  "foresee ms S = fold learn ms S"

lemma foresee_simps [simp]:
  "foresee [] S = S" "foresee (m # ms) S = foresee ms (learn m S)"
  "foresee (ms @ ns) S = foresee ns (foresee ms S)"
  by (simp_all add: foresee_def)

definition client_inv :: "net \<Rightarrow> string \<Rightarrow> peer \<Rightarrow> bool" where
  "client_inv s i p \<longleftrightarrow>
     in_int 64 (joined_at p) \<and> ready (n_clients s i) \<and>
     (\<forall>m \<in> set (buf (chans (n_hub s) (peer_send p))). in_int 64 (m_timestamp m)) \<and>
     foresee (buf (chans (n_hub s) (peer_send p))) (dom (cl_peers (n_clients s i))) =
       dom (peers (n_hub s)) - {i}"

definition net_inv :: "net \<Rightarrow> bool" where
  "net_inv s \<longleftrightarrow> hub_inv (n_hub s) \<and> (\<forall>i p. peers (n_hub s) i = Some p \<longrightarrow> client_inv s i p)"

lemma client_invD:
  assumes "client_inv s i p"
  shows "in_int 64 (joined_at p)" "ready (n_clients s i)"
    "m \<in> set (buf (chans (n_hub s) (peer_send p))) \<Longrightarrow> in_int 64 (m_timestamp m)"
    "foresee (buf (chans (n_hub s) (peer_send p))) (dom (cl_peers (n_clients s i))) =
       dom (peers (n_hub s)) - {i}"
  using assms by (simp_all add: client_inv_def)

text \<open>
  A delivery that keeps the table: the invariant survives when the message teaches nothing.
\<close>

lemma deliver_buf:
  assumes "hub_inv h" "roomy h" "peers h i = Some p"
  shows "buf (chans (deliver m S h) (peer_send p)) =
    buf (chans h (peer_send p)) @ (if i \<in> S then [m] else [])"
  using assms by (auto simp: deliver_chan roomy_def not_le)

lemma net_inv_deliver:
  assumes inv: "net_inv s" and roomy: "roomy (n_hub s)"
    and t: "in_int 64 (m_timestamp m)" and same: "\<And>T. learn m T = T"
  shows "net_inv \<lparr>n_hub = deliver m S (n_hub s), n_clients = n_clients s\<rparr>"
proof -
  have h: "hub_inv (n_hub s)" using inv by (simp add: net_inv_def)
  have "client_inv \<lparr>n_hub = deliver m S (n_hub s), n_clients = n_clients s\<rparr> i p"
    if p: "peers (n_hub s) i = Some p" for i p
  proof -
    have c: "client_inv s i p" using inv p by (simp add: net_inv_def)
    show ?thesis
      using client_invD[OF c] t by (auto simp: client_inv_def deliver_buf[OF h roomy p] same)
  qed
  with hub_inv_deliver[OF h] show ?thesis by (simp add: net_inv_def)
qed

section \<open>Every step keeps the invariant\<close>

lemma net_eta [simp]: "\<lparr>n_hub = n_hub s, n_clients = n_clients s\<rparr> = (s :: net)"
  by (cases s) simp

lemma net_invI:
  "hub_inv (n_hub s) \<Longrightarrow> (\<And>i p. peers (n_hub s) i = Some p \<Longrightarrow> client_inv s i p) \<Longrightarrow> net_inv s"
  by (simp add: net_inv_def)

lemma net_invD:
  assumes "net_inv s"
  shows "hub_inv (n_hub s)" "peers (n_hub s) i = Some p \<Longrightarrow> client_inv s i p"
  using assms by (simp_all add: net_inv_def)

text \<open>One client after a message was appended to its channel and the table became \<open>T\<close>.\<close>

lemma client_inv_append:
  assumes old: "client_inv s i p" and cl: "clients i = n_clients s i"
    and buf: "buf (chans h (peer_send p)) = buf (chans (n_hub s) (peer_send p)) @ [m]"
    and t: "in_int 64 (m_timestamp m)"
    and learn: "learn m (dom (peers (n_hub s)) - {i}) = dom (peers h) - {i}"
  shows "client_inv \<lparr>n_hub = h, n_clients = clients\<rparr> i p"
  using client_invD[OF old] t learn by (auto simp: client_inv_def buf cl)

lemma net_inv_register:
  assumes inv: "net_inv s" and roomy: "roomy (n_hub s)" and clock: "clock_ok e"
    and fresh: "fresh_peer (n_hub s) p" and joined: "in_int 64 (joined_at p)"
    and env: "env_ok e ((peers (n_hub s))(peer_id p \<mapsto> p))"
    and c: "ready c" "cl_peers c = Map.empty"
  shows "net_inv \<lparr>n_hub = deliver (joinedMsg (now e 2) p) (- {peer_id p}) (admit e p (n_hub s)),
    n_clients = (n_clients s)(peer_id p := c)\<rparr>"
    (is "net_inv \<lparr>n_hub = ?h, n_clients = ?cs\<rparr>")
proof (rule net_invI)
  let ?tbl = "(peers (n_hub s))(peer_id p \<mapsto> p)"
  have inv': "hub_inv (admit e p (n_hub s))"
    by (rule hub_inv_admit[OF net_invD(1)[OF inv] fresh])
  then show "hub_inv (n_hub \<lparr>n_hub = ?h, n_clients = ?cs\<rparr>)"
    by (simp add: hub_inv_deliver)
  have tbl: "peers (admit e p (n_hub s)) = ?tbl" by (simp add: admit_def Let_def)
  have roomy': "roomy (admit e p (n_hub s))"
    using roomy fresh_peer_other[OF fresh]
    by (auto simp: roomy_def admit_def Let_def greeting_def fresh_peerD(3)[OF fresh] sendCapacity_def)
  fix i q
  assume "peers (n_hub \<lparr>n_hub = ?h, n_clients = ?cs\<rparr>) i = Some q"
  then have q: "?tbl i = Some q" by (simp add: tbl)
  note buf = deliver_buf[OF inv' roomy' q[folded tbl], of "joinedMsg (now e 2) p"]
  show "client_inv \<lparr>n_hub = ?h, n_clients = ?cs\<rparr> i q"
  proof (cases "i = peer_id p")
    case True
    then have [simp]: "q = p" using q by simp
    have "in_int 64 (joined_at r)" if "?tbl j = Some r" for j r
      using that joined client_invD(1)[OF net_invD(2)[OF inv]] by (auto split: if_splits)
    then have "list_all peer_info_ok (peer_infos (peer_id p) (range_order e 0) ?tbl)"
      by (rule peer_infos_ok)
    moreover have "pi_id ` set (peer_infos (peer_id p) (range_order e 0) ?tbl) = dom ?tbl - {peer_id p}"
      using env by (intro peer_infos_ids) (simp add: env_ok_def)
    moreover have "buf (chans ?h (peer_send p)) = greeting e p ?tbl"
      using buf True by (simp add: admit_def Let_def)
    ultimately show ?thesis
      using clock joined c True tbl
      by (simp add: client_inv_def greeting_def learn_reg learn_list clock_ok_def del: One_nat_def)
  next
    case False
    then have p: "peers (n_hub s) i = Some q" using q by simp
    show ?thesis
    proof (rule client_inv_append[OF net_invD(2)[OF inv p], where m = "joinedMsg (now e 2) p"])
      show "buf (chans ?h (peer_send q)) =
          buf (chans (n_hub s) (peer_send q)) @ [joinedMsg (now e 2) p]"
        using False fresh_peer_other[OF fresh p] by (simp add: buf) (simp add: admit_def Let_def)
      show "learn (joinedMsg (now e 2) p) (dom (peers (n_hub s)) - {i}) = dom (peers ?h) - {i}"
        using False by (auto simp: learn_joined[OF joined] tbl)
    qed (use False clock in \<open>simp_all add: clock_ok_def\<close>)
  qed
qed

lemma net_inv_unregister:
  assumes inv: "net_inv s" and roomy: "roomy (n_hub s)" and clock: "clock_ok e"
    and own: "own_entry (n_hub s) p"
  shows "net_inv \<lparr>n_hub = deliver (leftMsg (now e 0) p) UNIV (evict p (n_hub s)),
    n_clients = n_clients s\<rparr>"
    (is "net_inv \<lparr>n_hub = ?h, n_clients = ?cs\<rparr>")
proof (rule net_invI)
  have h: "hub_inv (n_hub s)" by (rule net_invD(1)[OF inv])
  have inv': "hub_inv (evict p (n_hub s))"
    by (rule hub_inv_evict[OF h own])
  then show "hub_inv (n_hub \<lparr>n_hub = ?h, n_clients = ?cs\<rparr>)"
    by (simp add: hub_inv_deliver)
  have same: "chans (evict p (n_hub s)) (peer_send q) = chans (n_hub s) (peer_send q)"
    if "peers (n_hub s) i = Some q" "i \<noteq> peer_id p" for i q
    using that own hub_inv_inj[OF h, of i q "peer_id p" p]
    by (auto simp: evict_def own_entry_def split: option.split)
  have roomy': "roomy (evict p (n_hub s))"
    using roomy same by (auto simp: roomy_def split: if_splits)
  fix i q
  assume "peers (n_hub \<lparr>n_hub = ?h, n_clients = ?cs\<rparr>) i = Some q"
  then have q: "peers (evict p (n_hub s)) i = Some q" by simp
  then have p: "peers (n_hub s) i = Some q" "i \<noteq> peer_id p" by (auto split: if_splits)
  show "client_inv \<lparr>n_hub = ?h, n_clients = ?cs\<rparr> i q"
  proof (rule client_inv_append[OF net_invD(2)[OF inv p(1)], where m = "leftMsg (now e 0) p"])
    show "buf (chans ?h (peer_send q)) = buf (chans (n_hub s) (peer_send q)) @ [leftMsg (now e 0) p]"
      by (simp add: deliver_buf[OF inv' roomy' q] same[OF p])
    show "learn (leftMsg (now e 0) p) (dom (peers (n_hub s)) - {i}) = dom (peers ?h) - {i}"
      by (auto simp: learn_left)
  qed (use clock in \<open>simp_all add: clock_ok_def\<close>)
qed

lemma net_inv_turn:
  assumes inv: "net_inv s" and ok: "request_ok (e, ev) (n_hub s)" and roomy: "roomy (n_hub s)"
    and clock: "clock_ok e" and polite: "polite ev" and step: "hub_step e ev (n_hub s) = Done h"
    and c: "ready c" "cl_peers c = Map.empty"
  shows "net_inv \<lparr>n_hub = h, n_clients = add_client ev c (n_clients s)\<rparr>"
  using net_invD(1)[OF inv] ok
proof (cases rule: hub_step_cases)
  case (register p)
  then show ?thesis
    using step ok polite net_inv_register[OF inv roomy clock _ _ _ c, of p]
    by (auto simp: request_ok_def)
next
  case (unregister p)
  then show ?thesis
    using step net_inv_unregister[OF inv roomy clock, of p] by auto
qed (use step polite clock inv in
  \<open>auto intro!: net_inv_deliver roomy simp: learn_other learn_err clock_ok_def split: if_splits\<close>)

lemma pop_simps [simp]:
  "peers (pop r h) = peers h"
  "chans (pop r h) = (chans h)(r := (chans h r)\<lparr>buf := tl (buf (chans h r))\<rparr>)"
  by (simp_all add: pop_def)

lemma hub_inv_pop:
  assumes inv: "hub_inv h"
  shows "hub_inv (pop r h)"
proof (rule hub_invI)
  fix i p
  assume p: "peers (pop r h) i = Some p"
  then show "chan_ok (chans (pop r h) (peer_send p))"
    using hub_inv_chan[OF inv, of i p] by (auto simp: chan_ok_def)
  show "peer_id p = i"
    using p by (simp add: hub_inv_id[OF inv])
next
  fix i j p q
  assume "peers (pop r h) i = Some p" "peers (pop r h) j = Some q" "peer_send p = peer_send q"
  then show "i = j" using hub_inv_inj[OF inv] by simp
qed (simp add: hub_inv_finite[OF inv])

lemma net_inv_receive:
  assumes inv: "net_inv s" and p: "peers (n_hub s) i = Some p"
    and buf: "buf (chans (n_hub s) (peer_send p)) = m # ms"
    and recv: "receive_frame (enc_message m) (n_clients s i) = Done (c, call)"
  shows "net_inv \<lparr>n_hub = pop (peer_send p) (n_hub s), n_clients = (n_clients s)(i := c)\<rparr>"
proof (rule net_invI)
  note h = net_invD(1)[OF inv]
  show "hub_inv (n_hub \<lparr>n_hub = pop (peer_send p) (n_hub s), n_clients = (n_clients s)(i := c)\<rparr>)"
    by (simp add: hub_inv_pop[OF h])
  note old = client_invD[OF net_invD(2)[OF inv p]]
  have "in_int 64 (m_timestamp m)" using old(3)[of m] by (simp add: buf)
  from receive_effect[OF old(2) this]
  have c: "ready c" "dom (cl_peers c) = learn m (dom (cl_peers (n_clients s i)))"
    using recv by auto
  fix j q
  assume "peers (n_hub \<lparr>n_hub = pop (peer_send p) (n_hub s), n_clients = (n_clients s)(i := c)\<rparr>) j = Some q"
  then have q: "peers (n_hub s) j = Some q" by simp
  show "client_inv \<lparr>n_hub = pop (peer_send p) (n_hub s), n_clients = (n_clients s)(i := c)\<rparr> j q"
  proof (cases "j = i")
    case True
    with p q have "q = p" by simp
    then show ?thesis using old c True by (simp add: client_inv_def buf)
  next
    case False
    then have "peer_send q \<noteq> peer_send p" using hub_inv_inj[OF h q p] by auto
    then show ?thesis
      using client_invD[OF net_invD(2)[OF inv q]] False by (simp add: client_inv_def)
  qed
qed

lemma net_reachable_inv: "net_reachable s \<Longrightarrow> net_inv s"
proof (induction rule: net_reachable.induct)
  case (start cs clients)
  show ?case by (rule net_invI) (simp_all add: hub_inv_NewHub, simp add: NewHub_def)
next
  case (step s t)
  from step(2) show ?case
    by cases (auto intro: net_inv_turn net_inv_receive step.IH)
qed

text \<open>A client can always take in the next message of its channel.\<close>

lemma net_receive_enabled:
  assumes "net_inv s" "peers (n_hub s) i = Some p"
    "buf (chans (n_hub s) (peer_send p)) = m # ms"
  shows "\<exists>c call. receive_frame (enc_message m) (n_clients s i) = Done (c, call)"
  using receive_effect[of "n_clients s i" m] client_invD[OF net_invD(2)[OF assms(1,2)]] assms(3)
  by auto

text \<open>A client that keeps reading catches up with the hub.\<close>

lemma net_drain:
  assumes "net_reachable s" "peers (n_hub s) i = Some p"
    "length (buf (chans (n_hub s) (peer_send p))) = n"
  shows "\<exists>t. net_reachable t \<and> peers (n_hub t) = peers (n_hub s) \<and> buf (chans (n_hub t) (peer_send p)) = []"
  using assms
proof (induction n arbitrary: s)
  case 0
  then show ?case by auto
next
  case (Suc n)
  then obtain m ms where b: "buf (chans (n_hub s) (peer_send p)) = m # ms"
    by (cases "buf (chans (n_hub s) (peer_send p))") auto
  obtain c call where r: "receive_frame (enc_message m) (n_clients s i) = Done (c, call)"
    using net_receive_enabled[OF net_reachable_inv[OF Suc.prems(1)] Suc.prems(2) b] by blast
  let ?t = "\<lparr>n_hub = pop (peer_send p) (n_hub s), n_clients = (n_clients s)(i := c)\<rparr>"
  have "net_reachable ?t"
    by (rule net_reachable.step[OF Suc.prems(1) net_step.receive[OF Suc.prems(2) b r]])
  from Suc.IH[OF this] Suc.prems(2,3) b show ?case by simp
qed

end
