(* ===== verification/Shell.thy ===== *)
theory Shell
  imports Sscanf
begin

text \<open>
  The functions of the package \<open>strings\<close> that the client's shell uses on a line of input:
  \<open>TrimSpace\<close>, \<open>Fields\<close> and \<open>Join\<close>, on strings as sequences of bytes. White space is what
  \<open>unicode.IsSpace\<close> says, in its UTF-8 encoding; since the first byte of such an encoding
  never occurs inside another character, looking at every position finds the same characters
  as decoding the string from its start. \<open>space_len\<close> is in \<^verbatim>\<open>Sscanf\<close>: the package \<open>fmt\<close> has the
  same white space.
\<close>

function TrimLeft :: "string \<Rightarrow> string" where
  "TrimLeft s = (if s \<noteq> [] \<and> 0 < space_len s then TrimLeft (drop (space_len s) s) else s)"
  by pat_completeness auto
termination
  by (relation "measure length") auto

declare TrimLeft.simps [simp del]

text \<open>Only white space is left exactly when trimming on the left leaves nothing.\<close>

primrec TrimRight :: "string \<Rightarrow> string" where
  "TrimRight [] = []"
| "TrimRight (c # cs) = (if TrimLeft (c # cs) = [] then [] else c # TrimRight cs)"

definition TrimSpace :: "string \<Rightarrow> string" where
  "TrimSpace s = TrimRight (TrimLeft s)"

text \<open>\<open>w\<close> is the field being read.\<close>

function fields_from :: "string \<Rightarrow> string \<Rightarrow> string list" where
  "fields_from w [] = (if w = [] then [] else [w])"
| "fields_from w (c # cs) =
     (if 0 < space_len (c # cs)
      then (if w = [] then [] else [w]) @ fields_from [] (drop (space_len (c # cs)) (c # cs))
      else fields_from (w @ [c]) cs)"
  by pat_completeness auto
termination
  by (relation "measure (\<lambda>(w, s). length s)") auto

definition Fields :: "string \<Rightarrow> string list" where
  "Fields s = fields_from [] s"

fun Join :: "string list \<Rightarrow> string \<Rightarrow> string" where
  "Join [] sep = []"
| "Join [x] sep = x"
| "Join (x # y # ys) sep = x @ sep @ Join (y # ys) sep"

section \<open>Lemmas\<close>

lemma space_len_Nil [simp]: "space_len [] = 0"
  by (simp add: space_len_def)

lemma space_len_blank [simp]: "space_len (CHR '' '' # s) = 1"
  by (simp add: space_len_def is_space_def)

lemma space_len_append: "0 < space_len s \<Longrightarrow> space_len (s @ t) = space_len s"
  by (auto simp: space_len_def split: list.splits if_splits)

lemma space_len_bound: "space_len s \<le> length s"
  by (auto simp: space_len_def split: list.split)

lemma TrimLeft_clean: "TrimLeft s = [] \<or> space_len (TrimLeft s) = 0"
proof (induction s rule: TrimLeft.induct)
  case (1 s)
  then show ?case by (subst (1 2) TrimLeft.simps) auto
qed

lemma TrimRight_prefix: "\<exists>t. s = TrimRight s @ t"
  by (induction s) auto

text \<open>A line that is not blank has a first field.\<close>

lemma fields_from_word: "w \<noteq> [] \<Longrightarrow> fields_from w s \<noteq> []"
  by (induction w s rule: fields_from.induct) auto

lemma Fields_nonblank: "TrimSpace s \<noteq> [] \<Longrightarrow> Fields (TrimSpace s) \<noteq> []"
proof -
  assume ne: "TrimSpace s \<noteq> []"
  then obtain c cs where eq: "TrimSpace s = c # cs" by (cases "TrimSpace s") auto
  obtain t where t: "TrimLeft s = TrimSpace s @ t"
    using TrimRight_prefix unfolding TrimSpace_def by blast
  then have "space_len (TrimLeft s) = 0"
    using TrimLeft_clean[of s] ne by auto
  then have "space_len (TrimSpace s) = 0"
    using space_len_append[of "TrimSpace s" t] t by (cases "space_len (TrimSpace s) = 0") auto
  then show ?thesis
    using fields_from_word[of "[c]" cs] by (simp add: Fields_def eq)
qed

text \<open>Words joined by single blanks are the fields of the result.\<close>

definition plain_word :: "string \<Rightarrow> bool" where
  "plain_word w \<longleftrightarrow> w \<noteq> [] \<and> list_all (\<lambda>c. 33 \<le> (of_char c :: nat) \<and> (of_char c :: nat) \<le> 126) w"

lemma space_len_word:
  assumes "33 \<le> (of_char c :: nat)" "(of_char c :: nat) \<le> 126"
  shows "space_len (c # s) = 0"
proof -
  have "c \<noteq> CHR 0xC2" "c \<noteq> CHR 0xE1" "c \<noteq> CHR 0xE2" "c \<noteq> CHR 0xE3" using assms by auto
  then show ?thesis
    using assms by (auto simp: space_len_def is_space_def space2_def space3_def split: list.split)
qed

lemma fields_from_step:
  "list_all (\<lambda>c. 33 \<le> (of_char c :: nat) \<and> (of_char c :: nat) \<le> 126) w \<Longrightarrow>
   fields_from v (w @ s) = fields_from (v @ w) s"
  by (induction w arbitrary: v) (auto simp: space_len_word)

lemma Fields_Join: "list_all plain_word ws \<Longrightarrow> Fields (Join ws '' '') = ws"
  unfolding Fields_def
proof (induction ws "'' ''" rule: Join.induct)
  case (2 x)
  then show ?case using fields_from_step[of x "[]" "[]"] by (simp add: plain_word_def)
next
  case (3 x y ys)
  then show ?case by (simp add: plain_word_def fields_from_step)
qed simp

end
