(* ===== verification/ClientApp.thy ===== *)
theory ClientApp
  imports P2PClient Shell LogLevel
begin

text \<open>
  \<^verbatim>\<open>cmd/client/main.go\<close>: the demo client. Its state is the signaling client, the current
  ICE agent and the direct connection; \<open>ap_delayed\<close> counts the goroutines that wait half a
  second before they try to connect. \<open>surroundings\<close> is what is outside the repository:
  sockets, interfaces, name resolution, the results of writes, and the clock at the \<open>i\<close>-th
  send of an operation. The state \<open>'os\<close> of the operating system is threaded through.

  A callback, a command of the shell and the body of a delayed goroutine each run as one
  step; the code runs them in different goroutines without a lock. The agent's own copy of the
  connection stays as \<open>Connect\<close> returned it; the application uses only its own. Logging is
  not modelled; what \<open>fmt.Println\<close> prints in answer to a command is.
\<close>

section \<open>State\<close>

record app =
  ap_client :: client
  ap_agent :: "agent option"
  ap_conn :: "connection option"
  ap_delayed :: nat

record 'os surroundings =
  sr_listen :: "'os listen"
  sr_ifaces :: "iface list result"
  sr_resolve :: "string \<Rightarrow> string result"
  sr_write :: "nat \<Rightarrow> frame \<Rightarrow> error option"
  sr_udp :: "error option"
  sr_time :: "nat \<Rightarrow> go_time"
  sr_unix :: "nat \<Rightarrow> int"

definition new_app :: "client \<Rightarrow> app" where
  "new_app c = \<lparr>ap_client = c, ap_agent = None, ap_conn = None, ap_delayed = 0\<rparr>"

definition crlf :: string where
  "crlf = [CHR 0x0D, CHR 0x0A]"

definition demo_sdp :: "string \<Rightarrow> string" where
  "demo_sdp name =
     ''v=0'' @ crlf @ ''o=- 0 0 IN IP4 0.0.0.0'' @ crlf @ ''s='' @ name @ crlf @ ''t=0 0'' @ crlf @
     ''m=application 9 UDP/DTLS/SCTP webrtc-datachannel'' @ crlf"

definition client_parseLogLevel :: "string \<Rightarrow> log_level" where
  "client_parseLogLevel level =
     (if level = ''debug'' then LevelDebug
      else if level = ''info'' then LevelInfo
      else if level = ''warn'' then LevelWarn
      else if level = ''error'' then LevelError
      else LevelInfo)"

section \<open>ICE\<close>

text \<open>Every candidate is sent; a failed send is only logged. \<open>i\<close> counts the sends.\<close>

primrec send_candidates ::
  "'os surroundings \<Rightarrow> string \<Rightarrow> nat \<Rightarrow> candidate list \<Rightarrow> client \<Rightarrow> client" where
  "send_candidates sr peer i [] c = c"
| "send_candidates sr peer i (x # xs) c =
     send_candidates sr peer (Suc i) xs
       (snd (SendICECandidateJSON (sr_write sr i) (sr_time sr i) (sr_unix sr i) peer x c))"

definition startICE :: "'os surroundings \<Rightarrow> string \<Rightarrow> app \<Rightarrow> 'os \<Rightarrow> app outcome \<times> 'os" where
  "startICE sr peer a os =
     (let (r, os') = agent_Gather (sr_listen sr) (sr_ifaces sr) (NewAgent DefaultGathererConfig) os in
      (obind r (\<lambda>(res, ag).
         let a1 = a\<lparr>ap_agent := Some ag\<rparr> in
         case res of
           Inl e \<Rightarrow> Done a1
         | Inr cs \<Rightarrow> Done (a1\<lparr>ap_client := send_candidates sr peer 0 (map snd cs) (ap_client a1)\<rparr>)),
       os'))"

definition handleRemoteICECandidate ::
  "'os surroundings \<Rightarrow> string \<Rightarrow> candidate \<Rightarrow> app \<Rightarrow> 'os \<Rightarrow> app outcome \<times> 'os" where
  "handleRemoteICECandidate sr from cand a os =
     (let (r, os') = (if ap_agent a = None then startICE sr from a os else (Done a, os)) in
      (obind r (\<lambda>a1.
         case ap_agent a1 of
           None \<Rightarrow> Panicked ''invalid memory address or nil pointer dereference''
         | Some ag \<Rightarrow>
             obind (AddRemoteCandidate cand ag) (\<lambda>(u, ag').
               Done (a1\<lparr>ap_agent := Some ag', ap_delayed := Suc (ap_delayed a1)\<rparr>))),
       os'))"

text \<open>The body of the goroutine, after its sleep.\<close>

definition delayed_connect :: "'os surroundings \<Rightarrow> app \<Rightarrow> app outcome" where
  "delayed_connect sr a0 =
     (let a = a0\<lparr>ap_delayed := ap_delayed a0 - 1\<rparr> in
      if ap_conn a \<noteq> None then Done a
      else case ap_agent a of
        None \<Rightarrow> Panicked ''invalid memory address or nil pointer dereference''
      | Some ag \<Rightarrow>
          obind (agent_Connect (sr_resolve sr) ag) (\<lambda>(r, ag').
            let a1 = a\<lparr>ap_agent := Some ag'\<rparr> in
            case r of
              Inl e \<Rightarrow> Done a1
            | Inr conn \<Rightarrow>
                (let (r', conn') = SendString (sr_udp sr) ''Hello from direct UDP!'' conn
                 in Done (a1\<lparr>ap_conn := Some conn'\<rparr>))))"

section \<open>Signals and peer events\<close>

text \<open>Answers and candidates in the old format are only logged.\<close>

definition handleSignal ::
  "'os surroundings \<Rightarrow> string \<Rightarrow> signal \<Rightarrow> app \<Rightarrow> 'os \<Rightarrow> app outcome \<times> 'os" where
  "handleSignal sr from sg a os =
     (if sig_type sg = TypeOffer then
        (case ParseSessionDescription sg of
           Inl e \<Rightarrow> (Done a, os)
         | Inr offer \<Rightarrow>
             (let answer = NewAnswer (demo_sdp ''P2P Demo Answer'');
                  (r, c) = SendAnswer (sr_write sr 0) (sr_time sr 0) (sr_unix sr 0) from answer (ap_client a)
              in (Done (a\<lparr>ap_client := c\<rparr>), os)))
      else if sig_type sg = TypeAnswer then (Done a, os)
      else if sig_type sg = TypeICE then
        (case unmarshal_raw dec_ice_msg (sig_payload sg) of
           Inr im \<Rightarrow>
             if im_type im = ''ice-candidate'' then
               (case CandidateFromJSON (im_candidate im) of
                  Inl e \<Rightarrow> (Done a, os)
                | Inr cand \<Rightarrow> handleRemoteICECandidate sr from cand a os)
             else (Done a, os)
         | Inl e \<Rightarrow> (Done a, os))
      else (Done a, os))"

text \<open>The peer event callback; \<open>useICE\<close> is the flag.\<close>

definition on_peer_event ::
  "'os surroundings \<Rightarrow> bool \<Rightarrow> peer_event \<Rightarrow> app \<Rightarrow> 'os \<Rightarrow> app outcome \<times> 'os" where
  "on_peer_event sr useICE ev a os =
     (if pe_type ev = ''joined'' \<and> useICE then startICE sr (pe_peer_id ev) a os else (Done a, os))"

section \<open>The shell\<close>

definition help_text :: "string list" where
  "help_text =
     [''Commands:'',
      ''  /peers              - List connected peers'',
      ''  /offer <peer_id>    - Send an SDP offer to a peer'',
      ''  /ice <peer_id>      - Start ICE and send candidates'',
      ''  /send <msg>         - Send message via direct UDP (if connected)'',
      ''  /signal <peer_id> <msg> - Send a custom signal'',
      ''  /quit               - Exit'']"

text \<open>One line of input: whether the shell goes on, what it prints, and the new state.\<close>

type_synonym shell_result = "(bool \<times> string list \<times> app) outcome"

definition shell_goes_on :: "string list \<Rightarrow> app \<Rightarrow> shell_result" where
  "shell_goes_on out a = Done (True, out, a)"

definition cmd_send :: "'os surroundings \<Rightarrow> string list \<Rightarrow> app \<Rightarrow> shell_result" where
  "cmd_send sr parts a =
     (if length parts < 2 then shell_goes_on [''Usage: /send <message>''] a
      else case ap_conn a of
        None \<Rightarrow> shell_goes_on [''No direct UDP connection. Use /ice first.''] a
      | Some conn \<Rightarrow>
          (case SendString (sr_udp sr) (Join (tl parts) '' '') conn of
             (Inl e, conn') \<Rightarrow> shell_goes_on [] (a\<lparr>ap_conn := Some conn'\<rparr>)
           | (Inr u, conn') \<Rightarrow> shell_goes_on [''Sent via direct UDP!''] (a\<lparr>ap_conn := Some conn'\<rparr>)))"

definition cmd_offer :: "'os surroundings \<Rightarrow> string list \<Rightarrow> app \<Rightarrow> shell_result" where
  "cmd_offer sr parts a =
     (if length parts < 2 then shell_goes_on [''Usage: /offer <peer_id>''] a
      else case SendOffer (sr_write sr 0) (sr_time sr 0) (sr_unix sr 0) (parts ! 1)
          (NewOffer (demo_sdp ''P2P Demo'')) (ap_client a) of
        (Inl e, c) \<Rightarrow> shell_goes_on [] (a\<lparr>ap_client := c\<rparr>)
      | (Inr u, c) \<Rightarrow> shell_goes_on [''Offer sent!''] (a\<lparr>ap_client := c\<rparr>))"

definition cmd_signal :: "string list \<Rightarrow> app \<Rightarrow> shell_result" where
  "cmd_signal parts a =
     (if length parts < 3 then shell_goes_on [''Usage: /signal <peer_id> <message>''] a
      else shell_goes_on [''Signal sent!''] a)"

definition cmd_peers :: "string list \<Rightarrow> app \<Rightarrow> shell_result" where
  "cmd_peers ord a =
     obind (Peers ord (ap_client a)) (\<lambda>(ps, c). shell_goes_on [] (a\<lparr>ap_client := c\<rparr>))"

definition shell_line ::
  "'os surroundings \<Rightarrow> string list \<Rightarrow> string \<Rightarrow> app \<Rightarrow> 'os \<Rightarrow> shell_result \<times> 'os" where
  "shell_line sr ord line a os =
     (let input = TrimSpace line; parts = Fields input in
      if input = [] then (shell_goes_on [] a, os)
      else if length parts = 0 then (shell_goes_on [] a, os)
      else
        (let cmd = hd parts in
         if cmd = ''/quit'' \<or> cmd = ''/exit'' then (Done (False, [''Goodbye!''], a), os)
         else if cmd = ''/peers'' then (cmd_peers ord a, os)
         else if cmd = ''/ice'' then
           (if length parts < 2 then (shell_goes_on [''Usage: /ice <peer_id>''] a, os)
            else (let (r, os') = startICE sr (parts ! 1) a os in (obind r (shell_goes_on []), os')))
         else if cmd = ''/send'' then (cmd_send sr parts a, os)
         else if cmd = ''/offer'' then (cmd_offer sr parts a, os)
         else if cmd = ''/signal'' then (cmd_signal parts a, os)
         else if cmd = ''/help'' then (shell_goes_on help_text a, os)
         else (shell_goes_on [''Unknown command. Type /help for available commands.''] a, os)))"

text \<open>The lines that end the shell.\<close>

definition quits :: "string \<Rightarrow> bool" where
  "quits line \<longleftrightarrow>
     (let parts = Fields (TrimSpace line) in parts \<noteq> [] \<and> (hd parts = ''/quit'' \<or> hd parts = ''/exit''))"

text \<open>The loop over the lines of the standard input; when they end, \<open>ReadString\<close> fails.\<close>

fun runInteractiveShell ::
  "'os surroundings \<Rightarrow> string list \<Rightarrow> string list \<Rightarrow> app \<Rightarrow> 'os \<Rightarrow> (string list \<times> app) outcome \<times> 'os" where
  "runInteractiveShell sr ord [] a os = (Done ([], a), os)"
| "runInteractiveShell sr ord (line # lines) a os =
     (case shell_line sr ord line a os of
        (Done (True, out, a'), os') \<Rightarrow>
          (let (r, os'') = runInteractiveShell sr ord lines a' os'
           in (omap (\<lambda>(out', a''). (out @ out', a'')) r, os''))
      | (Done (False, out, a'), os') \<Rightarrow> (Done (out, a'), os')
      | (Blocked, os') \<Rightarrow> (Blocked, os')
      | (Panicked e, os') \<Rightarrow> (Panicked e, os'))"

section \<open>No step of the application waits or panics\<close>

definition app_inv :: "app \<Rightarrow> bool" where
  "app_inv a \<longleftrightarrow>
     (\<forall>ag. ap_agent a = Some ag \<longrightarrow> idle ag) \<and> (0 < ap_delayed a \<longrightarrow> ap_agent a \<noteq> None)"

lemma app_inv_agent: "idle ag \<Longrightarrow> app_inv (a\<lparr>ap_agent := Some ag\<rparr>)"
  by (simp add: app_inv_def)

lemma app_inv_other [simp]:
  "app_inv (a\<lparr>ap_client := c\<rparr>) = app_inv a" "app_inv (a\<lparr>ap_conn := x\<rparr>) = app_inv a"
  by (simp_all add: app_inv_def)

lemma idle_locked:
  assumes "idle a" "\<And>b. ag_mu (snd (body b)) = ag_mu b"
  obtains r a' where "locked body a = Done (r, a')" "idle a'"
    "r = fst (body (a\<lparr>ag_mu := \<lparr>readers = 0, writer = True\<rparr>\<rparr>))"
proof -
  obtain r a' where b: "body (a\<lparr>ag_mu := \<lparr>readers = 0, writer = True\<rparr>\<rparr>) = (r, a')" by fastforce
  show ?thesis
    by (rule that[of r "a'\<lparr>ag_mu := free_mutex\<rparr>"]) (simp_all add: locked_idle[OF assms] b idle_def)
qed

lemma agent_Gather_idle:
  assumes "idle a"
  obtains r ag os' where "agent_Gather listen ifaces a os = (Done (r, ag), os')" "idle ag"
    "r = fst (Gather listen ifaces (ag_gatherer a) os)"
proof -
  obtain r g os' where g: "Gather listen ifaces (ag_gatherer a) os = (r, g, os')"
    by (cases "Gather listen ifaces (ag_gatherer a) os") auto
  have idle: "idle (a\<lparr>ag_gatherer := g\<rparr>)" using assms by (simp add: idle_def)
  show ?thesis
  proof (cases r)
    case (Inl e)
    show ?thesis
      by (rule that[of "Inl e" "a\<lparr>ag_gatherer := g\<rparr>" os'])
         (use g Inl idle in \<open>simp_all add: agent_Gather_def\<close>)
  next
    case (Inr cs)
    let ?body = "\<lambda>a. (Inr cs :: cand_ptr list result, a\<lparr>ag_local := cs\<rparr>)"
    obtain r' a' where l: "locked ?body (a\<lparr>ag_gatherer := g\<rparr>) = Done (r', a')"
        "idle a'" "r' = Inr cs"
      by (rule idle_locked[OF idle, of ?body]) auto
    show ?thesis
      by (rule that[of "Inr cs" a' os']) (use g Inr l in \<open>simp_all add: agent_Gather_def\<close>)
  qed
qed

lemma idle_NewAgent: "idle (NewAgent cfg)"
  by (simp add: idle_def NewAgent_def)

text \<open>Sending changes the connection only.\<close>

definition same_client :: "client \<Rightarrow> client \<Rightarrow> bool" where
  "same_client c c' \<longleftrightarrow> (\<exists>t. c' = c\<lparr>transport := t\<rparr> \<and> ws_handler t = ws_handler (transport c) \<and>
     ws_peer_handler t = ws_peer_handler (transport c) \<and> ws_done t = ws_done (transport c))"

lemma same_client_refl [simp]: "same_client c c"
  unfolding same_client_def by (rule exI[of _ "transport c"]) simp

lemma same_client_ready: "same_client c c' \<Longrightarrow> ready c' = ready c"
  by (auto simp: same_client_def ready_def)

lemma same_client_trans: "same_client a b \<Longrightarrow> same_client b c \<Longrightarrow> same_client a c"
  by (auto simp: same_client_def)

lemma same_client_mu: "same_client c c' \<Longrightarrow> cl_mu c' = cl_mu c"
  by (auto simp: same_client_def)

lemma same_client_transport:
  assumes "ws_handler t = ws_handler (transport c)" "ws_peer_handler t = ws_peer_handler (transport c)"
    "ws_done t = ws_done (transport c)"
  shows "same_client c (c\<lparr>transport := t\<rparr>)"
  unfolding same_client_def using assms by blast

lemma sendMessage_fields:
  "sendMessage wr m t = (r, t') \<Longrightarrow> ws_handler t' = ws_handler t \<and>
     ws_peer_handler t' = ws_peer_handler t \<and> ws_done t' = ws_done t"
  by (auto simp: sendMessage_def split: option.splits prod.splits)

lemma same_client_signal: "same_client c (snd (send_signal wr t to sg c))"
  by (cases "sendMessage wr \<lparr>t_type = MsgSignal, t_from = '''', t_to = to,
      t_data = Some (enc_signal sg), t_timestamp = t\<rparr> (transport c)")
     (auto simp: send_signal_def ws_Send_def dest: sendMessage_fields intro: same_client_transport)

lemma same_client_send:
  "same_client c (snd (send_signal wr t to sg c))"
  "same_client c (snd (SendOffer wr tm t to offer c))"
  "same_client c (snd (SendAnswer wr tm t to offer c))"
  "same_client c (snd (SendICECandidateJSON wr tm t to cand c))"
  by (simp_all add: SendOffer_def SendAnswer_def SendICECandidateJSON_def Let_def same_client_signal
      split: sum.split)

lemma same_client_candidates: "same_client c (send_candidates sr peer i cs c)"
proof (induction cs arbitrary: i c)
  case (Cons x xs)
  show ?case by (simp add: same_client_trans[OF same_client_send(4) Cons.IH])
qed simp

lemma startICE_Done:
  obtains a' os' where "startICE sr peer a os = (Done a', os')" "app_inv a'" "ap_agent a' \<noteq> None"
    "ap_delayed a' = ap_delayed a" "ap_conn a' = ap_conn a" "same_client (ap_client a) (ap_client a')"
proof -
  obtain r ag os' where "agent_Gather (sr_listen sr) (sr_ifaces sr) (NewAgent DefaultGathererConfig) os =
      (Done (r, ag), os')" "idle ag"
    by (rule agent_Gather_idle[OF idle_NewAgent])
  then have "\<exists>c. startICE sr peer a os = (Done (a\<lparr>ap_agent := Some ag, ap_client := c\<rparr>), os') \<and>
      same_client (ap_client a) c"
    by (cases r) (auto simp: startICE_def Let_def same_client_candidates intro: exI[of _ "ap_client a"])
  with \<open>idle ag\<close> that show ?thesis by (auto simp: app_inv_def)
qed

lemma AddRemote_Done:
  "idle ag \<Longrightarrow> AddRemoteCandidate cand ag = Done ((), ag\<lparr>ag_remote := ag_remote ag @ [cand]\<rparr>)"
  by (rule AddRemoteCandidate_idle)

lemma handleRemote_Done:
  assumes "app_inv a"
  obtains a' os' where "handleRemoteICECandidate sr from cand a os = (Done a', os')" "app_inv a'"
    "same_client (ap_client a) (ap_client a')"
proof (cases "ap_agent a")
  case None
  obtain a1 os1 where s: "startICE sr from a os = (Done a1, os1)" "app_inv a1" "ap_agent a1 \<noteq> None"
      "same_client (ap_client a) (ap_client a1)"
    by (rule startICE_Done)
  then obtain ag where ag: "ap_agent a1 = Some ag" "idle ag" by (auto simp: app_inv_def)
  show ?thesis
    by (rule that[of "a1\<lparr>ap_agent := Some (ag\<lparr>ag_remote := ag_remote ag @ [cand]\<rparr>),
          ap_delayed := Suc (ap_delayed a1)\<rparr>" os1])
       (use None s ag in \<open>simp_all add: handleRemoteICECandidate_def AddRemote_Done app_inv_def idle_def\<close>)
next
  case (Some ag)
  with assms have "idle ag" by (simp add: app_inv_def)
  with Some show ?thesis
    by (intro that[of "a\<lparr>ap_agent := Some (ag\<lparr>ag_remote := ag_remote ag @ [cand]\<rparr>),
          ap_delayed := Suc (ap_delayed a)\<rparr>" os])
       (simp_all add: handleRemoteICECandidate_def AddRemote_Done app_inv_def idle_def)
qed

lemma handleSignal_Done:
  assumes "app_inv a"
  obtains a' os' where "handleSignal sr from sg a os = (Done a', os')" "app_inv a'"
    "same_client (ap_client a) (ap_client a')"
proof (cases "\<exists>im cand. sig_type sg = TypeICE \<and> unmarshal_raw dec_ice_msg (sig_payload sg) = Inr im \<and>
    im_type im = ''ice-candidate'' \<and> CandidateFromJSON (im_candidate im) = Inr cand")
  case True
  then obtain im cand where im: "sig_type sg = TypeICE"
      "unmarshal_raw dec_ice_msg (sig_payload sg) = Inr im" "im_type im = ''ice-candidate''"
      "CandidateFromJSON (im_candidate im) = Inr cand" by blast
  obtain a' os' where "handleRemoteICECandidate sr from cand a os = (Done a', os')" "app_inv a'"
      "same_client (ap_client a) (ap_client a')"
    by (rule handleRemote_Done[OF assms])
  with im show ?thesis
    by (intro that) (auto simp: handleSignal_def sdp_type_defs)
next
  case False
  let ?c = "snd (SendAnswer (sr_write sr 0) (sr_time sr 0) (sr_unix sr 0) from
      (NewAnswer (demo_sdp ''P2P Demo Answer'')) (ap_client a))"
  have "a\<lparr>ap_client := ap_client a\<rparr> = a" by (cases a) simp
  with False have "handleSignal sr from sg a os = (Done (a\<lparr>ap_client := ap_client a\<rparr>), os) \<or>
      handleSignal sr from sg a os = (Done (a\<lparr>ap_client := ?c\<rparr>), os)"
    by (auto simp: handleSignal_def Let_def split: sum.split prod.split)
  then obtain c where "handleSignal sr from sg a os = (Done (a\<lparr>ap_client := c\<rparr>), os)"
      "same_client (ap_client a) c"
    using same_client_send(3) same_client_refl by blast
  with assms that show ?thesis by auto
qed

lemma delayed_connect_Done:
  assumes "app_inv a" "0 < ap_delayed a"
  obtains a' where "delayed_connect sr a = Done a'" "app_inv a'" "ap_client a' = ap_client a"
proof -
  obtain ag where ag: "ap_agent a = Some ag" "idle ag" using assms by (auto simp: app_inv_def)
  obtain r ag' where c: "agent_Connect (sr_resolve sr) ag = Done (r, ag')" "idle ag'"
    unfolding agent_Connect_def by (rule idle_locked[OF ag(2) connect_body_mu])
  show ?thesis
  proof (cases "ap_conn a")
    case None
    have "\<exists>x. delayed_connect sr a =
        Done (a\<lparr>ap_delayed := ap_delayed a - 1, ap_agent := Some ag', ap_conn := x\<rparr>)"
      using ag c None
      by (cases r) (auto simp: delayed_connect_def Let_def split: prod.split intro: exI[of _ None])
    with c(2) that show ?thesis by (auto simp: app_inv_def)
  next
    case (Some x)
    then show ?thesis
      using assms
      by (intro that[of "a\<lparr>ap_delayed := ap_delayed a - 1\<rparr>"])
         (simp_all add: delayed_connect_def Let_def app_inv_def)
  qed
qed

text \<open>Between two commands the client's lock is free, too.\<close>

definition shell_ready :: "app \<Rightarrow> bool" where
  "shell_ready a \<longleftrightarrow> app_inv a \<and> cl_mu (ap_client a) = free_mutex"

lemma cmd_peers_eq:
  assumes "cl_mu (ap_client a) = free_mutex"
  shows "cmd_peers ord a = Done (True, [], a)"
proof -
  have "Peers ord (ap_client a) = Done (filter (\<lambda>i. cl_peers (ap_client a) i \<noteq> None) ord, ap_client a)"
    using assms by (simp add: Peers_def go_simps)
  moreover have "a\<lparr>ap_client := ap_client a\<rparr> = a" by (cases a) simp
  ultimately show ?thesis by (simp add: cmd_peers_def shell_goes_on_def)
qed

lemma cmd_send_Done:
  "\<exists>out c. cmd_send sr parts a = Done (True, out, a\<lparr>ap_conn := c\<rparr>)"
proof -
  have "a\<lparr>ap_conn := ap_conn a\<rparr> = a" by (cases a) simp
  then show ?thesis
    by (auto simp: cmd_send_def shell_goes_on_def split: option.split prod.split sum.split
        intro: exI[of _ "ap_conn a"])
qed

lemma cmd_offer_Done:
  "\<exists>out c. cmd_offer sr parts a = Done (True, out, a\<lparr>ap_client := c\<rparr>) \<and> same_client (ap_client a) c"
proof (cases "length parts < 2")
  case True
  have "a\<lparr>ap_client := ap_client a\<rparr> = a" by (cases a) simp
  with True show ?thesis
    by (auto simp: cmd_offer_def shell_goes_on_def intro!: exI[of _ "ap_client a"])
next
  case False
  obtain r c where s: "SendOffer (sr_write sr 0) (sr_time sr 0) (sr_unix sr 0) (parts ! 1)
      (NewOffer (demo_sdp ''P2P Demo'')) (ap_client a) = (r, c)" by fastforce
  then have "same_client (ap_client a) c"
    using same_client_send(2)[of "ap_client a" "sr_write sr 0" "sr_time sr 0" "sr_unix sr 0" "parts ! 1"
      "NewOffer (demo_sdp ''P2P Demo'')"] by simp
  with False s show ?thesis
    by (cases r) (auto simp: cmd_offer_def shell_goes_on_def)
qed

lemma shell_line_Done:
  assumes a: "shell_ready a"
  obtains out a' os' where "shell_line sr ord line a os = (Done (\<not> quits line, out, a'), os')"
    "shell_ready a'" "same_client (ap_client a) (ap_client a')"
proof -
  obtain a1 os1 where ice: "startICE sr (Fields (TrimSpace line) ! 1) a os = (Done a1, os1)"
      "app_inv a1" "same_client (ap_client a) (ap_client a1)"
    by (rule startICE_Done)
  have a1: "shell_ready a1" using ice a by (simp add: shell_ready_def same_client_mu)
  obtain out2 x where send: "cmd_send sr (Fields (TrimSpace line)) a = Done (True, out2, a\<lparr>ap_conn := x\<rparr>)"
    using cmd_send_Done by blast
  obtain out3 c where offer: "cmd_offer sr (Fields (TrimSpace line)) a = Done (True, out3, a\<lparr>ap_client := c\<rparr>)"
      "same_client (ap_client a) c"
    using cmd_offer_Done by blast
  have ready: "shell_ready (a\<lparr>ap_conn := x\<rparr>)" "shell_ready (a\<lparr>ap_client := c\<rparr>)"
    using a offer(2) by (simp_all add: shell_ready_def same_client_mu)
  have peers: "cmd_peers ord a = Done (True, [], a)"
    using a by (intro cmd_peers_eq) (simp add: shell_ready_def)
  have empty: "TrimSpace line = [] \<Longrightarrow> Fields (TrimSpace line) = []" by (simp add: Fields_def)
  have "\<exists>out a' os'. shell_line sr ord line a os = (Done (\<not> quits line, out, a'), os') \<and> shell_ready a' \<and>
      same_client (ap_client a) (ap_client a')"
    using a a1 ready ice(3) offer(2) empty
    by (simp add: shell_line_def quits_def Let_def ice send offer peers cmd_signal_def shell_goes_on_def
        ex_bool_eq del: One_nat_def)
  then show ?thesis using that by blast
qed

lemma shell_run_Done:
  "shell_ready a \<Longrightarrow> \<exists>out a' os'. runInteractiveShell sr ord lines a os = (Done (out, a'), os')"
proof (induction lines arbitrary: a os)
  case (Cons line lines)
  obtain out a' os' where l: "shell_line sr ord line a os = (Done (\<not> quits line, out, a'), os')"
      "shell_ready a'"
    by (rule shell_line_Done[OF Cons.prems])
  obtain out2 a2 os2 where "runInteractiveShell sr ord lines a' os' = (Done (out2, a2), os2)"
    using Cons.IH[OF l(2)] by blast
  with l show ?case by (cases "quits line") simp_all
qed simp

end
