(* ===== verification/EndToEnd.thy ===== *)
theory EndToEnd
  imports ServerDeadlock PeerView ClientApp
begin

text \<open>
  A signal on its whole way: from the call on the sending client, through its transport, the
  server's reader, the hub, the server's writer and the receiving transport, to the
  application's callback. \<open>relay\<close> is what the server does to a frame.
\<close>

section \<open>The server's part\<close>

text \<open>A text frame from peer \<open>p\<close>: whom it is for, and the frame the recipient gets.\<close>

definition relay :: "peer \<Rightarrow> int \<Rightarrow> json \<Rightarrow> (string \<times> json) option" where
  "relay p t j =
     (case unmarshal_raw dec_message (Some j) of
        Inl e \<Rightarrow> None
      | Inr m \<Rightarrow> Some (m_to m, enc_message (stamp p t m)))"

text \<open>It is what \<open>readPump\<close> forwards and \<open>writePump\<close> marshals.\<close>

lemma relay_reader:
  "relay (s_peer c) t j = Some (to, j') \<longleftrightarrow>
     (\<exists>m. unmarshal_raw dec_message (Some j) = Inr m \<and> to = m_to m \<and>
        reader_turn (ReadText (Some j)) t c = c\<lparr>s_reader := Forwarding (stamp (s_peer c) t m)\<rparr> \<and>
        j' = enc_message (stamp (s_peer c) t m))"
  by (auto simp: relay_def reader_turn_def split: sum.split)

section \<open>The sender's part\<close>

definition connected :: "client \<Rightarrow> bool" where
  "connected c \<longleftrightarrow> ws_connection (transport c) \<noteq> None"

definition frames :: "client \<Rightarrow> frame list" where
  "frames c = (case ws_connection (transport c) of None \<Rightarrow> [] | Some k \<Rightarrow> written k)"

definition envelope :: "int \<Rightarrow> string \<Rightarrow> signal \<Rightarrow> json" where
  "envelope t to sg = enc_ws_message
     \<lparr>t_type = MsgSignal, t_from = '''', t_to = to, t_data = Some (enc_signal sg), t_timestamp = t\<rparr>"

lemma send_signal_connected:
  assumes "connected c" "\<And>f. wr f = None"
  shows "\<exists>c'. send_signal wr t to sg c = (Inr (), c') \<and> frames c' = frames c @ [TextFrame (envelope t to sg)] \<and>
    connected c' \<and> ws_handler (transport c') = ws_handler (transport c) \<and>
    ws_peer_handler (transport c') = ws_peer_handler (transport c) \<and> same_client c c'"
proof -
  obtain k where "ws_connection (transport c) = Some k" using assms(1) by (auto simp: connected_def)
  with assms(2) show ?thesis
    by (simp add: send_signal_def ws_Send_def sendMessage_def write_frame_def frames_def connected_def
        envelope_def same_client_transport)
qed

lemma send_signal_not_connected:
  "\<not> connected c \<Longrightarrow> send_signal wr t to sg c = (Inl ''not connected'', c)"
  by (cases "transport c") (simp add: connected_def send_signal_def ws_Send_def sendMessage_def)

section \<open>The receiver's part\<close>

lemma signal_of_enc:
  "signal_ok sg \<Longrightarrow> t_data m = Some (enc_signal sg) \<Longrightarrow> signal_of m = sg\<lparr>sig_from := t_from m\<rparr>"
  by (simp add: signal_of_def signal.dec_enc)

lemma envelope_read:
  "in_int 64 t \<Longrightarrow> dec_message (envelope t to sg) = Inr (server_view
     \<lparr>t_type = MsgSignal, t_from = '''', t_to = to, t_data = Some (enc_signal sg), t_timestamp = t\<rparr>)"
  unfolding envelope_def by (rule to_server.dec_enc) (simp add: ws_message_ok_def)

lemma envelope_relayed:
  assumes "in_int 64 t" "in_int 64 t'"
  shows "relay p t' (envelope t to sg) = Some (to, enc_message
    \<lparr>m_type = MsgSignal, m_from = peer_id p, m_to = to, m_data = Some (enc_signal sg), m_timestamp = t'\<rparr>)"
  by (simp add: relay_def envelope_read[OF assms(1)] server_view_def stamp_def)

lemma relayed_received:
  assumes "ready b" "cl_handler b" "signal_ok sg" "in_int 64 t'"
  shows "receive_frame (enc_message
    \<lparr>m_type = MsgSignal, m_from = i, m_to = to, m_data = Some (enc_signal sg), m_timestamp = t'\<rparr>) b
    = Done (b, Some (CallSignal i (sg\<lparr>sig_from := i\<rparr>)))"
  using assms
  by (simp add: receive_frame_def dec_ws_enc dispatch_signal signal_of_enc enc_raw_def)

text \<open>All three: what arrives is what was sent, under the name of its sender.\<close>

lemma signal_travels:
  assumes "ready b" "cl_handler b" "signal_ok sg" "in_int 64 t" "in_int 64 t'"
  shows "\<exists>j. relay p t' (envelope t to sg) = Some (to, j) \<and>
    receive_frame j b = Done (b, Some (CallSignal (peer_id p) (sg\<lparr>sig_from := peer_id p\<rparr>)))"
  using relayed_received[OF assms(1,2,3,5)] envelope_relayed[OF assms(4,5)] by simp

section \<open>An offer is answered\<close>

lemma session_ok_New [simp]: "session_ok (NewOffer s)" "session_ok (NewAnswer s)"
  by (simp_all add: NewOffer_def NewAnswer_def session_ok_def in_int_def)

definition session_signal :: "go_time \<Rightarrow> session_description \<Rightarrow> signal" where
  "session_signal tm s = \<lparr>sig_type = sd_type s, sig_payload = Some (enc_session_description s),
     sig_timestamp = tm, sig_from = '''', sig_to = ''''\<rparr>"

lemma session_signal_ok: "time_ok tm \<Longrightarrow> signal_ok (session_signal tm s)"
  by (simp add: session_signal_def signal_ok_def)

lemma session_signal_type [simp]: "sig_type (session_signal tm s) = sd_type s"
  by (simp add: session_signal_def)

lemma SendOffer_eq: "SendOffer wr tm t to s c = send_signal wr t to (session_signal tm s) c"
  by (simp add: SendOffer_def sd_ToSignal_def session_signal_def)

lemma SendAnswer_eq: "SendAnswer wr tm t to s c = send_signal wr t to (session_signal tm s) c"
  by (simp add: SendAnswer_def sd_ToSignal_def session_signal_def)

lemma parse_session_signal:
  "session_ok s \<Longrightarrow> ParseSessionDescription ((session_signal tm s)\<lparr>sig_from := i\<rparr>) = Inr s"
  by (simp add: ParseSessionDescription_def session_signal_def session.dec_enc)

lemma handleSignal_offer:
  assumes c: "connected (ap_client a)" and wr: "\<And>f. sr_write sr 0 f = None"
    and offer: "session_ok s" "sd_type s = TypeOffer"
  shows "\<exists>c'. handleSignal sr from ((session_signal tm s)\<lparr>sig_from := from\<rparr>) a os =
      (Done (a\<lparr>ap_client := c'\<rparr>), os) \<and>
    frames c' = frames (ap_client a) @ [TextFrame (envelope (sr_unix sr 0) from
      (session_signal (sr_time sr 0) (NewAnswer (demo_sdp ''P2P Demo Answer''))))]"
proof -
  obtain c' where c': "send_signal (sr_write sr 0) (sr_unix sr 0) from
      (session_signal (sr_time sr 0) (NewAnswer (demo_sdp ''P2P Demo Answer''))) (ap_client a) = (Inr (), c')"
      "frames c' = frames (ap_client a) @ [TextFrame (envelope (sr_unix sr 0) from
        (session_signal (sr_time sr 0) (NewAnswer (demo_sdp ''P2P Demo Answer''))))]"
    using send_signal_connected[of "ap_client a" "sr_write sr 0", OF c wr] by blast
  with offer(2) show ?thesis
    by (intro exI[of _ c']) (simp add: handleSignal_def parse_session_signal[OF offer(1)] SendAnswer_eq)
qed

definition noon :: go_time where
  "noon = zero_time"

lemma noon_ok: "time_ok noon"
  by (simp add: noon_def zero_time_def time_ok_def days_in_def leap_def)

section \<open>An ICE candidate arrives as it was sent\<close>

definition ice_signal :: "go_time \<Rightarrow> candidate \<Rightarrow> signal" where
  "ice_signal tm c = \<lparr>sig_type = TypeICE,
     sig_payload = Some (enc_ice_msg \<lparr>im_type = ''ice-candidate'', im_candidate = Some (enc_candidate c)\<rparr>),
     sig_timestamp = tm, sig_from = '''', sig_to = ''''\<rparr>"

lemma SendICECandidateJSON_eq:
  "SendICECandidateJSON wr tm t to cand c = send_signal wr t to (ice_signal tm cand) c"
  by (simp add: SendICECandidateJSON_def CandidateToJSON_def ice_signal_def)

lemma ice_signal_ok: "time_ok tm \<Longrightarrow> signal_ok (ice_signal tm c)"
  by (simp add: ice_signal_def signal_ok_def)

lemma handleSignal_ice:
  assumes "candidate_ok cand"
  shows "handleSignal sr from ((ice_signal tm cand)\<lparr>sig_from := i\<rparr>) a os =
    handleRemoteICECandidate sr from cand a os"
  using assms
  by (simp add: handleSignal_def ice_signal_def sdp_type_defs ice_msg.dec_enc CandidateFromJSON_def
      ice_cand.dec_enc)

lemma handleRemote_started:
  assumes "app_inv a" "ap_agent a = Some ag"
  shows "handleRemoteICECandidate sr from cand a os =
    (Done (a\<lparr>ap_agent := Some (ag\<lparr>ag_remote := ag_remote ag @ [cand]\<rparr>), ap_delayed := Suc (ap_delayed a)\<rparr>), os)"
  using assms
  by (simp add: handleRemoteICECandidate_def AddRemote_Done app_inv_def)

end
