(* ===== verification/ClientProps.thy ===== *)
theory ClientProps
  imports EndToEnd
begin

text \<open>
  The properties of the client library: its transport, its locks, its view of the peers and
  the signals it passes on.
\<close>

section \<open>Examples\<close>

definition open_conn :: ws_conn where
  "open_conn = \<lparr>written = [], conn_open = True\<rparr>"

definition example_url :: string where
  "example_url = ''ws://localhost:8080/ws''"

text \<open>A client that has connected and set its callbacks.\<close>

definition example_client :: client where
  "example_client = (new_client example_url)
     \<lparr>transport := (transport (new_client example_url))\<lparr>ws_connection := Some open_conn\<rparr>,
      cl_handler := True, cl_peer_handler := True\<rparr>"

lemma example_client_simps [simp]:
  "connected example_client" "ready example_client" "cl_handler example_client"
  "cl_peer_handler example_client" "cl_peers example_client = Map.empty" "frames example_client = []"
  by (simp_all add: example_client_def connected_def ready_def new_client_def SetPeerHandler_def
      SetHandler_def frames_def open_conn_def)

definition peer_a :: peer where "peer_a = \<lparr>peer_id = ''a1'', peer_send = 0, joined_at = 5\<rparr>"

definition peer_b :: peer where "peer_b = \<lparr>peer_id = ''b2'', peer_send = 1, joined_at = 9\<rparr>"

lemma peer_ab [simp]: "peer_id peer_a = ''a1''" "peer_id peer_b = ''b2''"
  "peer_send peer_a = 0" "peer_send peer_b = 1" "joined_at peer_a = 5" "joined_at peer_b = 9"
  by (simp_all add: peer_a_def peer_b_def)

section \<open>The view of the peers\<close>

text \<open>C3: As long as no buffer overflows and no client sends messages of the server's own types,
  a client that has read everything sent to it knows exactly the peers the hub has, less
  itself.\<close>

theorem client_knows_peers:
  assumes "net_reachable s" "peers (n_hub s) i = Some p"
    and "buf (chans (n_hub s) (peer_send p)) = []"
  shows "dom (cl_peers (n_clients s i)) = dom (peers (n_hub s)) - {i}"
  using client_invD(4)[OF net_invD(2)[OF net_reachable_inv[OF assms(1)] assms(2)]] assms(3) by simp

definition ab_env :: "string list \<Rightarrow> env" where
  "ab_env ids = \<lparr>now = (\<lambda>_. 10), range_order = (\<lambda>_. ids)\<rparr>"

lemma ab_net:
  "\<exists>s. net_reachable s \<and> peers (n_hub s) = [''a1'' \<mapsto> peer_a, ''b2'' \<mapsto> peer_b]"
proof -
  let ?s0 = "\<lparr>n_hub = NewHub (\<lambda>_. make_chan sendCapacity), n_clients = (\<lambda>_. example_client)\<rparr>"
  have r0: "net_reachable ?s0" by (rule net_reachable.start)
  have inv0: "hub_inv (n_hub ?s0)" by (simp add: hub_inv_NewHub)
  have ok: "clock_ok (ab_env ids)" for ids by (simp add: clock_ok_def ab_env_def in_int_def)
  have p0: "peers (NewHub cs) = Map.empty" "chans (NewHub cs) = cs" for cs
    by (simp_all add: NewHub_def)
  have req0: "request_ok (ab_env [''a1''], Register peer_a) (n_hub ?s0)"
    by (simp add: request_ok_def fresh_peer_def uses_chan_def env_ok_def visits_def ab_env_def)
       (simp add: NewHub_def)
  then obtain h1 infos where h1: "hub_step (ab_env [''a1'']) (Register peer_a) (n_hub ?s0) = Done h1"
      "peers h1 = (peers (n_hub ?s0))(peer_id peer_a \<mapsto> peer_a)"
      "buf (chans h1 (peer_send peer_a)) = [regMsg (now (ab_env [''a1'']) 0) peer_a, listMsg (now (ab_env [''a1'']) 1) infos]"
    using register_turn[OF inv0, of peer_a "ab_env [''a1'']"] by (auto simp: request_ok_def)
  let ?s1 = "\<lparr>n_hub = h1, n_clients = add_client (Register peer_a) example_client (n_clients ?s0)\<rparr>"
  have "net_step ?s0 ?s1"
    by (rule net_step.turn[OF req0 _ ok _ h1(1)]) (simp_all add: roomy_def NewHub_def in_int_def)
  with r0 have r1: "net_reachable ?s1" by (rule net_reachable.step)
  have cap: "capacity (chans h1 0) = sendCapacity"
  proof -
    have "fresh_peer (n_hub ?s0) peer_a" using req0 by (simp add: request_ok_def)
    note eq = handleRegister_eq[OF inv0 this]
    have "h1 = deliver (joinedMsg (now (ab_env [''a1'']) 2) peer_a) (- {''a1''}) (admit (ab_env [''a1'']) peer_a (n_hub ?s0))"
      using eq h1(1) req0 by (simp add: hub_step_def request_ok_def)
    then show ?thesis by (simp add: deliver_def admit_def Let_def NewHub_def)
  qed
  have c1: "chans h1 1 = make_chan sendCapacity"
    using hub_step_unused[OF inv0 req0 h1(1), of 1] by (simp add: uses_chan_def p0)
  have req1: "request_ok (ab_env [''b2'', ''a1''], Register peer_b) h1"
    using c1 by (auto simp: request_ok_def fresh_peer_def uses_chan_def env_ok_def visits_def
        ab_env_def h1(2) p0)
  have "hub_inv h1" by (rule hub_step_inv[OF inv0 req0 h1(1)])
  then obtain h2 where h2: "hub_step (ab_env [''b2'', ''a1'']) (Register peer_b) h1 = Done h2"
      "peers h2 = (peers h1)(peer_id peer_b \<mapsto> peer_b)"
    using register_turn[of h1 peer_b "ab_env [''b2'', ''a1'']"] req1 by (auto simp: request_ok_def)
  let ?s2 = "\<lparr>n_hub = h2, n_clients = add_client (Register peer_b) example_client (n_clients ?s1)\<rparr>"
  have "net_step ?s1 ?s2"
    by (rule net_step.turn[OF _ _ ok _ _])
       (use req1 h2 h1 cap in \<open>simp_all add: roomy_def p0 in_int_def sendCapacity_def\<close>)
  with r1 have "net_reachable ?s2" by (rule net_reachable.step)
  with h1(2) h2(2) p0 show ?thesis by (intro exI[of _ ?s2]) simp
qed

theorem client_knows_peers_witness:
  "\<exists>s. net_reachable s \<and> peers (n_hub s) = [''a1'' \<mapsto> peer_a, ''b2'' \<mapsto> peer_b] \<and>
     dom (cl_peers (n_clients s ''b2'')) = {''a1''}"
proof -
  obtain s where s: "net_reachable s" "peers (n_hub s) = [''a1'' \<mapsto> peer_a, ''b2'' \<mapsto> peer_b]"
    using ab_net by blast
  then obtain t where t: "net_reachable t" "peers (n_hub t) = [''a1'' \<mapsto> peer_a, ''b2'' \<mapsto> peer_b]"
      "buf (chans (n_hub t) (peer_send peer_b)) = []"
    using net_drain[OF s(1), of "''b2''" peer_b] by auto
  have "peers (n_hub t) ''b2'' = Some peer_b" using t(2) by simp
  from client_knows_peers[OF t(1) this t(3)] t show ?thesis by auto
qed

definition forged_left :: "string \<Rightarrow> string \<Rightarrow> json" where
  "forged_left to victim = enc_ws_message
     \<lparr>t_type = MsgPeerLeft, t_from = '''', t_to = to,
      t_data = Some (enc_joined_left \<lparr>jl_peer = \<lparr>pi_id = victim, pi_joined_at = 0\<rparr>\<rparr>), t_timestamp = 0\<rparr>"

text \<open>C35: The server does not check the type of a client's message: any peer can make another
  client forget a peer that is still connected, by sending it a \<open>peer_left\<close>.\<close>

theorem peer_left_can_be_forged:
  assumes "ready c" "in_int 64 t"
  shows "\<exists>j c' call. relay p t (forged_left to victim) = Some (to, j) \<and>
    receive_frame j c = Done (c', call) \<and> dom (cl_peers c') = dom (cl_peers c) - {victim}"
proof -
  let ?m = "\<lparr>m_type = PeerLeft, m_from = peer_id p, m_to = to,
     m_data = Some (enc_joined_left \<lparr>jl_peer = \<lparr>pi_id = victim, pi_joined_at = 0\<rparr>\<rparr>), m_timestamp = t\<rparr>"
  have "dec_message (forged_left to victim) = Inr (server_view
      \<lparr>t_type = MsgPeerLeft, t_from = '''', t_to = to,
       t_data = Some (enc_joined_left \<lparr>jl_peer = \<lparr>pi_id = victim, pi_joined_at = 0\<rparr>\<rparr>), t_timestamp = 0\<rparr>)"
    unfolding forged_left_def by (rule to_server.dec_enc) (simp add: ws_message_ok_def)
  then have r: "relay p t (forged_left to victim) = Some (to, enc_message ?m)"
    by (simp add: relay_def server_view_def stamp_def server_type_names)
  have "learn ?m S = S - {victim}" for S
    by (simp add: learn_def enc_raw_def joined_left_link.dec_enc joined_left_ok_def peer_info_ok_def)
  with receive_effect[OF assms(1), of ?m] assms(2) r show ?thesis by auto
qed

theorem peer_left_can_be_forged_witness:
  "\<exists>j c' call. relay peer_a 7 (forged_left ''b2'' ''c3'') = Some (''b2'', j) \<and>
     receive_frame j (example_client\<lparr>cl_peers := [''a1'' \<mapsto> True, ''c3'' \<mapsto> True]\<rparr>) = Done (c', call) \<and>
     dom (cl_peers c') = {''a1''}"
proof -
  have "ready (example_client\<lparr>cl_peers := [''a1'' \<mapsto> True, ''c3'' \<mapsto> True]\<rparr>)" "in_int 64 7"
    by (simp_all add: in_int_def)
  from peer_left_can_be_forged[OF this, of peer_a "''b2''" "''c3''"] show ?thesis by auto
qed

text \<open>The client library understands the hub's own messages: the greeting sets the client's
  identifier, the list and the announcements reach the application with the right peers.\<close>

theorem hub_messages_understood:
  assumes "ready c" "cl_peer_handler c" "in_int 64 t" "in_int 64 (joined_at p)" "list_all peer_info_ok infos"
  shows "(\<exists>c'. receive_frame (enc_message (regMsg t p)) c = Done (c', None) \<and> MyID c' = peer_id p) \<and>
    (\<exists>c'. receive_frame (enc_message (listMsg t infos)) c =
       Done (c', Some (CallPeerEvent \<lparr>pe_type = ''list'', pe_peer_id = '''', pe_peers = map pi_id infos\<rparr>))) \<and>
    (\<exists>c'. receive_frame (enc_message (joinedMsg t p)) c =
       Done (c', Some (CallPeerEvent \<lparr>pe_type = ''joined'', pe_peer_id = peer_id p, pe_peers = []\<rparr>))) \<and>
    (\<exists>c'. receive_frame (enc_message (leftMsg t p)) c =
       Done (c', Some (CallPeerEvent \<lparr>pe_type = ''left'', pe_peer_id = peer_id p, pe_peers = []\<rparr>)))"
proof -
  have h: "ws_handler (transport c)" "ws_peer_handler (transport c)"
    using assms(1) by (simp_all add: ready_def)
  note ok = joined_left_ok_def peer_info_ok_def peer_list_ok_def
  note defs = receive_frame_def dec_ws_enc dispatch_def handleMessage_def server_type_names
    call_peer_def zero_event_def deliver_event_ready event_call_def peer_call_def enc_raw_def
  have reg: "\<exists>c'. receive_frame (enc_message (regMsg t p)) c = Done (c', None) \<and> MyID c' = peer_id p"
    using assms(1,3) h
    by (simp add: defs) (simp add: regMsg_def registered_link.dec_enc MyID_def ws_MyID_def h Let_def defs)
  have list: "\<exists>c'. receive_frame (enc_message (listMsg t infos)) c =
      Done (c', Some (CallPeerEvent \<lparr>pe_type = ''list'', pe_peer_id = '''', pe_peers = map pi_id infos\<rparr>))"
    using assms h by (simp add: defs) (simp add: listMsg_def peer_list_link.dec_enc ok h comp_def Let_def defs)
  have joined: "\<exists>c'. receive_frame (enc_message (joinedMsg t p)) c =
      Done (c', Some (CallPeerEvent \<lparr>pe_type = ''joined'', pe_peer_id = peer_id p, pe_peers = []\<rparr>))"
    using assms h by (simp add: defs) (simp add: joinedMsg_def joined_left_link.dec_enc ok h Let_def defs)
  have left: "\<exists>c'. receive_frame (enc_message (leftMsg t p)) c =
      Done (c', Some (CallPeerEvent \<lparr>pe_type = ''left'', pe_peer_id = peer_id p, pe_peers = []\<rparr>))"
    using assms h by (simp add: defs) (simp add: leftMsg_def joined_left_link.dec_enc ok h Let_def defs)
  from reg list joined left show ?thesis by blast
qed

theorem hub_messages_understood_witness:
  "\<exists>c'. receive_frame (enc_message (listMsg 7 [\<lparr>pi_id = ''a1'', pi_joined_at = 5\<rparr>])) example_client =
     Done (c', Some (CallPeerEvent \<lparr>pe_type = ''list'', pe_peer_id = '''', pe_peers = [''a1'']\<rparr>))"
  using hub_messages_understood[of example_client 7 peer_a "[\<lparr>pi_id = ''a1'', pi_joined_at = 5\<rparr>]"]
  by (simp add: in_int_def peer_info_ok_def)

text \<open>C33: During a peer event callback the client's lock is held, so a callback that asks for
  the peers, or sets a callback, waits for ever.\<close>

theorem peer_callback_holds_lock:
  assumes "ready c" "handlePeerEvent ev c = Done (c', call)"
  shows "Peers ord c' = Blocked \<and> OnSignal c' = Blocked \<and> OnPeerEvent c' = Blocked \<and>
    (\<exists>c''. handlePeerEvent_return c' = Done c'' \<and> ready c'')"
proof -
  have "cl_mu c' = \<lparr>readers = 0, writer = True\<rparr>" "transport c' = transport c"
    using assms by (auto simp: handlePeerEvent_def ready_def go_simps Let_def split: if_splits)
  then show ?thesis
    using assms(1)
    by (simp add: Peers_def OnSignal_def OnPeerEvent_def handlePeerEvent_return_def ready_def go_simps)
qed

theorem peer_callback_holds_lock_witness:
  "\<exists>c'. handlePeerEvent (zero_event\<lparr>we_type := ''joined'', we_peer := \<lparr>wp_id = ''a1'', wp_joined_at = 5\<rparr>\<rparr>)
       example_client =
     Done (c', Some (CallPeerEvent \<lparr>pe_type = ''joined'', pe_peer_id = ''a1'', pe_peers = []\<rparr>)) \<and>
     Peers [''a1''] c' = Blocked"
proof -
  let ?ev = "zero_event\<lparr>we_type := ''joined'', we_peer := \<lparr>wp_id = ''a1'', wp_joined_at = 5\<rparr>\<rparr>"
  have "cl_mu example_client = free_mutex" using example_client_simps(2) by (simp only: ready_def)
  then obtain c' where c': "handlePeerEvent ?ev example_client =
      Done (c', Some (CallPeerEvent \<lparr>pe_type = ''joined'', pe_peer_id = ''a1'', pe_peers = []\<rparr>))"
    by (simp add: handlePeerEvent_def go_simps peer_call_def Let_def)
  from peer_callback_holds_lock[OF _ c', of "[''a1'']"] c' show ?thesis by auto
qed

section \<open>Closing and sending\<close>

text \<open>When \<open>Connect\<close> fails, nothing ever closes \<open>done\<close>: \<open>Close\<close> then waits for
  ever, and every send reports that there is no connection.\<close>

theorem close_without_connection:
  assumes "ws_Connect parse dial (NewWebSocketClient cfg) = (Inl e, c)"
  shows "ws_Close c = Blocked \<and> fst (ws_Send wr t to (Inr j) c) = Inl ''not connected'' \<and>
    fst (ws_Broadcast wr t (Inr j) c) = Inl ''not connected''"
proof -
  have "c = NewWebSocketClient cfg"
    using assms by (auto simp: ws_Connect_def split: sum.splits)
  then show ?thesis
    by (simp add: NewWebSocketClient_def ws_Close_def ws_Close_wait_def ws_Close_request_def
        ws_Send_def ws_Broadcast_def sendMessage_def)
qed

theorem close_without_connection_witness:
  "\<exists>c. ws_Connect Inr (\<lambda>u. Inl ''refused'') (NewWebSocketClient (DefaultConfig example_url)) =
     (Inl ''dial websocket: refused'', c) \<and> ws_Close c = Blocked"
proof -
  have "ws_Connect Inr (\<lambda>u. Inl ''refused'') (NewWebSocketClient (DefaultConfig example_url)) =
      (Inl ''dial websocket: refused'', NewWebSocketClient (DefaultConfig example_url))"
    by (simp add: ws_Connect_def)
  from close_without_connection[OF this] this show ?thesis by blast
qed

text \<open>A \<open>Close\<close> that falls between two turns of the read pump returns once the pump notices:
  the next return of its read ends it, it closes \<open>done\<close>, and makes no callback any more.\<close>

theorem close_after_connect:
  assumes "ws_Connect parse dial (NewWebSocketClient cfg) = (Inr (), c)"
  shows "\<exists>c'. readPump (CloseCalled # Read r # ins) c = ([], Done c') \<and> ws_Close_wait c' = Done c'"
proof -
  obtain u k where "c = (NewWebSocketClient cfg)\<lparr>ws_connection := Some k\<rparr>"
    using assms by (auto simp: ws_Connect_def split: sum.splits)
  then show ?thesis
    by (simp add: readPump_def readPump_turn_def readPump_exit_def ws_Close_request_def ws_Close_wait_def
        NewWebSocketClient_def)
qed

lemma dial_example:
  "ws_Connect Inr (\<lambda>u. Inr open_conn) (NewWebSocketClient (DefaultConfig example_url)) =
     (Inr (), (NewWebSocketClient (DefaultConfig example_url))\<lparr>ws_connection := Some open_conn\<rparr>)"
  by (simp add: ws_Connect_def)

theorem close_after_connect_witness:
  "\<exists>c'. readPump [CloseCalled, Read (ReadError ''closed'')]
       ((NewWebSocketClient (DefaultConfig example_url))\<lparr>ws_connection := Some open_conn\<rparr>) = ([], Done c') \<and>
     ws_Close_wait c' = Done c'"
  by (rule close_after_connect[OF dial_example])

text \<open>C34: A client that connects a second time, after its first connection failed, panics when
  the second connection fails, because both pumps close the same \<open>done\<close>.\<close>

theorem reconnect_panics:
  assumes "ws_connection c \<noteq> None" "readPump [Read (ReadError e)] c = (cbs, Done c1)"
    and "ws_Connect parse dial c1 = (Inr (), c2)"
  shows "snd (readPump [Read (ReadError e')] c2) = Panicked ''close of closed channel''"
proof -
  have "ws_done c1"
    using assms(1,2)
    by (auto simp: readPump_def readPump_turn_def readPump_exit_def split: if_splits)
  moreover have "\<exists>k. c2 = c1\<lparr>ws_connection := Some k\<rparr>"
    using assms(3) by (auto simp: ws_Connect_def split: sum.splits)
  ultimately show ?thesis
    by (auto simp: readPump_def readPump_turn_def readPump_exit_def)
qed

theorem reconnect_panics_witness:
  "\<exists>c1 c2. readPump [Read (ReadError ''EOF'')]
       ((NewWebSocketClient (DefaultConfig example_url))\<lparr>ws_connection := Some open_conn\<rparr>) = ([], Done c1) \<and>
     ws_Connect Inr (\<lambda>u. Inr open_conn) c1 = (Inr (), c2) \<and>
     snd (readPump [Read (ReadError ''EOF'')] c2) = Panicked ''close of closed channel''"
proof -
  let ?c = "(NewWebSocketClient (DefaultConfig example_url))\<lparr>ws_connection := Some open_conn\<rparr>"
  have 1: "readPump [Read (ReadError ''EOF'')] ?c = ([], Done (?c\<lparr>ws_done := True\<rparr>))"
    by (simp add: readPump_def readPump_turn_def readPump_exit_def NewWebSocketClient_def)
  have 2: "ws_Connect Inr (\<lambda>u. Inr open_conn) (?c\<lparr>ws_done := True\<rparr>) = (Inr (), ?c\<lparr>ws_done := True\<rparr>)"
    by (simp add: ws_Connect_def NewWebSocketClient_def)
  have "ws_connection ?c \<noteq> None" by simp
  from reconnect_panics[OF this 1 2] 1 2 show ?thesis by blast
qed

end
