(* ===== verification/AppProps.thy ===== *)
theory AppProps
  imports ClientProps
begin

text \<open>
  The properties of the demo client and of a signal's way from one application to another.
\<close>

section \<open>Examples\<close>

definition example_surroundings :: "nat surroundings" where
  "example_surroundings = \<lparr>sr_listen = (\<lambda>a port n. (Inr \<lparr>u_sock = n, u_ip = a, u_port = port\<rparr>, Suc n)),
     sr_ifaces = Inr [], sr_resolve = Inr, sr_write = (\<lambda>i f. None), sr_udp = None,
     sr_time = (\<lambda>_. noon), sr_unix = (\<lambda>_. 7)\<rparr>"

lemma example_surroundings_simps [simp]:
  "sr_write example_surroundings i f = None" "sr_time example_surroundings i = noon"
  "sr_unix example_surroundings i = 7"
  by (simp_all add: example_surroundings_def)

definition example_app :: app where
  "example_app = new_app example_client"

lemma example_app_simps [simp]:
  "ap_client example_app = example_client" "ap_agent example_app = None" "app_inv example_app"
  by (simp_all add: example_app_def new_app_def app_inv_def)

section \<open>From one application to another\<close>

text \<open>C6: An offer sent to a connected peer reaches that peer's application under the name of
  its sender, is answered, and the answer comes back to the caller's application, where it
  parses to the answer that was given.\<close>

theorem offer_is_answered:
  assumes a: "connected a" "ready a" "cl_handler a"
    and b: "connected (ap_client b)" "ready (ap_client b)" "cl_handler (ap_client b)"
    and net: "\<And>f. wr f = None" "\<And>f. sr_write sr 0 f = None"
    and times: "time_ok tm" "time_ok (sr_time sr 0)" "in_int 64 t" "in_int 64 (sr_unix sr 0)"
      "in_int 64 t1" "in_int 64 t2"
  shows "\<exists>a1 f1 j1 sg1 b1 f2 j2 sg2.
    SendOffer wr tm t (peer_id pb) (NewOffer sdp) a = (Inr (), a1) \<and>
    frames a1 = frames a @ [TextFrame f1] \<and> relay pa t1 f1 = Some (peer_id pb, j1) \<and>
    receive_frame j1 (ap_client b) = Done (ap_client b, Some (CallSignal (peer_id pa) sg1)) \<and>
    ParseOffer sg1 = Inr (NewOffer sdp) \<and>
    handleSignal sr (peer_id pa) sg1 b os = (Done b1, os) \<and>
    frames (ap_client b1) = frames (ap_client b) @ [TextFrame f2] \<and>
    relay pb t2 f2 = Some (peer_id pa, j2) \<and>
    receive_frame j2 a1 = Done (a1, Some (CallSignal (peer_id pb) sg2)) \<and>
    sig_type sg2 = TypeAnswer \<and> ParseAnswer sg2 = Inr (NewAnswer (demo_sdp ''P2P Demo Answer''))"
proof -
  let ?s1 = "session_signal tm (NewOffer sdp)"
  let ?s2 = "session_signal (sr_time sr 0) (NewAnswer (demo_sdp ''P2P Demo Answer''))"
  obtain a1 where a1: "send_signal wr t (peer_id pb) ?s1 a = (Inr (), a1)"
      "frames a1 = frames a @ [TextFrame (envelope t (peer_id pb) ?s1)]"
      "ws_handler (transport a1) = ws_handler (transport a)"
      "ws_peer_handler (transport a1) = ws_peer_handler (transport a)" "same_client a a1"
    using send_signal_connected[of a wr, OF a(1) net(1)] by blast
  have ready1: "ready a1" "cl_handler a1"
    using a a1(3,4) same_client_mu[OF a1(5)] a1(5) by (auto simp: ready_def same_client_def)
  obtain j1 where j1: "relay pa t1 (envelope t (peer_id pb) ?s1) = Some (peer_id pb, j1)"
      "receive_frame j1 (ap_client b) =
        Done (ap_client b, Some (CallSignal (peer_id pa) (?s1\<lparr>sig_from := peer_id pa\<rparr>)))"
    using signal_travels[OF b(2,3) session_signal_ok[OF times(1)] times(3,5)] by blast
  have offer: "session_ok (NewOffer sdp)" "sd_type (NewOffer sdp) = TypeOffer"
    by (simp_all add: NewOffer_def session_ok_def in_int_def)
  obtain c' where c': "handleSignal sr (peer_id pa) (?s1\<lparr>sig_from := peer_id pa\<rparr>) b os =
      (Done (b\<lparr>ap_client := c'\<rparr>), os)"
      "frames c' = frames (ap_client b) @ [TextFrame (envelope (sr_unix sr 0) (peer_id pa) ?s2)]"
    using handleSignal_offer[of b sr, OF b(1) net(2) offer] by blast
  obtain j2 where j2: "relay pb t2 (envelope (sr_unix sr 0) (peer_id pa) ?s2) = Some (peer_id pa, j2)"
      "receive_frame j2 a1 = Done (a1, Some (CallSignal (peer_id pb) (?s2\<lparr>sig_from := peer_id pb\<rparr>)))"
    using signal_travels[OF ready1 session_signal_ok[OF times(2)] times(4,6)] by blast
  have "SendOffer wr tm t (peer_id pb) (NewOffer sdp) a = (Inr (), a1)"
    using a1(1) by (simp add: SendOffer_eq)
  moreover have "ParseOffer (?s1\<lparr>sig_from := peer_id pa\<rparr>) = Inr (NewOffer sdp)"
    "ParseAnswer (?s2\<lparr>sig_from := peer_id pb\<rparr>) = Inr (NewAnswer (demo_sdp ''P2P Demo Answer''))"
    "sig_type (?s2\<lparr>sig_from := peer_id pb\<rparr>) = TypeAnswer"
    by (simp_all add: ParseOffer_def ParseAnswer_def parse_session_signal) (simp add: NewAnswer_def)
  moreover have "frames (ap_client (b\<lparr>ap_client := c'\<rparr>)) =
      frames (ap_client b) @ [TextFrame (envelope (sr_unix sr 0) (peer_id pa) ?s2)]"
    using c'(2) by simp
  ultimately show ?thesis
    using a1(2) j1 c'(1) j2 by blast
qed

theorem offer_is_answered_witness:
  "\<exists>a1 f2 j2 sg2. SendOffer (\<lambda>f. None) noon 7 ''b2'' (NewOffer ''v=0'') example_client = (Inr (), a1) \<and>
     relay peer_b 9 f2 = Some (''a1'', j2) \<and>
     receive_frame j2 a1 = Done (a1, Some (CallSignal ''b2'' sg2)) \<and> sig_type sg2 = TypeAnswer"
proof -
  have a: "connected example_client" "ready example_client" "cl_handler example_client" by simp_all
  then have b: "connected (ap_client example_app)" "ready (ap_client example_app)"
      "cl_handler (ap_client example_app)" by simp_all
  have i: "in_int 64 7" "in_int 64 (sr_unix example_surroundings 0)" "in_int 64 8" "in_int 64 9"
    by (simp_all add: in_int_def)
  have t: "time_ok (sr_time example_surroundings 0)" by (simp add: noon_ok)
  from offer_is_answered[of example_client example_app "\<lambda>f. None" example_surroundings noon 7 8 9 peer_b
      "''v=0''" peer_a 0, OF a b _ _ noon_ok t i]
  show ?thesis by (auto simp only: peer_ab example_surroundings_simps)
qed

text \<open>An ICE candidate sent to a peer that has started ICE is added, unchanged, to its
  agent's remote candidates; an attempt to connect is scheduled and nothing is sent back, so
  two peers do not answer each other's candidates for ever.\<close>

theorem ice_candidate_arrives:
  assumes a: "connected a" "\<And>f. wr f = None"
    and b: "ready (ap_client b)" "cl_handler (ap_client b)" "app_inv b" "ap_agent b = Some ag"
    and ok: "candidate_ok cand" "time_ok tm" "in_int 64 t" "in_int 64 t1"
  shows "\<exists>a1 f j sg. SendICECandidateJSON wr tm t to cand a = (Inr (), a1) \<and>
    frames a1 = frames a @ [TextFrame f] \<and> relay pa t1 f = Some (to, j) \<and>
    receive_frame j (ap_client b) = Done (ap_client b, Some (CallSignal (peer_id pa) sg)) \<and>
    handleSignal sr (peer_id pa) sg b os =
      (Done (b\<lparr>ap_agent := Some (ag\<lparr>ag_remote := ag_remote ag @ [cand]\<rparr>),
               ap_delayed := Suc (ap_delayed b)\<rparr>), os)"
proof -
  let ?s = "ice_signal tm cand"
  obtain a1 where a1: "send_signal wr t to ?s a = (Inr (), a1)"
      "frames a1 = frames a @ [TextFrame (envelope t to ?s)]"
    using send_signal_connected[of a wr, OF a] by blast
  obtain j where j: "relay pa t1 (envelope t to ?s) = Some (to, j)"
      "receive_frame j (ap_client b) =
        Done (ap_client b, Some (CallSignal (peer_id pa) (?s\<lparr>sig_from := peer_id pa\<rparr>)))"
    using signal_travels[OF b(1,2) ice_signal_ok[OF ok(2)] ok(3,4)] by blast
  have "handleSignal sr (peer_id pa) (?s\<lparr>sig_from := peer_id pa\<rparr>) b os =
      (Done (b\<lparr>ap_agent := Some (ag\<lparr>ag_remote := ag_remote ag @ [cand]\<rparr>), ap_delayed := Suc (ap_delayed b)\<rparr>), os)"
    by (simp add: handleSignal_ice[OF ok(1)] handleRemote_started[OF b(3,4)])
  with a1 j show ?thesis unfolding SendICECandidateJSON_eq by blast
qed

definition ice_app :: app where
  "ice_app = example_app\<lparr>ap_agent := Some (NewAgent DefaultGathererConfig)\<rparr>"

definition cand_x :: candidate where
  "cand_x = \<lparr>c_type = ''host'', c_foundation = ''1'', c_component = 1, c_protocol = ''udp'',
     c_priority = 2113929471, c_ip = ''10.0.0.7'', c_port = 10003, c_base = ''''\<rparr>"

theorem ice_candidate_arrives_witness:
  "\<exists>sg b1. handleSignal example_surroundings ''a1'' sg ice_app 0 = (Done b1, 0) \<and>
     map_option ag_remote (ap_agent b1) = Some [cand_x] \<and> ap_delayed b1 = 1"
proof -
  have a: "connected example_client" by simp
  have b: "ready (ap_client ice_app)" "cl_handler (ap_client ice_app)" "app_inv ice_app"
      "ap_agent ice_app = Some (NewAgent DefaultGathererConfig)" "ap_delayed ice_app = 0"
    by (simp_all add: ice_app_def example_app_def new_app_def app_inv_def idle_NewAgent)
  have ok: "candidate_ok cand_x" "in_int 64 7" "in_int 64 8"
    by (simp_all add: candidate_ok_def cand_x_def in_int_def)
  from ice_candidate_arrives[of example_client "\<lambda>f. None" ice_app "NewAgent DefaultGathererConfig" cand_x
      noon 7 8 "''b2''" peer_a example_surroundings 0, OF a _ b(1-4) ok(1) noon_ok ok(2,3)]
  obtain sg where "handleSignal example_surroundings ''a1'' sg ice_app 0 =
      (Done (ice_app\<lparr>ap_agent := Some ((NewAgent DefaultGathererConfig)
          \<lparr>ag_remote := ag_remote (NewAgent DefaultGathererConfig) @ [cand_x]\<rparr>),
        ap_delayed := Suc (ap_delayed ice_app)\<rparr>), 0)"
    by auto
  then show ?thesis using b(5) by (intro exI conjI) (assumption, simp_all add: NewAgent_def)
qed

section \<open>The application\<close>

text \<open>Neither a signal, nor a peer event, nor a delayed attempt to connect makes the
  application wait or panic: its agents' locks are free between steps, and an attempt is only
  scheduled when there is an agent.\<close>

theorem app_steps_finish:
  assumes "app_inv a"
  shows "(\<exists>a'. fst (handleSignal sr from sg a os) = Done a' \<and> app_inv a') \<and>
    (\<exists>a'. fst (on_peer_event sr useICE ev a os) = Done a' \<and> app_inv a') \<and>
    (0 < ap_delayed a \<longrightarrow> (\<exists>a'. delayed_connect sr a = Done a' \<and> app_inv a'))"
proof -
  obtain a1 os1 where s: "handleSignal sr from sg a os = (Done a1, os1)" "app_inv a1"
    by (rule handleSignal_Done[OF assms])
  obtain a2 os2 where i: "startICE sr (pe_peer_id ev) a os = (Done a2, os2)" "app_inv a2"
    by (rule startICE_Done)
  have "\<exists>a'. delayed_connect sr a = Done a' \<and> app_inv a'" if "0 < ap_delayed a"
    using delayed_connect_Done[OF assms that] by blast
  with s i assms show ?thesis by (auto simp: on_peer_event_def)
qed

theorem app_steps_finish_witness:
  "\<exists>a'. fst (on_peer_event example_surroundings True
     \<lparr>pe_type = ''joined'', pe_peer_id = ''b2'', pe_peers = []\<rparr> example_app 0) = Done a' \<and> app_inv a'"
  by (rule conjunct1[OF conjunct2[OF app_steps_finish[OF example_app_simps(3)]]])

text \<open>Whatever is typed, the shell never waits or panics: it reads every line until one
  tells it to quit or the input ends.\<close>

theorem shell_finishes:
  assumes "shell_ready a"
  shows "\<exists>out a'. fst (runInteractiveShell sr ord lines a os) = Done (out, a')"
  using shell_run_Done[OF assms, of sr ord lines os] by auto

theorem shell_finishes_witness:
  "\<exists>out a'. fst (runInteractiveShell example_surroundings [] [''/ice b2'', ''/peers'', ''  '', ''/quit'']
     example_app 0) = Done (out, a')"
proof (rule shell_finishes)
  have "cl_mu example_client = free_mutex" using example_client_simps(2) by (simp only: ready_def)
  then show "shell_ready example_app" by (simp add: shell_ready_def)
qed

text \<open>The \<open>/signal\<close> command reports success but sends nothing: the application and its
  connection are left as they were.\<close>

theorem signal_command_sends_nothing:
  assumes "Fields (TrimSpace line) = ''/signal'' # target # word # words"
  shows "shell_line sr ord line a os = (Done (True, [''Signal sent!''], a), os)"
proof -
  have "TrimSpace line \<noteq> []" using assms by (auto simp: Fields_def)
  with assms show ?thesis
    by (simp add: shell_line_def Let_def cmd_signal_def shell_goes_on_def)
qed

theorem signal_command_sends_nothing_witness:
  "shell_line example_surroundings [] ''/signal b2 hello'' example_app 0 =
     (Done (True, [''Signal sent!''], example_app), 0)"
proof (rule signal_command_sends_nothing)
  show "Fields (TrimSpace ''/signal b2 hello'') = ''/signal'' # ''b2'' # ''hello'' # []"
    by code_simp
qed

text \<open>\<open>Fields\<close> undoes \<open>Join\<close> on words of visible characters, and a line that is not
  blank always has a command, so the shell's second emptiness check never fires.\<close>

theorem Fields_spec:
  assumes "list_all plain_word ws"
  shows "Fields (Join ws '' '') = ws \<and> (TrimSpace line \<noteq> [] \<longrightarrow> Fields (TrimSpace line) \<noteq> [])"
  using Fields_Join[OF assms] Fields_nonblank by blast

theorem Fields_spec_witness: "Fields (Join [''/send'', ''hi'', ''there''] '' '') = [''/send'', ''hi'', ''there'']"
  by (rule conjunct1[OF Fields_spec]) (simp add: plain_word_def)

end
