(* ===== verification/WireProps.thy ===== *)
theory WireProps
  imports Sdp Wire
begin

text \<open>
  The properties of the formats: what one side marshals is what the other side reads.
\<close>

text \<open>A session description put into a signal keeps its type, survives the JSON of the
  signal with its time stamp, and parses back to the same description.\<close>

theorem session_through_signal:
  assumes "session_ok s" "time_ok t"
  shows "\<exists>sg. sd_ToSignal t s = Inr sg \<and> sig_type sg = sd_type s \<and> sig_timestamp sg = t \<and>
    unmarshal_raw dec_signal (Some (enc_signal sg)) = Inr sg \<and>
    ParseSessionDescription sg = Inr s"
proof -
  obtain sg where sg: "sd_ToSignal t s = Inr sg" by (simp add: sd_ToSignal_def)
  then have "signal_ok sg \<and> sig_type sg = sd_type s" by (rule ToSignal_ok[OF assms(2)])
  moreover have "ParseSessionDescription sg = Inr s"
    using parse_ToSignal[OF assms(1), of t] sg by simp
  moreover have "sig_timestamp sg = t" using sg by (auto simp: sd_ToSignal_def)
  ultimately show ?thesis using sg signal.dec_enc by auto
qed

definition example_time :: go_time where
  "example_time = zero_time\<lparr>year := 2024, month := 2, day := 29, hour := 23, nsec := 1500, zone := - 90\<rparr>"

theorem session_through_signal_witness:
  "\<exists>sg. sd_ToSignal example_time (NewOffer ''v=0'') = Inr sg \<and>
     unmarshal_raw dec_signal (Some (enc_signal sg)) = Inr sg"
proof -
  have "session_ok (NewOffer ''v=0'')" by (simp add: session_ok_def NewOffer_def in_int_def)
  moreover have "time_ok example_time"
    by (simp add: time_ok_def example_time_def zero_time_def days_in_def leap_def)
  ultimately show ?thesis using session_through_signal by blast
qed

text \<open>The two packages that declare the envelope agree on it in both directions, member
  by member, with the omitted empty senders and targets.\<close>

theorem envelopes_agree:
  assumes "message_ok m" "ws_message_ok w"
  shows "dec_message (enc_message m) = Inr m \<and> dec_ws_message (enc_message m) = Inr (ws_view m) \<and>
    dec_message (enc_ws_message w) = Inr (server_view w)"
  using msg.dec_enc[OF assms(1)] to_client.dec_enc[OF assms(1)] to_server.dec_enc[OF assms(2)] by simp

theorem envelopes_agree_witness:
  "dec_ws_message (enc_message \<lparr>m_type = Signal, m_from = ''a1'', m_to = '''', m_data = Some JNull, m_timestamp = 7\<rparr>) =
     Inr \<lparr>t_type = Signal, t_from = ''a1'', t_to = '''', t_data = Some JNull, t_timestamp = 7\<rparr>"
proof -
  let ?m = "\<lparr>m_type = Signal, m_from = ''a1'', m_to = '''', m_data = Some JNull, m_timestamp = 7\<rparr>"
  let ?w = "\<lparr>t_type = Signal, t_from = '''', t_to = ''b2'', t_data = Some JNull, t_timestamp = 7\<rparr>"
  have "message_ok ?m" "ws_message_ok ?w"
    by (simp_all add: message_ok_def ws_message_ok_def in_int_def)
  from envelopes_agree[OF this] show ?thesis by (simp add: ws_view_def)
qed

end
