(* ===== verification/ServerOrder.thy ===== *)
theory ServerOrder
  imports ServerDelivery "HOL-Library.Sublist"
begin

text \<open>
  From one connection to another. Of the messages that a connection's reader forwarded and
  that are addressed to another one, the other's stream holds a subsequence: what arrives
  arrives in the order in which it was sent, each message at most as often as it was sent,
  and nothing arrives that was not sent. Messages are lost only where a channel is full, the
  recipient is not in the table, or a connection ends.
\<close>

section \<open>One turn of the hub\<close>

definition from_peer :: "string \<Rightarrow> message list \<Rightarrow> message list" where
  "from_peer i ms = filter (\<lambda>m. m_from m = i) ms"

definition for_peer :: "string \<Rightarrow> message list \<Rightarrow> message list" where
  "for_peer i ms = filter (\<lambda>m. i \<in> recipients m) ms"

lemma from_peer_simps [simp]:
  "from_peer i [] = []" "from_peer i (ms @ ns) = from_peer i ms @ from_peer i ns"
  "from_peer i (m # ms) = (if m_from m = i then m # from_peer i ms else from_peer i ms)"
  by (simp_all add: from_peer_def)

lemma for_peer_simps [simp]:
  "for_peer i [] = []" "for_peer i (ms @ ns) = for_peer i ms @ for_peer i ns"
  "for_peer i (m # ms) = (if i \<in> recipients m then m # for_peer i ms else for_peer i ms)"
  by (simp_all add: for_peer_def)

lemma from_peer_empty: "(\<And>m. m \<in> set ms \<Longrightarrow> m_from m \<noteq> i) \<Longrightarrow> from_peer i ms = []"
  by (simp add: from_peer_def filter_empty_conv)

lemma deliver_at:
  assumes "hub_inv h"
  obtains "buf (chans (deliver m S h) r) = buf (chans h r)"
  | i p where "i \<in> S" "peers h i = Some p" "peer_send p = r"
      "buf (chans (deliver m S h) r) = buf (chans h r) @ [m]"
proof (cases "\<exists>i p. i \<in> S \<and> peers h i = Some p \<and> peer_send p = r")
  case True
  then obtain i p where p: "i \<in> S" "peers h i = Some p" "peer_send p = r" by blast
  from deliver_chan[OF assms p(2), of m S] p
  have "chans (deliver m S h) r = offered m (chans h r)" by simp
  then have "buf (chans (deliver m S h) r) = buf (chans h r) \<or>
      buf (chans (deliver m S h) r) = buf (chans h r) @ [m]"
    by (simp add: offered_def)
  then show thesis using that p by blast
next
  case False
  then have "chans (deliver m S h) r = chans h r" by (auto simp: deliver_def)
  then show thesis using that by simp
qed

text \<open>A routed message is added to a channel at most once, and only to a recipient's.\<close>

lemma broadcast_turn:
  assumes inv: "hub_inv h" and env: "env_ok e (peers h)" and step: "hub_step e (Broadcast m) h = Done h'"
    and i: "i \<noteq> ''''"
  shows "\<exists>ns. buf (chans h' r) = buf (chans h r) @ ns \<and>
    (from_peer i ns = [] \<or>
     from_peer i ns = [m] \<and> m_from m = i \<and> (\<exists>j p. j \<in> recipients m \<and> peers h j = Some p \<and> peer_send p = r))"
proof (cases "undeliverable m (peers h)")
  case False
  then have h': "h' = deliver m (recipients m) h"
    using handleBroadcast_deliverable[OF inv env False] step by (simp add: hub_step_def)
  from deliver_at[OF inv, of m "recipients m" r] show ?thesis
    unfolding h' by cases (force, rule exI[of _ "[m]"], auto)
next
  case True
  from handleBroadcast_undeliverable[OF inv True, of e] step
  have "h' = h \<or> h' = deliver (errMsg (now e 0) m) {m_from m} h"
    by (auto simp: hub_step_def split: option.splits if_splits)
  then show ?thesis
  proof
    assume h': "h' = deliver (errMsg (now e 0) m) {m_from m} h"
    from deliver_at[OF inv, of "errMsg (now e 0) m" "{m_from m}" r] show ?thesis
      unfolding h' by cases (force, rule exI[of _ "[errMsg (now e 0) m]"], use i in auto)
  qed auto
qed

section \<open>The invariant\<close>

lemma session_sent_same [simp]:
  "s_sent (reader_turn r t c) = s_sent c" "s_sent (writer_turn ok x c) = s_sent c"
  "s_sent (writer_tick ok c) = s_sent c" "s_sent (handler_registered c) = s_sent c"
  "s_sent (done_by_reader c) = s_sent c" "s_sent (done_by_writer c) = s_sent c"
  "s_sent (handler_returns c) = s_sent c"
  by (simp_all add: reader_turn_def writer_turn_def writer_tick_def handler_registered_def
      done_by_reader_def done_by_writer_def handler_returns_def
      split: read_result.split sum.split option.split)

definition pending :: "server \<Rightarrow> string \<Rightarrow> message list" where
  "pending s i = (case sv_pc s of Serving (Broadcast m) \<Rightarrow> if m_from m = i then [m] else [] | _ \<Rightarrow> [])"

lemma pending_simps [simp]:
  "sv_pc s = Accepting \<Longrightarrow> pending s i = []"
  "sv_pc s = Serving (Register p) \<Longrightarrow> pending s i = []"
  "sv_pc s = Serving (Unregister p) \<Longrightarrow> pending s i = []"
  "sv_pc s = Serving (Broadcast m) \<Longrightarrow> pending s i = (if m_from m = i then [m] else [])"
  by (simp_all add: pending_def)

lemma pending_cong: "sv_pc t = sv_pc s \<Longrightarrow> pending t i = pending s i"
  by (simp add: pending_def)

definition routed :: "server \<Rightarrow> nat \<Rightarrow> message list" where
  "routed s k = (let ms = s_sent (sv_sess s k) in take (length ms - length (pending s (peer_id (sess_peer s k)))) ms)"

definition sender_ok :: "server \<Rightarrow> nat \<Rightarrow> bool" where
  "sender_ok s k \<longleftrightarrow>
     peer_id (sess_peer s k) \<noteq> '''' \<and>
     s_sent (sv_sess s k) = routed s k @ pending s (peer_id (sess_peer s k)) \<and>
     (\<forall>j < sv_n s. subseq (from_peer (peer_id (sess_peer s k)) (stream s j))
        (for_peer (peer_id (sess_peer s j)) (routed s k)))"

definition ordered :: "server \<Rightarrow> bool" where
  "ordered s \<longleftrightarrow> (\<forall>k < sv_n s. sender_ok s k)"

lemma sender_okI:
  assumes "peer_id (sess_peer s k) \<noteq> ''''"
    and "s_sent (sv_sess s k) = xs @ pending s (peer_id (sess_peer s k))"
    and "\<And>j. j < sv_n s \<Longrightarrow> subseq (from_peer (peer_id (sess_peer s k)) (stream s j))
      (for_peer (peer_id (sess_peer s j)) xs)"
  shows "sender_ok s k"
proof -
  have "routed s k = xs" using assms(2) by (simp add: routed_def)
  then show ?thesis using assms by (simp add: sender_ok_def)
qed

text \<open>A step that neither forwards nor delivers.\<close>

lemma sender_ok_quiet:
  assumes "sender_ok s k" "k < sv_n s" "sv_n t = sv_n s" "\<And>j. sess_peer t j = sess_peer s j"
    and "s_sent (sv_sess t k) = s_sent (sv_sess s k)"
    and "pending t (peer_id (sess_peer s k)) = pending s (peer_id (sess_peer s k))"
    and "\<And>j. j < sv_n s \<Longrightarrow> stream t j = stream s j"
  shows "sender_ok t k"
  using assms by (intro sender_okI[where xs = "routed s k"]) (simp_all add: sender_ok_def)

lemma sender_ok_local:
  assumes "sender_ok s k" "k < sv_n s" "s_peer (f (sv_sess s l)) = sess_peer s l"
    and "s_sent (f (sv_sess s l)) = s_sent (sv_sess s l)"
    and "s_out (f (sv_sess s l)) = s_out (sv_sess s l)" "s_lost (f (sv_sess s l)) = s_lost (sv_sess s l)"
  shows "sender_ok (on_session l f s) k"
  using assms by (intro sender_ok_quiet[OF assms(1,2)]) (simp_all add: stream_def pending_def)

lemma sender_ok_request:
  assumes "sender_ok s k" "k < sv_n s" "sv_pc s = Accepting" "\<And>m. ev \<noteq> Broadcast m"
  shows "sender_ok (s\<lparr>sv_pc := Serving ev\<rparr>) k"
  using assms(3,4)
  by (intro sender_ok_quiet[OF assms(1,2)]) (auto simp: stream_def pending_def split: hub_event.split)

lemma sender_ok_turn:
  assumes inv: "server_inv s" and ok: "sender_ok s k" and k: "k < sv_n s" and pc: "sv_pc s = Serving ev"
    and env: "env_ok e (table_after ev (peers (sv_hub s)))" and step: "hub_step e ev (sv_hub s) = Done h"
  shows "sender_ok (s\<lparr>sv_hub := h, sv_pc := Accepting\<rparr>) k" (is "sender_ok ?t k")
proof (rule sender_okI[where xs = "s_sent (sv_sess s k)"])
  let ?i = "peer_id (sess_peer s k)"
  have id: "?i \<noteq> ''''" and sent: "s_sent (sv_sess s k) = routed s k @ pending s ?i"
    using ok by (simp_all add: sender_ok_def)
  show "peer_id (sess_peer ?t k) \<noteq> ''''" using id by simp
  fix j assume "j < sv_n ?t"
  then have j: "j < sv_n s" by simp
  have old: "subseq (from_peer ?i (stream s j)) (for_peer (peer_id (sess_peer s j)) (routed s k))"
    using ok j by (simp add: sender_ok_def)
  have "\<exists>ns. buf (chans h j) = buf (chans (sv_hub s) j) @ ns \<and>
      subseq (from_peer ?i ns) (for_peer (peer_id (sess_peer s j)) (pending s ?i))"
  proof (cases "\<exists>m. ev = Broadcast m")
    case True
    then obtain m where m: "ev = Broadcast m" by blast
    obtain ns where ns: "buf (chans h j) = buf (chans (sv_hub s) j) @ ns"
      "from_peer ?i ns = [] \<or> from_peer ?i ns = [m] \<and> m_from m = ?i \<and>
       (\<exists>x p. x \<in> recipients m \<and> peers (sv_hub s) x = Some p \<and> peer_send p = j)"
      using broadcast_turn[OF server_invD(1)[OF inv], of e m h ?i j] env step id m by auto
    have "peer_id (sess_peer s j) \<in> recipients m"
      if x: "x \<in> recipients m" and p: "peers (sv_hub s) x = Some p" "peer_send p = j" for x p
    proof -
      obtain l where l: "l < sv_n s" "p = sess_peer s l"
        by (rule table_okE[OF server_invD(4)[OF inv] p(1)])
      then have "l = j" using p(2) names_okD(1)[OF server_invD(3)[OF inv] l(1)] by simp
      then show ?thesis using x l hub_inv_id[OF server_invD(1)[OF inv] p(1)] by simp
    qed
    with ns show ?thesis using pc m by (intro exI[of _ ns]) auto
  next
    case False
    obtain ns where ns: "buf (chans h j) = buf (chans (sv_hub s) j) @ ns" "list_all (may_send ev) ns"
      using appends_step[OF step] by (auto simp: appends_def)
    have "from_peer ?i ns = []"
      using ns(2) False id by (intro from_peer_empty) (auto simp: list_all_iff may_send_def)
    with ns show ?thesis by (intro exI[of _ ns]) simp
  qed
  then obtain ns where "stream ?t j = stream s j @ ns"
      "subseq (from_peer ?i ns) (for_peer (peer_id (sess_peer s j)) (pending s ?i))"
    by (auto simp: stream_def)
  then show "subseq (from_peer (peer_id (sess_peer ?t k)) (stream ?t j))
      (for_peer (peer_id (sess_peer ?t j)) (s_sent (sv_sess s k)))"
    using old by (simp add: sent list_emb_append_mono)
qed simp

lemma sender_ok_forward:
  assumes inv: "server_inv s" and ok: "sender_ok s k" and k: "k < sv_n s" and l: "l < sv_n s"
    and rd: "s_reader (sv_sess s l) = Forwarding m" and pc: "sv_pc s = Accepting"
  shows "sender_ok (on_session l (reader_forwarded m) (s\<lparr>sv_pc := Serving (Broadcast m)\<rparr>)) k"
    (is "sender_ok ?t k")
proof (rule sender_okI[where xs = "s_sent (sv_sess s k)"])
  have m: "m_from m = peer_id (sess_peer s l)"
    using server_invD(6)[OF inv l] rd by (simp add: sess_ok_def)
  have peer: "sess_peer ?t j = sess_peer s j" for j by (simp add: reader_forwarded_def)
  have id: "peer_id (sess_peer s l) = peer_id (sess_peer s k) \<longleftrightarrow> l = k"
    using names_okD(2)[OF server_invD(3)[OF inv] l k] by auto
  have r: "routed s k = s_sent (sv_sess s k)" using pc by (simp add: routed_def)
  show "peer_id (sess_peer ?t k) \<noteq> ''''" using ok by (simp only: peer sender_ok_def) simp
  show "s_sent (sv_sess ?t k) = s_sent (sv_sess s k) @ pending ?t (peer_id (sess_peer ?t k))"
    using id m unfolding peer by (auto simp: reader_forwarded_def)
  fix j assume "j < sv_n ?t"
  moreover have "stream ?t j = stream s j" by (simp add: stream_def)
  ultimately show "subseq (from_peer (peer_id (sess_peer ?t k)) (stream ?t j))
      (for_peer (peer_id (sess_peer ?t j)) (s_sent (sv_sess s k)))"
    using ok unfolding peer by (simp add: sender_ok_def r)
qed

lemma generatePeerID_nonempty: "length bytes = 8 \<Longrightarrow> generatePeerID bytes \<noteq> ''''"
  using hex_encode_length[of bytes] by (auto simp: generatePeerID_def)

lemma sender_ok_new:
  assumes "peer_id (sess_peer t k) \<noteq> ''''" "s_sent (sv_sess t k) = []"
    and "pending t (peer_id (sess_peer t k)) = []"
    and "\<And>j. j < sv_n t \<Longrightarrow> from_peer (peer_id (sess_peer t k)) (stream t j) = []"
  shows "sender_ok t k"
  using assms by (intro sender_okI[where xs = "[]"]) simp_all

lemma sender_ok_connect:
  assumes inv: "server_inv s" and auth: "authentic s" and old: "ordered s"
    and bytes: "length bytes = 8" "in_int 64 u"
    and new: "\<forall>k < sv_n s. peer_id (sess_peer s k) \<noteq> generatePeerID bytes"
    and k: "k < Suc (sv_n s)"
  shows "sender_ok (s\<lparr>sv_n := Suc (sv_n s),
       sv_sess := (sv_sess s)(sv_n s := new_session (new_peer bytes (sv_n s) u))\<rparr>) k" (is "sender_ok ?t k")
proof -
  have step: "server_step s ?t" using bytes new by (rule server_step.connect)
  have new': "m_from m \<noteq> generatePeerID bytes" if "sent_by s m" for m
    using that new by (auto simp: sent_by_def)
  have stream_old: "stream ?t j = stream s j" if "j < sv_n s" for j
    using that by (simp add: stream_def)
  have stream_new: "stream ?t (sv_n s) = []"
    using stream_connect[OF inv step, of "sv_n s"] by simp
  have pend: "pending ?t i = pending s i" for i by (rule pending_cong) simp
  show ?thesis
  proof (cases "k = sv_n s")
    case True
    have none: "pending s (generatePeerID bytes) = []"
      using auth new' by (auto simp: pending_def authentic_def split: hub_pc.split hub_event.split)
    have none': "from_peer (generatePeerID bytes) (stream s j) = []" if "j < sv_n s" for j
    proof (rule from_peer_empty)
      fix m assume "m \<in> set (stream s j)"
      then have "m_from m = '''' \<or> sent_by s m" using auth that by (auto simp: authentic_def)
      then show "m_from m \<noteq> generatePeerID bytes"
        using new' generatePeerID_nonempty[OF bytes(1)] by metis
    qed
    have k_id: "peer_id (sess_peer ?t k) = generatePeerID bytes" and k_sent: "s_sent (sv_sess ?t k) = []"
      using True by (simp_all add: new_session_def new_peer_def)
    have "stream ?t j = [] \<or> j < sv_n s \<and> stream ?t j = stream s j" if "j < sv_n ?t" for j
      using that stream_old[of j] stream_new by (cases "j = sv_n s") simp_all
    then have "from_peer (peer_id (sess_peer ?t k)) (stream ?t j) = []" if "j < sv_n ?t" for j
      using that none' from_peer_simps(1) unfolding k_id by metis
    then show ?thesis
      by (intro sender_ok_new) (simp_all only: k_id k_sent pend none
          generatePeerID_nonempty[OF bytes(1)] not_False_eq_True)
  next
    case False
    with k have k': "k < sv_n s" by simp
    then have ok: "sender_ok s k" using old by (simp add: ordered_def)
    show ?thesis
    proof (rule sender_okI[where xs = "routed s k"])
      fix j assume "j < sv_n ?t"
      then show "subseq (from_peer (peer_id (sess_peer ?t k)) (stream ?t j))
          (for_peer (peer_id (sess_peer ?t j)) (routed s k))"
        using ok k' stream_old stream_new by (cases "j = sv_n s") (simp_all add: sender_ok_def)
    qed (use ok k' in \<open>simp_all add: sender_ok_def pend\<close>)
  qed
qed

lemma ordered_step:
  assumes inv: "server_inv s" and auth: "authentic s" and old: "ordered s" and step: "server_step s t"
  shows "ordered t"
  unfolding ordered_def
proof (intro allI impI)
  fix k assume k: "k < sv_n t"
  have ok: "sender_ok s k" if "k < sv_n s" using old that by (simp add: ordered_def)
  from step show "sender_ok t k"
  proof cases
    case (connect bytes u)
    then show ?thesis using sender_ok_connect[OF inv auth old] k by simp
  next
    case (broadcast l m)
    then show ?thesis using sender_ok_forward[OF inv ok] k by simp
  next
    case (hub_turn ev e h)
    then show ?thesis using sender_ok_turn[OF inv ok] k by simp
  next
    case (write_message j x c b)
    then have "stream t i = stream s i" for i
      using stream_write[OF inv, of j x c b i] names_okD(1)[OF server_invD(3)[OF inv], of j] by simp
    with write_message show ?thesis
      using k by (intro sender_ok_quiet[OF ok]) (simp_all add: pending_def)
  next
    case (register l)
    then show ?thesis using k ok by (simp add: sender_ok_local sender_ok_request)
  next
    case (unregister l)
    then show ?thesis using k ok by (simp add: sender_ok_local sender_ok_request)
  next
    case (read l r u)
    then show ?thesis using k ok by (simp add: sender_ok_local)
  next
    case (write_ping l b)
    then show ?thesis using k ok by (simp add: sender_ok_local)
  next
    case (reader_done l)
    then show ?thesis using k ok by (simp add: sender_ok_local)
  next
    case (writer_done l)
    then show ?thesis using k ok by (simp add: sender_ok_local)
  next
    case (drop l)
    then show ?thesis using k ok by (simp add: sender_ok_local)
  next
    case (hub_panic ev e msg)
    then show ?thesis using k by (intro sender_ok_quiet[OF ok]) (simp_all add: stream_def pending_def)
  qed
qed

lemma reachable_ordered: "server_reachable s \<Longrightarrow> ordered s"
proof -
  assume "server_reachable s"
  then have "authentic s \<and> ordered s"
  proof (induction rule: server_reachable_induct)
    case (start s0)
    then show ?case by (simp add: authentic_def ordered_def start_server_def)
  next
    case (step s t)
    then show ?case using authentic_step ordered_step by blast
  qed
  then show ?thesis ..
qed

lemma routed_sent: "subseq (routed s k) (s_sent (sv_sess s k))"
  unfolding routed_def Let_def by (metis append_take_drop_id list_emb_append2 subseq_order.order_refl subseq_rev_drop_many)

text \<open>The messages of one connection in the stream of another.\<close>

lemma stream_from:
  assumes "server_reachable s" "j < sv_n s" "k < sv_n s"
  shows "subseq (from_peer (peer_id (sess_peer s k)) (stream s j))
    (for_peer (peer_id (sess_peer s j)) (s_sent (sv_sess s k)))"
proof -
  have "subseq (from_peer (peer_id (sess_peer s k)) (stream s j))
      (for_peer (peer_id (sess_peer s j)) (routed s k))"
    using reachable_ordered[OF assms(1)] assms(2,3) by (simp add: ordered_def sender_ok_def)
  also have "subseq \<dots> (for_peer (peer_id (sess_peer s j)) (s_sent (sv_sess s k)))"
    unfolding for_peer_def by (rule subseq_filter[OF routed_sent])
  finally show ?thesis .
qed

end
