(* ===== verification/ServerTyping.thy ===== *)
theory ServerTyping
  imports ServerOrder PeerView
begin

text \<open>
  A typing of messages: the string in \<open>type\<close> says which payload \<open>data\<close> holds. The Go
  code has this only by convention, since \<open>data\<close> is raw JSON. Whatever connections send,
  every message the hub itself makes is well typed (\<open>hub_turn_typed\<close>,
  \<open>reachable_hub_typed\<close>), and a client library with its callbacks set makes progress on
  every well-typed message: it decodes the payload, and makes the callback that belongs to
  the type (\<open>typed_progress\<close>).
\<close>

section \<open>The judgement\<close>

inductive well_typed :: "message \<Rightarrow> bool" where
  wt_registered: "in_int 64 t \<Longrightarrow> well_typed \<lparr>m_type = PeerRegistered, m_from = f, m_to = a,
     m_data = Some (enc_registered d), m_timestamp = t\<rparr>"
| wt_list: "in_int 64 t \<Longrightarrow> peer_list_ok ds \<Longrightarrow> well_typed \<lparr>m_type = PeerList, m_from = f, m_to = a,
     m_data = Some (enc_peer_list ds), m_timestamp = t\<rparr>"
| wt_joined: "in_int 64 t \<Longrightarrow> joined_left_ok jd \<Longrightarrow> well_typed \<lparr>m_type = PeerJoined, m_from = f, m_to = a,
     m_data = Some (enc_joined_left jd), m_timestamp = t\<rparr>"
| wt_left: "in_int 64 t \<Longrightarrow> joined_left_ok jd \<Longrightarrow> well_typed \<lparr>m_type = PeerLeft, m_from = f, m_to = a,
     m_data = Some (enc_joined_left jd), m_timestamp = t\<rparr>"
| wt_signal: "in_int 64 t \<Longrightarrow> signal_ok sg \<Longrightarrow> well_typed \<lparr>m_type = Signal, m_from = f, m_to = a,
     m_data = Some (enc_signal sg), m_timestamp = t\<rparr>"
| wt_error: "in_int 64 t \<Longrightarrow> well_typed \<lparr>m_type = Error, m_from = f, m_to = a,
     m_data = Some (enc_error_data ed), m_timestamp = t\<rparr>"

inductive_cases well_typedE: "well_typed m"

lemma well_typed_time: "well_typed m \<Longrightarrow> in_int 64 (m_timestamp m)"
  by (erule well_typedE) simp_all

lemma well_typed_stamp: "well_typed m \<Longrightarrow> in_int 64 t \<Longrightarrow> well_typed (stamp p t m)"
  by (erule well_typedE) (simp_all add: stamp_def well_typed.intros)

text \<open>A signal message is typed by its payload alone.\<close>

inductive_simps well_typed_Signal [simp]: "well_typed \<lparr>m_type = Signal, m_from = f, m_to = a, m_data = d, m_timestamp = t\<rparr>"

definition hub_made :: "message \<Rightarrow> bool" where
  "hub_made m \<longleftrightarrow> well_typed m \<and> m_type m \<noteq> Signal"

lemma hub_made_msgs:
  assumes "clock_ok e"
  shows "hub_made (regMsg (now e k) p)" "hub_made (errMsg (now e k) m)" "hub_made (leftMsg (now e k) p)"
    "in_int 64 (joined_at p) \<Longrightarrow> hub_made (joinedMsg (now e k) p)"
    "list_all peer_info_ok infos \<Longrightarrow> hub_made (listMsg (now e k) infos)"
  using assms
  by (auto simp: hub_made_def regMsg_def errMsg_def leftMsg_def joinedMsg_def listMsg_def clock_ok_def
      peer_list_ok_def joined_left_ok_def peer_info_ok_def
      intro!: wt_registered wt_error wt_left wt_joined wt_list)

section \<open>Progress\<close>

text \<open>The event that the application sees for a message.\<close>

fun event_of :: "string \<Rightarrow> app_call option \<Rightarrow> bool" where
  "event_of ty None \<longleftrightarrow> ty = PeerRegistered \<or> ty = Error"
| "event_of ty (Some (CallSignal f sg)) \<longleftrightarrow> ty = Signal"
| "event_of ty (Some (CallPeerEvent ev)) \<longleftrightarrow>
     (pe_type ev = ''list'' \<and> ty = PeerList) \<or> (pe_type ev = ''joined'' \<and> ty = PeerJoined) \<or>
     (pe_type ev = ''left'' \<and> ty = PeerLeft)"

definition listening :: "client \<Rightarrow> bool" where
  "listening c \<longleftrightarrow> ready c \<and> cl_handler c \<and> cl_peer_handler c"

lemma listening_ready: "listening c \<Longrightarrow> ready c"
  by (simp add: listening_def)

lemma typed_progress:
  assumes "well_typed m" and c: "listening c"
  shows "\<exists>c' call. receive_frame (enc_message m) c = Done (c', call) \<and> listening c' \<and> event_of (m_type m) call"
proof -
  have h: "ws_handler (transport c)" "ws_peer_handler (transport c)" and r: "ready c"
    and a: "cl_handler c" "cl_peer_handler c"
    using c by (simp_all add: listening_def ready_def)
  note f = receive_frame_def dispatch_def handleMessage_def call_peer_def zero_event_def
    server_type_names enc_raw_def dec_ws_enc deliver_event_ready handleTransportMessage_ready
    registered_link.dec_enc peer_list_link.dec_enc joined_left_link.dec_enc event_call_def peer_call_def
  have l: "listening (c\<lparr>cl_peers := ps\<rparr>)" "listening (c\<lparr>transport := (transport c)\<lparr>ws_my_id := i\<rparr>\<rparr>)"
    "listening (c\<lparr>transport := (transport c)\<lparr>ws_my_id := i\<rparr>, cl_peers := ps\<rparr>)" for ps i
    using c by (simp_all add: listening_def ready_def)
  from assms(1) show ?thesis
  proof cases
    case (wt_registered t f a d)
    then show ?thesis by (simp add: f h r a l)
  next
    case (wt_list t ds f a)
    then show ?thesis by (simp add: f h r a l)
  next
    case (wt_joined t jd f a)
    then show ?thesis by (simp add: f h r a l)
  next
    case (wt_left t jd f a)
    then show ?thesis by (simp add: f h r a l)
  next
    case (wt_signal t sg f a)
    then show ?thesis by (simp add: f h r a c)
  next
    case (wt_error t f a ed)
    then show ?thesis by (simp add: f h r a c)
  qed
qed

section \<open>The hub's messages\<close>

lemma appends_deliver: "hub_inv h \<Longrightarrow> Q m \<Longrightarrow> appends Q h (deliver m S h)"
  unfolding appends_def
proof
  fix r assume "hub_inv h" "Q m"
  from deliver_at[OF this(1), of m S r] this(2)
  show "\<exists>ms. buf (chans (deliver m S h) r) = buf (chans h r) @ ms \<and> list_all Q ms"
    by cases auto
qed

lemma appends_admit:
  "fresh_peer h p \<Longrightarrow> list_all Q (greeting e p ((peers h)(peer_id p \<mapsto> p))) \<Longrightarrow> appends Q h (admit e p h)"
  by (simp add: appends_def admit_def Let_def fresh_peer_def)

lemma appends_evict: "appends Q h (evict p h)"
  by (simp add: appends_def evict_def split: option.split)

definition times_ok :: "(string \<rightharpoonup> peer) \<Rightarrow> bool" where
  "times_ok tbl \<longleftrightarrow> (\<forall>i p. tbl i = Some p \<longrightarrow> in_int 64 (joined_at p))"

lemma hub_turn_typed:
  assumes inv: "hub_inv h" and ok: "request_ok (e, ev) h" and clock: "clock_ok e"
    and times: "times_ok (peers h)" "\<And>p. ev = Register p \<Longrightarrow> in_int 64 (joined_at p)"
    and step: "hub_step e ev h = Done h'"
  shows "appends (\<lambda>m. hub_made m \<or> ev = Broadcast m) h h'"
  using inv ok
proof (cases rule: hub_step_cases)
  case (register p)
  have "list_all peer_info_ok (peer_infos (peer_id p) ids ((peers h)(peer_id p \<mapsto> p)))" for ids
    using times register(1) by (intro peer_infos_ok) (auto simp: times_ok_def split: if_splits)
  then have "appends (\<lambda>m. hub_made m \<or> ev = Broadcast m) h (admit e p h)"
    using hub_made_msgs[OF clock] by (intro appends_admit[OF register(3)]) (simp add: greeting_def)
  also have "appends (\<lambda>m. hub_made m \<or> ev = Broadcast m) (admit e p h) h'"
    using register step times(2) hub_made_msgs[OF clock]
    by (auto intro!: appends_deliver hub_inv_admit[OF inv])
  finally show ?thesis .
next
  case (unregister p)
  have "appends (\<lambda>m. hub_made m \<or> ev = Broadcast m) h (evict p h)" by (rule appends_evict)
  also have "appends (\<lambda>m. hub_made m \<or> ev = Broadcast m) (evict p h) h'"
    using unregister step hub_made_msgs[OF clock]
    by (auto intro!: appends_deliver hub_inv_evict[OF inv])
  finally show ?thesis .
qed (use step hub_made_msgs[OF clock] in \<open>auto intro: appends_deliver[OF inv]\<close>)

section \<open>In every reachable state\<close>

definition typed_chan :: "server \<Rightarrow> nat \<Rightarrow> bool" where
  "typed_chan s k \<longleftrightarrow> (\<forall>m \<in> set (stream s k). in_int 64 (m_timestamp m) \<and> (m_from m = '''' \<longrightarrow> hub_made m))"

definition typed_session :: "session \<Rightarrow> bool" where
  "typed_session c \<longleftrightarrow> in_int 64 (joined_at (s_peer c)) \<and>
     (\<forall>m. s_reader c = Forwarding m \<longrightarrow> in_int 64 (m_timestamp m) \<and> m_from m \<noteq> '''')"

definition hub_typed :: "server \<Rightarrow> bool" where
  "hub_typed s \<longleftrightarrow>
     (\<forall>k < sv_n s. typed_session (sv_sess s k) \<and> typed_chan s k) \<and>
     (\<forall>m. sv_pc s = Serving (Broadcast m) \<longrightarrow> in_int 64 (m_timestamp m) \<and> m_from m \<noteq> '''')"

lemma typed_chan_append:
  assumes "typed_chan s k" "stream t k = stream s k @ ms"
    and "\<And>m. m \<in> set ms \<Longrightarrow> hub_made m \<or> in_int 64 (m_timestamp m) \<and> m_from m \<noteq> ''''"
  shows "typed_chan t k"
  using assms well_typed_time by (fastforce simp: typed_chan_def hub_made_def)

lemma typed_session_pump:
  assumes "typed_session c" "in_int 64 t" "peer_id (s_peer c) \<noteq> ''''"
  shows "typed_session (reader_turn r t c)"
  using assms
  by (auto simp: typed_session_def reader_turn_def stamp_def split: read_result.split sum.split)

lemma typed_session_same [simp]:
  "typed_session c \<Longrightarrow> typed_session (reader_forwarded m c)"
  "typed_session c \<Longrightarrow> typed_session (writer_turn ok x c)"
  "typed_session c \<Longrightarrow> typed_session (writer_tick ok c)"
  "typed_session c \<Longrightarrow> typed_session (handler_registered c)"
  "typed_session c \<Longrightarrow> typed_session (handler_returns c)"
  "typed_session c \<Longrightarrow> typed_session (done_by_reader c)"
  "typed_session c \<Longrightarrow> typed_session (done_by_writer c)"
  "typed_session c \<Longrightarrow> typed_session (c\<lparr>s_open := b\<rparr>)"
  by (simp_all add: typed_session_def reader_forwarded_def writer_turn_def writer_tick_def
      handler_registered_def handler_returns_def done_by_reader_def done_by_writer_def
      split: option.split)

lemma hub_typedD:
  assumes "hub_typed s"
  shows "k < sv_n s \<Longrightarrow> typed_session (sv_sess s k)" "k < sv_n s \<Longrightarrow> typed_chan s k"
    "sv_pc s = Serving (Broadcast m) \<Longrightarrow> in_int 64 (m_timestamp m) \<and> m_from m \<noteq> ''''"
  using assms by (simp_all add: hub_typed_def)

lemma hub_typed_turn:
  assumes inv: "server_inv s" and old: "hub_typed s" and pc: "sv_pc s = Serving ev"
    and env: "env_ok e (table_after ev (peers (sv_hub s)))" "clock_ok e"
    and step: "hub_step e ev (sv_hub s) = Done h" and k: "k < sv_n s"
  shows "typed_chan (s\<lparr>sv_hub := h, sv_pc := Accepting\<rparr>) k"
proof -
  have sess: "in_int 64 (joined_at (sess_peer s j))" if "j < sv_n s" for j
    using hub_typedD(1)[OF old that] by (simp add: typed_session_def)
  have times: "times_ok (peers (sv_hub s))"
    unfolding times_ok_def
  proof (intro allI impI)
    fix i p assume "peers (sv_hub s) i = Some p"
    with server_invD(4)[OF inv] obtain j where "j < sv_n s" "p = sess_peer s j"
      by (rule table_okE)
    then show "in_int 64 (joined_at p)" using sess by simp
  qed
  have reg: "in_int 64 (joined_at p)" if "ev = Register p" for p
    using server_invD(5)[OF inv] pc that sess by (auto simp: serving_ok_def)
  obtain ms where ms: "buf (chans h k) = buf (chans (sv_hub s) k) @ ms"
      "list_all (\<lambda>m. hub_made m \<or> ev = Broadcast m) ms"
    using hub_turn_typed[OF server_invD(1)[OF inv] serving_request_ok[OF inv pc env(1)] env(2) times reg step]
    by (auto simp: appends_def)
  show ?thesis
  proof (rule typed_chan_append[OF hub_typedD(2)[OF old k], of _ ms])
    fix m assume "m \<in> set ms"
    with ms(2) show "hub_made m \<or> in_int 64 (m_timestamp m) \<and> m_from m \<noteq> ''''"
      using hub_typedD(3)[OF old, of m] pc by (auto simp: list_all_iff)
  qed (simp add: stream_def ms(1))
qed

lemma hub_typed_connect:
  assumes inv: "server_inv s" and old: "hub_typed s" and step: "server_step s t"
    and t: "t = s\<lparr>sv_n := Suc (sv_n s),
      sv_sess := (sv_sess s)(sv_n s := new_session (new_peer bytes (sv_n s) u))\<rparr>" and u: "in_int 64 u"
  shows "hub_typed t"
proof -
  have "stream t (sv_n s) = []"
    using stream_connect[OF inv step, of "sv_n s"] t by simp
  then have "typed_chan t (sv_n s)" by (simp add: typed_chan_def)
  moreover have "typed_session (sv_sess t (sv_n s))"
    using u by (simp add: t typed_session_def new_session_def new_peer_def)
  moreover have "typed_chan t k" "sv_sess t k = sv_sess s k" if "k < sv_n s" for k
    using that hub_typedD(2)[OF old that] by (simp_all add: t typed_chan_def stream_def)
  ultimately show ?thesis
    using old by (auto simp: t hub_typed_def less_Suc_eq)
qed

lemma hub_typed_pc:
  assumes "hub_typed s" "\<And>m. pc = Serving (Broadcast m) \<Longrightarrow> in_int 64 (m_timestamp m) \<and> m_from m \<noteq> ''''"
  shows "hub_typed (s\<lparr>sv_pc := pc\<rparr>)"
  using assms by (simp add: hub_typed_def typed_chan_def stream_def)

lemma hub_typed_on:
  assumes "hub_typed s" "k < sv_n s" "typed_session (f (sv_sess s k))"
    and "s_out (f (sv_sess s k)) = s_out (sv_sess s k)" "s_lost (f (sv_sess s k)) = s_lost (sv_sess s k)"
  shows "hub_typed (on_session k f s)"
proof -
  have "stream (on_session k f s) j = stream s j" for j using assms(4,5) by (simp add: stream_def)
  then show ?thesis using assms(1-3) by (auto simp: hub_typed_def typed_chan_def)
qed

lemma hub_typed_step:
  assumes inv: "server_inv s" and ord: "ordered s" and old: "hub_typed s" and step: "server_step s t"
  shows "hub_typed t"
  using step
proof cases
  case (connect bytes u)
  then show ?thesis using hub_typed_connect[OF inv old step] by simp
next
  case (register k)
  then show ?thesis using hub_typedD(1)[OF old] by (auto intro!: hub_typed_on hub_typed_pc old)
next
  case (unregister k)
  then show ?thesis using hub_typedD(1)[OF old] by (auto intro!: hub_typed_on hub_typed_pc old)
next
  case (broadcast k m)
  then have "in_int 64 (m_timestamp m) \<and> m_from m \<noteq> ''''"
    using hub_typedD(1)[OF old broadcast(2)] by (simp add: typed_session_def)
  with broadcast show ?thesis
    using hub_typedD(1)[OF old] by (auto intro!: hub_typed_on hub_typed_pc old)
next
  case (hub_turn ev e h)
  then show ?thesis
    using hub_typed_turn[OF inv old] hub_typedD(1)[OF old] by (simp add: hub_typed_def)
next
  case (hub_panic ev e msg)
  then show ?thesis using old by (simp add: hub_typed_def typed_chan_def stream_def)
next
  case (read k r u)
  then have "peer_id (sess_peer s k) \<noteq> ''''" using ord by (simp add: ordered_def sender_ok_def)
  with read show ?thesis
    using hub_typedD(1)[OF old] by (auto intro!: hub_typed_on typed_session_pump old)
next
  case (write_message k x c b)
  then have "stream t j = stream s j" for j
    using stream_write[OF inv, of k x c b j] names_okD(1)[OF server_invD(3)[OF inv], of k] by simp
  with write_message show ?thesis
    using hub_typedD[OF old] by (auto simp: hub_typed_def typed_chan_def)
next
  case (write_ping k b)
  then show ?thesis using hub_typedD(1)[OF old] by (auto intro!: hub_typed_on old)
next
  case (reader_done k)
  then show ?thesis using hub_typedD(1)[OF old] by (auto intro!: hub_typed_on old)
next
  case (writer_done k)
  then show ?thesis using hub_typedD(1)[OF old] by (auto intro!: hub_typed_on old)
next
  case (drop k)
  then show ?thesis using hub_typedD(1)[OF old] by (auto intro!: hub_typed_on old)
qed

lemma reachable_hub_typed: "server_reachable s \<Longrightarrow> hub_typed s"
proof -
  assume "server_reachable s"
  then have "(authentic s \<and> ordered s) \<and> hub_typed s"
  proof (induction rule: server_reachable_induct)
    case (start s0)
    then show ?case by (simp add: authentic_def ordered_def hub_typed_def start_server_def)
  next
    case (step s t)
    then show ?case using authentic_step ordered_step hub_typed_step by blast
  qed
  then show ?thesis ..
qed

end
