(* ===== verification/World.thy ===== *)
theory World
  imports ServerTyping EndToEnd
begin

text \<open>
  The whole system: the server with all its goroutines, and one client process, built on the
  client library, at the other end of every connection.

  A world is a state of the server, the clients by the number of their connection, and how
  far the two ends have read: \<open>w_taken\<close> counts the text frames of a client that its
  \<open>readPump\<close> on the server has taken, \<open>w_seen\<close> the frames of the server that the
  client's \<open>readPump\<close> has taken, and \<open>w_calls\<close> is the list of callbacks made to the
  client's application. A socket carries frames in order and without loss while it is open.

  A step is a step of the server that takes no text from a socket (\<open>serve\<close>), the server's
  reader taking the next frame (\<open>uplink\<close>), a client's reader taking the next frame
  (\<open>downlink\<close>), a call of the client library by its application, or a ping
  (\<open>act\<close>), and the end of a client's \<open>readPump\<close> (\<open>hang_up\<close>). Every step is an
  operation of the components, so that the invariants of the server hold of the world too.
\<close>

section \<open>Clients\<close>

definition new_conn :: ws_conn where
  "new_conn = \<lparr>written = [], conn_open = True\<rparr>"

text \<open>A client whose \<open>Connect\<close> has just succeeded.\<close>

definition connects :: "string \<Rightarrow> client \<Rightarrow> bool" where
  "connects url c \<longleftrightarrow> client_Connect Inr (\<lambda>_. Inr new_conn) url = Inr c"

text \<open>
  What the goroutines of a client's process other than \<open>readPump\<close> do to it: the calls of
  the library and the tick of \<open>writePump\<close>. The clock gives a time that has a JSON form.
\<close>

inductive client_act :: "client \<Rightarrow> client \<Rightarrow> bool" where
  offer: "time_ok tm \<Longrightarrow> in_int 64 t \<Longrightarrow> client_act c (snd (SendOffer wr tm t to s c))"
| answer: "time_ok tm \<Longrightarrow> in_int 64 t \<Longrightarrow> client_act c (snd (SendAnswer wr tm t to s c))"
| candidate: "time_ok tm \<Longrightarrow> in_int 64 t \<Longrightarrow> client_act c (snd (SendICECandidate wr tm t to x c))"
| candidate_json: "time_ok tm \<Longrightarrow> in_int 64 t \<Longrightarrow>
     client_act c (snd (SendICECandidateJSON wr tm t to y c))"
| on_signal: "OnSignal c = Done c' \<Longrightarrow> client_act c c'"
| on_peer_event: "OnPeerEvent c = Done c' \<Longrightarrow> client_act c c'"
| peers_query: "Peers ord c = Done (ids, c') \<Longrightarrow> client_act c c'"
| ping: "writePump_turn wr (transport c) = Continue tr \<Longrightarrow> client_act c (c\<lparr>transport := tr\<rparr>)"
| close_request: "client_act c (c\<lparr>transport := ws_Close_request (transport c)\<rparr>)"

fun texts_of :: "frame list \<Rightarrow> json list" where
  "texts_of [] = []"
| "texts_of (TextFrame j # fs) = j # texts_of fs"
| "texts_of (PingFrame # fs) = texts_of fs"

definition texts :: "client \<Rightarrow> json list" where
  "texts c = texts_of (frames c)"

section \<open>The world\<close>

record world =
  w_server :: server
  w_client :: "nat \<Rightarrow> client"
  w_taken :: "nat \<Rightarrow> nat"
  w_seen :: "nat \<Rightarrow> nat"
  w_calls :: "nat \<Rightarrow> app_call list"

text \<open>A step of the server in which no reader has taken a message.\<close>

definition takes_no_text :: "server \<Rightarrow> server \<Rightarrow> bool" where
  "takes_no_text s t \<longleftrightarrow>
     (\<forall>k m. k < sv_n s \<longrightarrow> s_reader (sv_sess t k) = Forwarding m \<longrightarrow> s_reader (sv_sess s k) = Forwarding m)"

definition call_list :: "app_call option \<Rightarrow> app_call list" where
  "call_list x = (case x of None \<Rightarrow> [] | Some y \<Rightarrow> [y])"

inductive world_step :: "world \<Rightarrow> world \<Rightarrow> bool" where
  serve: "server_step (w_server w) s \<Longrightarrow> takes_no_text (w_server w) s \<Longrightarrow>
     world_step w (w\<lparr>w_server := s\<rparr>)"
| uplink: "k < sv_n (w_server w) \<Longrightarrow> s_reader (sv_sess (w_server w) k) = Reading \<Longrightarrow>
     s_open (sv_sess (w_server w) k) \<Longrightarrow> w_taken w k < length (texts (w_client w k)) \<Longrightarrow> in_int 64 t \<Longrightarrow>
     world_step w (w\<lparr>w_taken := (w_taken w)(k := Suc (w_taken w k)),
       w_server := on_session k (reader_turn (ReadText (Some (texts (w_client w k) ! w_taken w k))) t)
         (w_server w)\<rparr>)"
| downlink: "k < sv_n (w_server w) \<Longrightarrow> w_seen w k < length (s_out (sv_sess (w_server w) k)) \<Longrightarrow>
     \<not> ws_done (transport (w_client w k)) \<Longrightarrow>
     receive_frame (enc_message (s_out (sv_sess (w_server w) k) ! w_seen w k)) (w_client w k) = Done (c, call) \<Longrightarrow>
     world_step w (w\<lparr>w_seen := (w_seen w)(k := Suc (w_seen w k)), w_client := (w_client w)(k := c),
       w_calls := (w_calls w)(k := w_calls w k @ call_list call)\<rparr>)"
| act: "k < sv_n (w_server w) \<Longrightarrow> client_act (w_client w k) c \<Longrightarrow>
     world_step w (w\<lparr>w_client := (w_client w)(k := c)\<rparr>)"
| hang_up: "k < sv_n (w_server w) \<Longrightarrow> readPump_exit (transport (w_client w k)) = Done tr \<Longrightarrow>
     world_step w (w\<lparr>w_client := (w_client w)(k := (w_client w k)\<lparr>transport := tr\<rparr>)\<rparr>)"

definition start_world :: "session \<Rightarrow> (nat \<Rightarrow> client) \<Rightarrow> world" where
  "start_world s0 cs = \<lparr>w_server = start_server s0, w_client = cs, w_taken = (\<lambda>_. 0),
     w_seen = (\<lambda>_. 0), w_calls = (\<lambda>_. [])\<rparr>"

inductive world_reachable :: "world \<Rightarrow> bool" where
  world_start: "\<forall>k. connects (url k) (cs k) \<Longrightarrow> world_reachable (start_world s0 cs)"
| world_next: "world_reachable w \<Longrightarrow> world_step w v \<Longrightarrow> world_reachable v"

section \<open>The world's server is a server\<close>

lemma uplink_step:
  assumes "k < sv_n s" "s_reader (sv_sess s k) = Reading" "s_open (sv_sess s k)" "in_int 64 t"
  shows "server_step s (on_session k (reader_turn (ReadText j) t) s)"
  using assms by (intro server_step.read) simp_all

lemma world_server: "world_reachable w \<Longrightarrow> server_reachable (w_server w)"
proof (induction rule: world_reachable.induct)
  case (world_start url cs s0)
  then show ?case
    by (auto simp: start_world_def server_reachable_def intro: server_steps.no_step)
next
  case (world_next w v)
  from \<open>world_step w v\<close> have "w_server v = w_server w \<or> server_step (w_server w) (w_server v)"
    by cases (auto intro: uplink_step)
  with world_next show ?case by (auto intro: reachable_step)
qed

section \<open>What a client has sent\<close>

text \<open>The message the server decodes from a text frame, and the signal in it.\<close>

definition wire :: "json \<Rightarrow> message" where
  "wire j = (case dec_message j of Inl e \<Rightarrow> zero_message | Inr m \<Rightarrow> m)"

definition signal_in :: "message \<Rightarrow> signal" where
  "signal_in m = (case unmarshal_raw dec_signal (m_data m) of Inl e \<Rightarrow> zero_signal | Inr sg \<Rightarrow> sg)"

definition sent_signals :: "client \<Rightarrow> (string \<times> signal) list" where
  "sent_signals c = map (\<lambda>j. (m_to (wire j), signal_in (wire j))) (texts c)"

lemma texts_of_append [simp]: "texts_of (fs @ gs) = texts_of fs @ texts_of gs"
  by (induction fs rule: texts_of.induct) auto

lemma dec_envelope:
  "in_int 64 t \<Longrightarrow> dec_message (envelope t to sg) =
     Inr \<lparr>m_type = Signal, m_from = '''', m_to = to, m_data = Some (enc_signal sg), m_timestamp = t\<rparr>"
  unfolding envelope_def
  by (subst to_server.dec_enc) (simp_all add: ws_message_ok_def server_view_def server_type_names)

lemma wire_envelope:
  "in_int 64 t \<Longrightarrow> wire (envelope t to sg) =
     \<lparr>m_type = Signal, m_from = '''', m_to = to, m_data = Some (enc_signal sg), m_timestamp = t\<rparr>"
  by (simp add: wire_def dec_envelope)

lemma signal_in_enc: "signal_ok sg \<Longrightarrow> m_data m = Some (enc_signal sg) \<Longrightarrow> signal_in m = sg"
  by (simp add: signal_in_def signal.dec_enc)

lemma sent_envelope:
  assumes "frames c' = frames c @ [TextFrame (envelope t to sg)]" "in_int 64 t" "signal_ok sg"
  shows "sent_signals c' = sent_signals c @ [(to, sg)]"
  using assms by (simp add: sent_signals_def texts_def wire_envelope signal_in_enc)

text \<open>So \<open>sent_signals\<close> is the list of the calls that succeeded.\<close>

lemma SendOffer_logged:
  assumes "connected c" "\<And>f. wr f = None" "time_ok tm" "in_int 64 t"
  shows "sent_signals (snd (SendOffer wr tm t to s c)) = sent_signals c @ [(to, session_signal tm s)]"
proof -
  obtain c' where "send_signal wr t to (session_signal tm s) c = (Inr (), c')"
      "frames c' = frames c @ [TextFrame (envelope t to (session_signal tm s))]"
    using send_signal_connected[of c wr t to "session_signal tm s", OF assms(1,2)] by blast
  then show ?thesis
    using sent_envelope[of c' c t to "session_signal tm s"] assms(3,4)
    by (simp add: SendOffer_eq session_signal_ok)
qed

section \<open>Clients keep their shape\<close>

definition proper_text :: "json \<Rightarrow> bool" where
  "proper_text j \<longleftrightarrow> (\<exists>t to sg. j = envelope t to sg \<and> in_int 64 t \<and> signal_ok sg)"

definition client_ok :: "client \<Rightarrow> bool" where
  "client_ok c \<longleftrightarrow> ready c \<and> list_all proper_text (texts c)"

lemma client_ok_send:
  assumes "client_ok c" "in_int 64 t" "signal_ok sg"
  shows "client_ok (snd (send_signal wr t to sg c)) \<and>
    (texts (snd (send_signal wr t to sg c)) = texts c \<or>
     texts (snd (send_signal wr t to sg c)) = texts c @ [envelope t to sg])"
proof -
  have "proper_text (envelope t to sg)" using assms(2,3) by (auto simp: proper_text_def)
  then show ?thesis
    using assms(1)
    by (cases "ws_connection (transport c)"; cases "wr (TextFrame (envelope t to sg))")
       (simp_all add: send_signal_def ws_Send_def sendMessage_def write_frame_def client_ok_def
        ready_def texts_def frames_def envelope_def)
qed

definition extends_texts :: "client \<Rightarrow> client \<Rightarrow> bool" where
  "extends_texts c c' \<longleftrightarrow> (\<exists>js. texts c' = texts c @ js)"

lemma extends_texts_refl [simp]: "extends_texts c c"
  by (simp add: extends_texts_def)

lemma client_act_send:
  assumes "client_ok c" "in_int 64 t" "signal_ok sg"
  shows "client_ok (snd (send_signal wr t to sg c)) \<and> extends_texts c (snd (send_signal wr t to sg c))"
  using client_ok_send[OF assms, of wr to] by (auto simp: extends_texts_def)

lemma client_ok_same_transport:
  assumes "client_ok c" "transport c' = transport c" "cl_mu c' = free_mutex"
  shows "client_ok c' \<and> extends_texts c c'"
  using assms by (simp add: client_ok_def ready_def texts_def frames_def extends_texts_def)

lemma client_ok_transport:
  assumes "client_ok c" "ws_handler tr" "ws_peer_handler tr"
    and "texts_of (case ws_connection tr of None \<Rightarrow> [] | Some k \<Rightarrow> written k) = texts c"
  shows "client_ok (c\<lparr>transport := tr\<rparr>) \<and> extends_texts c (c\<lparr>transport := tr\<rparr>)"
  using assms by (simp add: client_ok_def ready_def texts_def frames_def extends_texts_def)

lemma client_act_ok:
  assumes "client_act c c'" "client_ok c"
  shows "client_ok c' \<and> extends_texts c c'"
  using assms(1)
proof cases
  case (offer tm t wr to s)
  then show ?thesis
    using client_act_send[OF assms(2)] by (simp add: SendOffer_eq session_signal_ok)
next
  case (answer tm t wr to s)
  then show ?thesis
    using client_act_send[OF assms(2)] by (simp add: SendAnswer_eq session_signal_ok)
next
  case (candidate tm t wr to x)
  then show ?thesis
    using client_act_send[OF assms(2)] by (simp add: SendICECandidate_def sc_ToSignal_def signal_ok_def)
next
  case (candidate_json tm t wr to y)
  then show ?thesis
    using client_act_send[OF assms(2)] by (simp add: SendICECandidateJSON_eq ice_signal_ok)
next
  case on_signal
  then show ?thesis
    using assms(2)
    by (intro client_ok_same_transport) (auto simp: OnSignal_def client_ok_def ready_def go_simps)
next
  case on_peer_event
  then show ?thesis
    using assms(2)
    by (intro client_ok_same_transport) (auto simp: OnPeerEvent_def client_ok_def ready_def go_simps)
next
  case (peers_query ord ids)
  then show ?thesis using assms(2) by (auto simp: Peers_ready client_ok_def)
next
  case (ping wr tr)
  then show ?thesis
    using assms(2)
    by (auto simp: writePump_turn_def write_frame_def client_ok_def ready_def texts_def frames_def
        extends_texts_def split: if_splits option.splits)
next
  case close_request
  then show ?thesis
    using assms(2)
    by (auto simp: ws_Close_request_def client_ok_def ready_def texts_def frames_def
        extends_texts_def split: option.split)
qed

text \<open>Receiving a frame changes neither the lock nor what was written.\<close>

lemma handleMessage_fields:
  assumes "handleMessage m t = (t', cb)"
  shows "ws_connection t' = ws_connection t" "ws_handler t' = ws_handler t"
    "ws_peer_handler t' = ws_peer_handler t" "ws_done t' = ws_done t"
  using assms by (auto simp: handleMessage_def Let_def split: if_splits sum.splits)

lemma dispatch_ok:
  assumes "dispatch m c = Done (c', call)" "client_ok c"
  shows "client_ok c' \<and> texts c' = texts c \<and> ws_done (transport c') = ws_done (transport c)"
proof -
  obtain t cb where h: "handleMessage m (transport c) = (t, cb)" by fastforce
  note f = handleMessage_fields[OF h]
  have ok: "client_ok (c\<lparr>transport := t\<rparr>)" "ws_done t = ws_done (transport c)" "texts (c\<lparr>transport := t\<rparr>) = texts c"
    using assms(2) f by (simp_all add: client_ok_def ready_def texts_def frames_def)
  then have r: "ready (c\<lparr>transport := t\<rparr>)" by (simp add: client_ok_def)
  show ?thesis
  proof (cases cb)
    case None
    then show ?thesis using assms(1) ok by (auto simp: dispatch_def h)
  next
    case (Some x)
    then show ?thesis
      using assms(1) ok r
      by (cases x)
         (auto simp: dispatch_def h handleTransportMessage_ready deliver_event_ready client_ok_def
           ready_def texts_def frames_def)
  qed
qed

lemma receive_ok:
  assumes "receive_frame j c = Done (c', call)" "client_ok c"
  shows "client_ok c'" "texts c' = texts c" "ws_done (transport c') = ws_done (transport c)"
  using assms dispatch_ok by (auto simp: receive_frame_def split: sum.splits)

lemma hang_up_ok:
  assumes "readPump_exit (transport c) = Done tr" "client_ok c"
  shows "client_ok (c\<lparr>transport := tr\<rparr>) \<and> texts (c\<lparr>transport := tr\<rparr>) = texts c"
  using assms by (auto simp: readPump_exit_def client_ok_def ready_def texts_def frames_def split: if_splits)

lemma connects_ok: "connects url c \<Longrightarrow> client_ok c \<and> texts c = [] \<and> connected c"
  by (auto simp: connects_def client_Connect_def ws_Connect_def new_client_def NewWebSocketClient_def
      SetHandler_def SetPeerHandler_def new_conn_def client_ok_def ready_def texts_def frames_def
      connected_def Let_def)

lemma world_clients: "world_reachable w \<Longrightarrow> client_ok (w_client w k)"
proof (induction arbitrary: k rule: world_reachable.induct)
  case (world_start url cs s0)
  then show ?case using connects_ok by (auto simp: start_world_def)
next
  case (world_next w v)
  from world_next.hyps(2) show ?case
    by cases (use world_next.IH in \<open>auto dest: receive_ok client_act_ok hang_up_ok\<close>)
qed

end
