(* ===== verification/WorldOrder.thy ===== *)
theory WorldOrder
  imports World
begin

text \<open>
  From application to application. Two invariants of the world tie the ends together: the
  messages a connection's reader has forwarded are those the client wrote, as far as they have
  been read, up to the sender and time that the server stamps on them (\<open>taken_ok\<close>); and the
  signals an application has been called with are among those in the frames its client has
  read (\<open>seen_ok\<close>). With the order between two connections of the server they give the
  order between two applications.
\<close>

section \<open>The way up\<close>

definition unstamp :: "message \<Rightarrow> message" where
  "unstamp m = m\<lparr>m_from := '''', m_timestamp := 0\<rparr>"

lemma unstamp_simps [simp]:
  "unstamp (stamp p t m) = unstamp m" "m_to (unstamp m) = m_to m" "m_data (unstamp m) = m_data m"
  "m_type (unstamp m) = m_type m"
  by (simp_all add: unstamp_def stamp_def)

definition forwarding :: "session \<Rightarrow> message list" where
  "forwarding c = (case s_reader c of Forwarding m \<Rightarrow> [m] | _ \<Rightarrow> [])"

lemma forwarding_simps [simp]:
  "s_reader c = Forwarding m \<Longrightarrow> forwarding c = [m]"
  "(\<And>m. s_reader c \<noteq> Forwarding m) \<Longrightarrow> forwarding c = []"
  by (auto simp: forwarding_def split: reader_pc.split)

definition taken_ok :: "world \<Rightarrow> nat \<Rightarrow> bool" where
  "taken_ok w k \<longleftrightarrow> w_taken w k \<le> length (texts (w_client w k)) \<and>
     map unstamp (s_sent (sv_sess (w_server w) k) @ forwarding (sv_sess (w_server w) k)) =
       map (\<lambda>j. unstamp (wire j)) (take (w_taken w k) (texts (w_client w k)))"

lemma proper_decodes: "proper_text j \<Longrightarrow> unmarshal_raw dec_message (Some j) = Inr (wire j)"
  by (auto simp: proper_text_def dec_envelope wire_def)

lemma forwarding_pump:
  assumes "proper_text j" "s_reader c = Reading"
  shows "map unstamp (s_sent c @ forwarding (reader_turn (ReadText (Some j)) t c)) =
    map unstamp (s_sent c @ forwarding c) @ [unstamp (wire j)]"
  using assms by (simp add: reader_turn_def proper_decodes[unfolded unmarshal_raw_simps] forwarding_def)

text \<open>A step that takes no text leaves what a connection has forwarded and is forwarding.\<close>

lemma forwarding_step:
  assumes inv: "server_inv s" and step: "server_step s t" and quiet: "takes_no_text s t" and k: "k < sv_n s"
  shows "s_sent (sv_sess t k) @ forwarding (sv_sess t k) = s_sent (sv_sess s k) @ forwarding (sv_sess s k)"
  using step
proof cases
  case (read j r u)
  show ?thesis
  proof (cases "k = j")
    case True
    have "s_reader (sv_sess t k) = Forwarding m \<Longrightarrow> s_reader (sv_sess s k) = Forwarding m" for m
      using quiet k by (simp add: takes_no_text_def)
    moreover have "s_reader (sv_sess s k) = Reading" using True read(3) by simp
    ultimately have "forwarding (sv_sess t k) = []" "forwarding (sv_sess s k) = []"
      by (auto intro!: forwarding_simps(2))
    then show ?thesis using True read(1) by simp
  qed (use read in simp)
next
  case (register j)
  then have "s_reader (sv_sess s j) = ReaderIdle"
    using server_invD(6)[OF inv, of j] by (simp add: sess_ok_def)
  with register show ?thesis by (simp add: forwarding_def handler_registered_def)
qed (use k in \<open>auto simp: forwarding_def reader_forwarded_def writer_turn_def writer_tick_def
       handler_returns_def done_by_reader_def done_by_writer_def
       split: option.split reader_pc.split\<close>)

lemma new_session_quiet:
  assumes "server_inv s" "server_step s t" "sv_n s \<le> k" "k < sv_n t"
  shows "s_sent (sv_sess t k) = []" "forwarding (sv_sess t k) = []" "s_out (sv_sess t k) = []"
  using assms(2)
  by (cases; use assms(3,4) in \<open>simp add: new_session_def forwarding_def\<close>)+

lemma server_step_n:
  assumes "server_step s t"
  shows "sv_n s \<le> sv_n t"
  using assms by cases simp_all

lemma taken_ok_clients:
  assumes "taken_ok w k" "texts c = texts (w_client w k) @ js"
    and "w_client v k = c" "w_server v = w_server w" "w_taken v = w_taken w"
  shows "taken_ok v k"
  using assms by (simp add: taken_ok_def)

section \<open>The way down\<close>

fun signals_heard :: "app_call list \<Rightarrow> (string \<times> signal) list" where
  "signals_heard [] = []"
| "signals_heard (CallSignal from sg # cs) = (from, sg) # signals_heard cs"
| "signals_heard (CallPeerEvent ev # cs) = signals_heard cs"

lemma signals_heard_append [simp]: "signals_heard (xs @ ys) = signals_heard xs @ signals_heard ys"
  by (induction xs rule: signals_heard.induct) auto

definition signal_from :: "message \<Rightarrow> string \<times> signal" where
  "signal_from m = (m_from m, (signal_in m)\<lparr>sig_from := m_from m\<rparr>)"

definition seen_ok :: "world \<Rightarrow> nat \<Rightarrow> bool" where
  "seen_ok w k \<longleftrightarrow> w_seen w k \<le> length (s_out (sv_sess (w_server w) k)) \<and>
     subseq (signals_heard (w_calls w k))
       (map signal_from (filter (\<lambda>m. m_type m = Signal) (take (w_seen w k) (s_out (sv_sess (w_server w) k)))))"

definition proper_signal :: "message \<Rightarrow> bool" where
  "proper_signal m \<longleftrightarrow> in_int 64 (m_timestamp m) \<and>
     (m_type m = Signal \<longrightarrow> (\<exists>sg. signal_ok sg \<and> m_data m = Some (enc_signal sg)))"

lemma receive_call:
  assumes m: "proper_signal m" and c: "ready c"
    and r: "receive_frame (enc_message m) c = Done (c', call)"
  shows "signals_heard (call_list call) = [] \<or>
    m_type m = Signal \<and> signals_heard (call_list call) = [signal_from m]"
proof (cases "m_type m = Signal")
  case True
  with m obtain sg where sg: "signal_ok sg" "m_data m = Some (enc_signal sg)" "in_int 64 (m_timestamp m)"
    by (auto simp: proper_signal_def)
  let ?m = "(ws_view m)\<lparr>t_data := Some (enc_raw (m_data m))\<rparr>"
  have "signal_of ?m = snd (signal_from m)"
    using sg by (subst signal_of_enc[of sg]) (simp_all add: enc_raw_def signal_from_def signal_in_enc)
  moreover have "dispatch ?m c = Done (c', call)"
    using r sg(3) by (simp add: receive_frame_def dec_ws_enc)
  ultimately have "call = (if cl_handler c then Some (CallSignal (m_from m) (snd (signal_from m))) else None)"
    using dispatch_signal[OF c, of ?m] True by (auto simp: server_type_names)
  with True show ?thesis by (simp add: call_list_def signal_from_def)
next
  case False
  let ?m = "(ws_view m)\<lparr>t_data := Some (enc_raw (m_data m))\<rparr>"
  have "dispatch ?m c = Done (c', call)"
    using r m by (simp add: receive_frame_def dec_ws_enc proper_signal_def)
  moreover obtain tr cb where h: "handleMessage ?m (transport c) = (tr, cb)" by fastforce
  moreover have "\<not> (\<exists>x. cb = Some (CallHandler x))"
    using h False by (auto simp: handleMessage_def Let_def call_peer_def server_type_names split: if_splits sum.splits)
  moreover have "ready (c\<lparr>transport := tr\<rparr>)"
    using c handleMessage_fields[OF h] by (simp add: ready_def)
  ultimately have "call = None \<or> (\<exists>ev. call = Some (CallPeerEvent ev))"
    by (auto simp: dispatch_def deliver_event_ready event_call_def peer_call_def Let_def
        split: option.splits callback.splits if_splits)
  then show ?thesis by (auto simp: call_list_def)
qed

section \<open>The invariant of the world\<close>

definition world_ok :: "world \<Rightarrow> bool" where
  "world_ok w \<longleftrightarrow>
     (\<forall>k < sv_n (w_server w). taken_ok w k \<and> seen_ok w k) \<and>
     (\<forall>k \<ge> sv_n (w_server w). w_taken w k = 0 \<and> w_seen w k = 0 \<and> w_calls w k = [])"

text \<open>Every signal in a stream is one that a client wrote.\<close>

lemma sent_proper:
  assumes "taken_ok w k" "client_ok (w_client w k)" "m \<in> set (s_sent (sv_sess (w_server w) k))"
  shows "m_type m = Signal \<and> (\<exists>sg. signal_ok sg \<and> m_data m = Some (enc_signal sg))"
proof -
  have "unstamp m \<in> set (map unstamp (s_sent (sv_sess (w_server w) k) @ forwarding (sv_sess (w_server w) k)))"
    using assms(3) by simp
  then have "unstamp m \<in> set (map (\<lambda>j. unstamp (wire j)) (take (w_taken w k) (texts (w_client w k))))"
    using assms(1) by (simp only: taken_ok_def)
  then obtain j where j: "j \<in> set (texts (w_client w k))" "unstamp m = unstamp (wire j)"
    using in_set_takeD by fastforce
  then obtain t to sg where "j = envelope t to sg" "in_int 64 t" "signal_ok sg"
    using assms(2) by (auto simp: client_ok_def list_all_iff proper_text_def)
  with j(2) have "m_type m = Signal" "m_data m = Some (enc_signal sg)"
    using unstamp_simps(3,4)[of m] unstamp_simps(3,4)[of "wire j"] by (simp_all add: wire_envelope)
  with \<open>signal_ok sg\<close> show ?thesis by blast
qed

lemma stream_typed:
  assumes r: "server_reachable (w_server w)" and ok: "world_ok w" "\<And>k. client_ok (w_client w k)"
    and k: "k < sv_n (w_server w)" and m: "m \<in> set (stream (w_server w) k)"
  shows "well_typed m"
proof -
  have typed: "in_int 64 (m_timestamp m)" "m_from m = '''' \<Longrightarrow> well_typed m"
    using hub_typedD(2)[OF reachable_hub_typed[OF r] k] m by (auto simp: typed_chan_def hub_made_def)
  show ?thesis
  proof (cases "m_from m = ''''")
    case False
    then have "sent_by (w_server w) m"
      using reachable_authentic[OF r] k m by (auto simp: authentic_def)
    then obtain j where j: "j < sv_n (w_server w)" "m \<in> set (s_sent (sv_sess (w_server w) j))"
      by (auto simp: sent_by_def)
    then obtain sg where "m_type m = Signal" "signal_ok sg" "m_data m = Some (enc_signal sg)"
      using sent_proper[OF _ ok(2) j(2)] ok(1) by (auto simp: world_ok_def)
    with typed(1) show ?thesis by (cases m) (auto intro: wt_signal)
  qed (rule typed(2))
qed

lemma well_typed_proper: "well_typed m \<Longrightarrow> proper_signal m"
  by (erule well_typedE) (auto simp: proper_signal_def)

lemma out_stream: "m \<in> set (s_out (sv_sess s k)) \<Longrightarrow> m \<in> set (stream s k)"
  by (simp add: stream_def)

text \<open>What a connection has been sent only grows.\<close>

lemma server_step_out:
  assumes "server_inv s" "server_step s t" "k < sv_n s"
  shows "\<exists>ms. s_out (sv_sess t k) = s_out (sv_sess s k) @ ms"
  using assms(2)
  by (cases; use assms(3) in \<open>simp add: writer_turn_def split: option.split\<close>)

lemma seen_ok_more:
  assumes "seen_ok w k" "s_out (sv_sess s k) = s_out (sv_sess (w_server w) k) @ ms"
  shows "seen_ok (w\<lparr>w_server := s\<rparr>) k"
  using assms by (simp add: seen_ok_def)

section \<open>Every step keeps it\<close>

lemma world_ok_serve:
  assumes r: "server_reachable (w_server w)" and ok: "world_ok w"
    and step: "server_step (w_server w) s" and quiet: "takes_no_text (w_server w) s"
  shows "world_ok (w\<lparr>w_server := s\<rparr>)"
proof -
  note inv = server_reachable_inv[OF r]
  have old: "taken_ok (w\<lparr>w_server := s\<rparr>) k \<and> seen_ok (w\<lparr>w_server := s\<rparr>) k" if k: "k < sv_n (w_server w)" for k
  proof -
    have "taken_ok w k" "seen_ok w k" using ok k by (simp_all add: world_ok_def)
    moreover obtain ms where "s_out (sv_sess s k) = s_out (sv_sess (w_server w) k) @ ms"
      using server_step_out[OF inv step k] by blast
    ultimately show ?thesis
      using forwarding_step[OF inv step quiet k] by (simp add: taken_ok_def seen_ok_more)
  qed
  have new: "taken_ok (w\<lparr>w_server := s\<rparr>) k \<and> seen_ok (w\<lparr>w_server := s\<rparr>) k"
    if k: "sv_n (w_server w) \<le> k" "k < sv_n s" for k
    using new_session_quiet[OF inv step k] ok k(1) by (simp add: taken_ok_def seen_ok_def world_ok_def)
  show ?thesis
    unfolding world_ok_def
  proof (intro conjI allI impI)
    fix k assume "k < sv_n (w_server (w\<lparr>w_server := s\<rparr>))"
    then have "k < sv_n s" by simp
    then show "taken_ok (w\<lparr>w_server := s\<rparr>) k" "seen_ok (w\<lparr>w_server := s\<rparr>) k"
      using old new by (meson not_le)+
  qed (use ok server_step_n[OF step] in \<open>simp_all add: world_ok_def\<close>)
qed

text \<open>A step at one connection.\<close>

lemma world_ok_at:
  assumes ok: "world_ok w" and k: "k < sv_n (w_server w)" and n: "sv_n (w_server v) = sv_n (w_server w)"
    and other: "\<And>i. i \<noteq> k \<Longrightarrow> sv_sess (w_server v) i = sv_sess (w_server w) i \<and> w_client v i = w_client w i \<and>
      w_taken v i = w_taken w i \<and> w_seen v i = w_seen w i \<and> w_calls v i = w_calls w i"
    and at: "taken_ok v k" "seen_ok v k"
  shows "world_ok v"
  unfolding world_ok_def n
proof (intro conjI allI impI)
  fix i assume i: "i < sv_n (w_server w)"
  then have "taken_ok w i" "seen_ok w i" using ok by (simp_all add: world_ok_def)
  then show "taken_ok v i" "seen_ok v i"
    using at other[of i] by (cases "i = k"; simp add: taken_ok_def seen_ok_def)+
qed (use ok k other in \<open>auto simp: world_ok_def\<close>)

lemma world_okD:
  assumes "world_ok w" "k < sv_n (w_server w)"
  shows "taken_ok w k" "seen_ok w k"
  using assms by (simp_all add: world_ok_def)

lemma world_ok_uplink:
  assumes ok: "world_ok w" and c: "client_ok (w_client w k)"
    and k: "k < sv_n (w_server w)" "s_reader (sv_sess (w_server w) k) = Reading"
    and more: "w_taken w k < length (texts (w_client w k))"
  shows "world_ok (w\<lparr>w_taken := (w_taken w)(k := Suc (w_taken w k)),
    w_server := on_session k (reader_turn (ReadText (Some (texts (w_client w k) ! w_taken w k))) t) (w_server w)\<rparr>)"
    (is "world_ok ?v")
proof (rule world_ok_at[OF ok k(1)])
  have "proper_text (texts (w_client w k) ! w_taken w k)"
    using c more by (simp add: client_ok_def list_all_length)
  from forwarding_pump[OF this k(2)] show "taken_ok ?v k"
    using world_okD(1)[OF ok k(1)] more by (simp add: taken_ok_def take_Suc_conv_app_nth)
  show "seen_ok ?v k" using world_okD(2)[OF ok k(1)] by (simp add: seen_ok_def)
qed simp_all

lemma world_ok_downlink:
  assumes r: "server_reachable (w_server w)" and ok: "world_ok w" and cs: "\<And>k. client_ok (w_client w k)"
    and k: "k < sv_n (w_server w)" "w_seen w k < length (s_out (sv_sess (w_server w) k))"
    and recv: "receive_frame (enc_message (s_out (sv_sess (w_server w) k) ! w_seen w k)) (w_client w k) = Done (c, call)"
  shows "world_ok (w\<lparr>w_seen := (w_seen w)(k := Suc (w_seen w k)), w_client := (w_client w)(k := c),
       w_calls := (w_calls w)(k := w_calls w k @ call_list call)\<rparr>)" (is "world_ok ?v")
proof (rule world_ok_at[OF ok k(1)])
  let ?out = "s_out (sv_sess (w_server w) k)"
  let ?m = "?out ! w_seen w k"
  have "proper_signal ?m"
    using stream_typed[OF r ok cs k(1) out_stream[OF nth_mem[OF k(2)]]] by (rule well_typed_proper)
  from receive_call[OF this _ recv] cs
  have "subseq (signals_heard (call_list call)) (map signal_from (filter (\<lambda>m. m_type m = Signal) [?m]))"
    by (auto simp: client_ok_def)
  with world_okD(2)[OF ok k(1)]
  have "subseq (signals_heard (w_calls w k) @ signals_heard (call_list call))
      (map signal_from (filter (\<lambda>m. m_type m = Signal) (take (w_seen w k) ?out)) @
       map signal_from (filter (\<lambda>m. m_type m = Signal) [?m]))"
    unfolding seen_ok_def by (intro list_emb_append_mono) simp_all
  also have "\<dots> = map signal_from (filter (\<lambda>m. m_type m = Signal) (take (Suc (w_seen w k)) ?out))"
    unfolding take_Suc_conv_app_nth[OF k(2)] filter_append map_append ..
  finally show "seen_ok ?v k"
    using k(2) by (simp add: seen_ok_def)
  show "taken_ok ?v k"
    using world_okD(1)[OF ok k(1)] receive_ok[OF recv cs] by (simp add: taken_ok_def)
qed simp_all

lemma world_ok_client:
  assumes ok: "world_ok w" and k: "k < sv_n (w_server w)" and c: "extends_texts (w_client w k) c"
  shows "world_ok (w\<lparr>w_client := (w_client w)(k := c)\<rparr>)" (is "world_ok ?v")
proof (rule world_ok_at[OF ok k])
  show "taken_ok ?v k"
    using world_okD(1)[OF ok k] c by (auto simp: taken_ok_def extends_texts_def)
  show "seen_ok ?v k" using world_okD(2)[OF ok k] by (simp add: seen_ok_def)
qed simp_all

lemma world_reachable_ok: "world_reachable w \<Longrightarrow> world_ok w"
proof (induction rule: world_reachable.induct)
  case (world_start url cs s0)
  then show ?case by (simp add: world_ok_def start_world_def start_server_def)
next
  case (world_next w v)
  note r = world_server[OF world_next.hyps(1)] and cs = world_clients[OF world_next.hyps(1)]
  from world_next.hyps(2) show ?case
  proof cases
    case (serve s)
    then show ?thesis using world_ok_serve[OF r world_next.IH] by simp
  next
    case (uplink k t)
    then show ?thesis using world_ok_uplink[OF world_next.IH cs] by simp
  next
    case (downlink k c call)
    then show ?thesis using world_ok_downlink[OF r world_next.IH cs] by simp
  next
    case (act k c)
    then show ?thesis
      using world_ok_client[OF world_next.IH] client_act_ok[OF _ cs] by simp
  next
    case (hang_up k tr)
    then show ?thesis
      using world_ok_client[OF world_next.IH, of k] hang_up_ok[OF _ cs, of k] by (simp add: extends_texts_def)
  qed
qed

section \<open>From one application to another\<close>

definition heard_from :: "string \<Rightarrow> app_call list \<Rightarrow> signal list" where
  "heard_from i cs = map snd (filter (\<lambda>x. fst x = i) (signals_heard cs))"

text \<open>The signals a client sent to a peer, broadcasts included.\<close>

definition signals_to :: "string \<Rightarrow> client \<Rightarrow> signal list" where
  "signals_to i c = map snd (filter (\<lambda>x. fst x = i \<or> fst x = '''') (sent_signals c))"

lemma signals_from_peer:
  "map snd (filter (\<lambda>x. fst x = i) (map signal_from ms)) =
     map (\<lambda>m. (signal_in m)\<lparr>sig_from := i\<rparr>) (from_peer i ms)"
  by (induction ms) (auto simp: signal_from_def)

lemma heard_subseq:
  assumes "seen_ok w j"
  shows "subseq (heard_from i (w_calls w j))
    (map (\<lambda>m. (signal_in m)\<lparr>sig_from := i\<rparr>) (from_peer i (s_out (sv_sess (w_server w) j))))"
proof -
  let ?out = "s_out (sv_sess (w_server w) j)"
  let ?ms = "filter (\<lambda>m. m_type m = Signal) (take (w_seen w j) ?out)"
  have "subseq ?ms ?out"
    by (meson subseq_filter_left subseq_order.order_trans prefix_imp_subseq take_is_prefix)
  then have ms: "subseq (from_peer i ?ms) (from_peer i ?out)"
    unfolding from_peer_def by (rule subseq_filter)
  have "subseq (heard_from i (w_calls w j)) (map snd (filter (\<lambda>x. fst x = i) (map signal_from ?ms)))"
    using assms unfolding heard_from_def seen_ok_def by (intro subseq_map subseq_filter) simp
  also note signals_from_peer
  also have "subseq (map (\<lambda>m. (signal_in m)\<lparr>sig_from := i\<rparr>) (from_peer i ?ms)) (map (\<lambda>m. (signal_in m)\<lparr>sig_from := i\<rparr>) (from_peer i ?out))"
    by (rule subseq_map[OF ms])
  finally show ?thesis .
qed

text \<open>What the server has forwarded is a first part of what the client wrote.\<close>

lemma sent_subseq:
  assumes "taken_ok w k"
  shows "subseq (map signal_in (for_peer i (s_sent (sv_sess (w_server w) k)))) (signals_to i (w_client w k))"
proof -
  let ?sent = "s_sent (sv_sess (w_server w) k)" and ?js = "texts (w_client w k)"
  have sig: "signal_in (unstamp m) = signal_in m" "recipients (unstamp m) = recipients m" for m
    by (simp_all add: signal_in_def recipients_def)
  have up: "map signal_in (for_peer i (map unstamp ms)) = map signal_in (for_peer i ms)" for ms
    by (induction ms) (simp_all add: sig)
  have "map snd (filter (\<lambda>x. fst x = i \<or> fst x = '''') (map (\<lambda>j. (m_to (wire j), signal_in (wire j))) js)) =
      map signal_in (for_peer i (map wire js))" for js
    by (induction js) (auto simp: recipients_def)
  then have to: "signals_to i (w_client w k) = map signal_in (for_peer i (map wire ?js))"
    by (simp add: signals_to_def sent_signals_def)
  have "subseq (map unstamp ?sent) (map unstamp (?sent @ forwarding (sv_sess (w_server w) k)))"
    by (intro subseq_map subseq_rev_drop_many) simp
  also have "\<dots> = map (\<lambda>j. unstamp (wire j)) (take (w_taken w k) ?js)"
    using assms unfolding taken_ok_def by blast
  also have "\<dots> = map unstamp (map wire (take (w_taken w k) ?js))" by simp
  also have "subseq \<dots> (map unstamp (map wire ?js))"
    by (intro subseq_map prefix_imp_subseq take_is_prefix)
  finally have "subseq (map signal_in (for_peer i (map unstamp ?sent)))
      (map signal_in (for_peer i (map unstamp (map wire ?js))))"
    unfolding for_peer_def by (rule subseq_map[OF subseq_filter])
  then show ?thesis unfolding up to .
qed

lemma world_ordered:
  assumes "world_reachable w" "j < sv_n (w_server w)" "k < sv_n (w_server w)"
  shows "subseq (heard_from (peer_id (sess_peer (w_server w) k)) (w_calls w j))
    (map (\<lambda>sg. sg\<lparr>sig_from := peer_id (sess_peer (w_server w) k)\<rparr>)
       (signals_to (peer_id (sess_peer (w_server w) j)) (w_client w k)))"
proof -
  let ?i = "peer_id (sess_peer (w_server w) k)" and ?j = "peer_id (sess_peer (w_server w) j)"
  let ?tag = "\<lambda>sg. sg\<lparr>sig_from := ?i\<rparr>"
  note ok = world_reachable_ok[OF assms(1)]
  have "subseq (heard_from ?i (w_calls w j))
      (map ?tag (map signal_in (from_peer ?i (s_out (sv_sess (w_server w) j)))))"
    using heard_subseq[OF world_okD(2)[OF ok assms(2)]] by (simp add: comp_def)
  also have "subseq \<dots> (map ?tag (map signal_in (from_peer ?i (stream (w_server w) j))))"
    unfolding stream_def from_peer_simps by (intro subseq_map subseq_rev_drop_many) simp
  also have "subseq \<dots> (map ?tag (map signal_in (for_peer ?j (s_sent (sv_sess (w_server w) k)))))"
    by (intro subseq_map stream_from world_server assms)
  also have "subseq \<dots> (map ?tag (signals_to ?j (w_client w k)))"
    by (intro subseq_map[OF sent_subseq] world_okD(1)[OF ok assms(3)])
  finally show ?thesis .
qed

text \<open>An application is only called with signals under the name of a connection.\<close>

lemma world_callers:
  assumes "world_reachable w" "j < sv_n (w_server w)" "x \<in> set (signals_heard (w_calls w j))"
  shows "\<exists>k < sv_n (w_server w). fst x = peer_id (sess_peer (w_server w) k)"
proof -
  have "x \<in> set (map signal_from (filter (\<lambda>m. m_type m = Signal)
      (take (w_seen w j) (s_out (sv_sess (w_server w) j)))))"
    using world_okD(2)[OF world_reachable_ok[OF assms(1)] assms(2)]
    unfolding seen_ok_def by (auto elim: list_emb_set[OF _ assms(3)])
  then obtain m where m: "m_type m = Signal" "x = signal_from m" "m \<in> set (s_out (sv_sess (w_server w) j))"
    by (auto dest: in_set_takeD)
  note r = world_server[OF assms(1)]
  have "m_from m \<noteq> ''''"
    using hub_typedD(2)[OF reachable_hub_typed[OF r] assms(2)] m(1) out_stream[OF m(3)]
    by (auto simp: typed_chan_def hub_made_def)
  then have "sent_by (w_server w) m"
    using reachable_authentic[OF r] assms(2) out_stream[OF m(3)] by (auto simp: authentic_def)
  then show ?thesis using m(2) by (auto simp: sent_by_def signal_from_def)
qed

text \<open>Every frame on its way to a client is well typed.\<close>

lemma world_typed:
  assumes "world_reachable w" "k < sv_n (w_server w)" "m \<in> set (stream (w_server w) k)"
  shows "well_typed m"
  using stream_typed[OF world_server world_reachable_ok world_clients] assms by blast

end
