(* ===== verification/WorldDelivery.thy ===== *)
theory WorldDelivery
  imports WorldOrder
begin

text \<open>
  That a signal can arrive: from every reachable world in which the hub is idle, the sender is
  connected and read, and the recipient is registered, connected and listening, the system has
  a run at whose end the recipient's application has been called with the offer that was
  sent. The run is made of a drain of the recipient's channel, the offer's way to the hub, and
  another drain; \<open>written_out\<close> and \<open>read_all\<close> are the worlds after a drain.
\<close>

section \<open>Runs\<close>

abbreviation runs :: "world \<Rightarrow> world \<Rightarrow> bool" where
  "runs \<equiv> world_step\<^sup>*\<^sup>*"

lemma runs_reachable: "runs w v \<Longrightarrow> world_reachable w \<Longrightarrow> world_reachable v"
  by (induction rule: rtranclp_induct) (auto intro: world_next)

text \<open>Connections keep their numbers and peers.\<close>

lemma world_step_peer:
  assumes "world_step w v" "server_inv (w_server w)" "k < sv_n (w_server w)"
  shows "k < sv_n (w_server v) \<and> sess_peer (w_server v) k = sess_peer (w_server w) k"
  using assms(1)
proof cases
  case (serve s)
  then show ?thesis using server_step_session(1,2)[OF assms(2) _ assms(3)] by simp
qed (use assms(3) in simp_all)

lemma runs_peer:
  assumes "runs w v" "world_reachable w" "k < sv_n (w_server w)"
  shows "k < sv_n (w_server v) \<and> sess_peer (w_server v) k = sess_peer (w_server w) k"
  using assms
proof (induction rule: rtranclp_induct)
  case (step u v)
  have "server_inv (w_server u)"
    by (rule server_reachable_inv[OF world_server[OF runs_reachable[OF step.hyps(1) step.prems(1)]]])
  then show ?case using world_step_peer[OF step.hyps(2)] step.IH step.prems by simp
qed simp

lemma runs_serve:
  "server_step (w_server w) s \<Longrightarrow> takes_no_text (w_server w) s \<Longrightarrow> runs w (w\<lparr>w_server := s\<rparr>)"
  by (rule r_into_rtranclp) (rule serve)

section \<open>Every channel has the capacity it was made with\<close>

definition capacities :: "hub \<Rightarrow> bool" where
  "capacities h \<longleftrightarrow> (\<forall>r. capacity (chans h r) = sendCapacity)"

lemma capacities_step:
  assumes "hub_inv h" "request_ok (e, ev) h" "hub_step e ev h = Done h'" "capacities h"
  shows "capacities h'"
  using assms(1,2)
  by (cases rule: hub_step_cases)
     (use assms(3,4) in \<open>auto simp: capacities_def deliver_def admit_def evict_def Let_def
       fresh_peer_def split: option.split\<close>)

lemma reachable_capacities: "server_reachable s \<Longrightarrow> capacities (sv_hub s)"
proof (induction rule: server_reachable_induct)
  case (start s0)
  then show ?case by (simp add: start_server_def NewHub_def capacities_def)
next
  case (step s t)
  from step.hyps(2) show ?case
  proof cases
    case (hub_turn ev e h)
    then show ?thesis
      using capacities_step[OF server_invD(1)[OF step.hyps(1)] serving_request_ok[OF step.hyps(1)]] step.IH
      by simp
  next
    case (write_message k x c ok)
    then show ?thesis
      using step.IH chan_recv_Done[OF write_message(4)] by (auto simp: capacities_def set_chan_def)
  qed (use step.IH in simp_all)
qed

section \<open>The writer drains its channel\<close>

definition written_out :: "nat \<Rightarrow> server \<Rightarrow> server" where
  "written_out j s =
     on_session j (\<lambda>c. c\<lparr>s_out := s_out c @ buf (chans (sv_hub s) j)\<rparr>)
       (s\<lparr>sv_hub := set_chan j ((chans (sv_hub s) j)\<lparr>buf := []\<rparr>) (sv_hub s)\<rparr>)"

lemma written_out_empty:
  assumes "buf (chans (sv_hub s) j) = []"
  shows "written_out j s = s"
proof -
  have "set_chan j ((chans (sv_hub s) j)\<lparr>buf := []\<rparr>) (sv_hub s) = sv_hub s"
    using assms by (cases "chans (sv_hub s) j") (simp add: set_chan_def fun_upd_idem)
  then show ?thesis
    using assms by (simp add: written_out_def on_session_def)
qed

lemma written_out_next:
  assumes "buf (chans (sv_hub s) j) = m # ms"
  shows "written_out j (on_session j (writer_turn True (Some m))
    (s\<lparr>sv_hub := set_chan j ((chans (sv_hub s) j)\<lparr>buf := ms\<rparr>) (sv_hub s)\<rparr>)) = written_out j s"
  using assms by (simp add: written_out_def on_session_def set_chan_def writer_turn_def)

lemma drain_writer:
  assumes "server_inv (w_server w)" "j < sv_n (w_server w)"
    and "s_writer (sv_sess (w_server w) j) = Selecting" "s_open (sv_sess (w_server w) j)"
  shows "runs w (w\<lparr>w_server := written_out j (w_server w)\<rparr>)"
  using assms
proof (induction "buf (chans (sv_hub (w_server w)) j)" arbitrary: w)
  case Nil
  then show ?case by (simp add: written_out_empty)
next
  case (Cons m ms)
  let ?s = "w_server w"
  let ?c = "(chans (sv_hub ?s) j)\<lparr>buf := ms\<rparr>"
  let ?t = "on_session j (writer_turn True (Some m)) (?s\<lparr>sv_hub := set_chan j ?c (sv_hub ?s)\<rparr>)"
  have j: "peer_send (sess_peer ?s j) = j" by (rule names_okD(1)[OF server_invD(3)[OF Cons.prems(1)] Cons.prems(2)])
  have recv: "chan_recv (chans (sv_hub ?s) j) = Done (Some m, ?c)"
    using Cons.hyps(2) by (simp add: chan_recv_def flip: Cons.hyps(2))
  have step: "server_step ?s ?t"
    using server_step.write_message[of j ?s "Some m" ?c True] Cons.prems recv j by simp
  have "runs w (w\<lparr>w_server := ?t\<rparr>)"
    by (rule runs_serve[OF step]) (auto simp: takes_no_text_def writer_turn_def)
  moreover have "runs (w\<lparr>w_server := ?t\<rparr>) (w\<lparr>w_server := ?t\<rparr>\<lparr>w_server := written_out j ?t\<rparr>)"
    using Cons.hyps(1)[of "w\<lparr>w_server := ?t\<rparr>"] Cons.prems server_step_inv[OF Cons.prems(1) step]
    by (simp add: set_chan_def writer_turn_def)
  moreover have "written_out j ?t = written_out j ?s"
    by (rule written_out_next) (simp add: Cons.hyps(2)[symmetric])
  ultimately show ?case by simp
qed

section \<open>The client reads all it was sent\<close>

lemma receive_listening:
  assumes m: "well_typed m" and c: "listening c" "client_ok c"
  obtains c' call where "receive_frame (enc_message m) c = Done (c', call)" "listening c'" "client_ok c'"
    "ws_done (transport c') = ws_done (transport c)"
    "signals_heard (call_list call) = (if m_type m = Signal then [signal_from m] else [])"
proof -
  obtain c' call where r: "receive_frame (enc_message m) c = Done (c', call)" "listening c'"
      and ev: "event_of (m_type m) call"
    using typed_progress[OF m c(1)] by blast
  have "signals_heard (call_list call) = (if m_type m = Signal then [signal_from m] else [])"
  proof (cases "m_type m = Signal")
    case True
    with ev have "signals_heard (call_list call) \<noteq> []"
      by (cases "(m_type m, call)" rule: event_of.cases) (auto simp: call_list_def)
    with receive_call[OF well_typed_proper[OF m] listening_ready[OF c(1)] r(1)] True show ?thesis by simp
  next
    case False
    with receive_call[OF well_typed_proper[OF m] listening_ready[OF c(1)] r(1)] show ?thesis by simp
  qed
  then show thesis using that r receive_ok[OF r(1) c(2)] by blast
qed

definition read_all :: "nat \<Rightarrow> client \<Rightarrow> app_call list \<Rightarrow> world \<Rightarrow> world" where
  "read_all j c cs w = w\<lparr>w_seen := (w_seen w)(j := length (s_out (sv_sess (w_server w) j))),
     w_client := (w_client w)(j := c), w_calls := (w_calls w)(j := w_calls w j @ cs)\<rparr>"

lemma drain_reader:
  assumes "world_reachable w" "j < sv_n (w_server w)" "listening (w_client w j)"
    and "\<not> ws_done (transport (w_client w j))"
  shows "\<exists>c cs. runs w (read_all j c cs w) \<and> listening c \<and>
    signals_heard cs = map signal_from (filter (\<lambda>m. m_type m = Signal)
      (drop (w_seen w j) (s_out (sv_sess (w_server w) j))))"
  using assms
proof (induction "length (s_out (sv_sess (w_server w) j)) - w_seen w j" arbitrary: w)
  case 0
  have "w_seen w j \<le> length (s_out (sv_sess (w_server w) j))"
    using world_okD(2)[OF world_reachable_ok[OF 0(2)] 0(3)] by (simp add: seen_ok_def)
  with 0(1) have "w_seen w j = length (s_out (sv_sess (w_server w) j))" by simp
  then have "read_all j (w_client w j) [] w = w" by (cases w) (auto simp: read_all_def)
  then show ?case
    using 0 \<open>w_seen w j = _\<close> by (intro exI[of _ "w_client w j"] exI[of _ "[]"]) simp
next
  case (Suc n)
  let ?out = "s_out (sv_sess (w_server w) j)"
  let ?m = "?out ! w_seen w j"
  have more: "w_seen w j < length ?out" using Suc.hyps(2) by simp
  have "well_typed ?m"
    by (rule world_typed[OF Suc.prems(1,2) out_stream[OF nth_mem[OF more]]])
  then obtain c call where r: "receive_frame (enc_message ?m) (w_client w j) = Done (c, call)"
      "listening c" "ws_done (transport c) = ws_done (transport (w_client w j))"
      "signals_heard (call_list call) = (if m_type ?m = Signal then [signal_from ?m] else [])"
    using receive_listening[OF _ Suc.prems(3) world_clients[OF Suc.prems(1)]] by blast
  let ?v = "w\<lparr>w_seen := (w_seen w)(j := Suc (w_seen w j)), w_client := (w_client w)(j := c),
       w_calls := (w_calls w)(j := w_calls w j @ call_list call)\<rparr>"
  have step: "world_step w ?v" by (rule downlink[OF Suc.prems(2) more Suc.prems(4) r(1)])
  have "\<exists>c' cs. runs ?v (read_all j c' cs ?v) \<and> listening c' \<and>
      signals_heard cs = map signal_from (filter (\<lambda>m. m_type m = Signal) (drop (Suc (w_seen w j)) ?out))"
    using Suc.hyps(1)[of ?v] Suc.hyps(2) Suc.prems r(2,3) world_next[OF Suc.prems(1) step] by simp
  then obtain c' cs where v: "runs ?v (read_all j c' cs ?v)" "listening c'"
      "signals_heard cs = map signal_from (filter (\<lambda>m. m_type m = Signal) (drop (Suc (w_seen w j)) ?out))"
    by blast
  have "read_all j c' cs ?v = read_all j c' (call_list call @ cs) w" by (simp add: read_all_def)
  then have "runs w (read_all j c' (call_list call @ cs) w)"
    using step v(1) by (metis converse_rtranclp_into_rtranclp)
  moreover have "drop (w_seen w j) ?out = ?m # drop (Suc (w_seen w j)) ?out"
    by (rule Cons_nth_drop_Suc[OF more, symmetric])
  ultimately show ?case
    using v(2,3) r(4) by (intro exI[of _ c'] exI[of _ "call_list call @ cs"]) simp
qed

section \<open>An offer arrives\<close>

lemma env_exists:
  assumes "finite (dom tbl)"
  obtains e where "env_ok e tbl" "clock_ok e"
proof -
  obtain xs where "distinct xs" "set xs = dom tbl" using finite_distinct_list[OF assms] by blast
  then show thesis
    by (intro that[of "\<lparr>now = (\<lambda>_. 0), range_order = (\<lambda>_. xs)\<rparr>"])
       (simp_all add: env_ok_def visits_def clock_ok_def)
qed

text \<open>The condition of a connection that can be written to and read from.\<close>

definition linked :: "world \<Rightarrow> nat \<Rightarrow> bool" where
  "linked w k \<longleftrightarrow> k < sv_n (w_server w) \<and> s_open (sv_sess (w_server w) k) \<and>
     s_reader (sv_sess (w_server w) k) = Reading \<and> s_writer (sv_sess (w_server w) k) = Selecting \<and>
     peers (sv_hub (w_server w)) (peer_id (sess_peer (w_server w) k)) = Some (sess_peer (w_server w) k) \<and>
     connected (w_client w k) \<and> listening (w_client w k) \<and> \<not> ws_done (transport (w_client w k)) \<and>
     w_taken w k = length (texts (w_client w k))"

text \<open>From the frame in the sender's socket to the recipient's channel.\<close>

definition queued :: "message \<Rightarrow> nat \<Rightarrow> nat \<Rightarrow> world \<Rightarrow> world \<Rightarrow> bool" where
  "queued m k j w v \<longleftrightarrow> sv_n (w_server v) = sv_n (w_server w) \<and>
     (\<forall>i. s_peer (sv_sess (w_server v) i) = s_peer (sv_sess (w_server w) i) \<and>
        s_out (sv_sess (w_server v) i) = s_out (sv_sess (w_server w) i) \<and>
        s_writer (sv_sess (w_server v) i) = s_writer (sv_sess (w_server w) i) \<and>
        s_open (sv_sess (w_server v) i) = s_open (sv_sess (w_server w) i)) \<and>
     w_client v = w_client w \<and> w_seen v = w_seen w \<and> w_calls v = w_calls w \<and>
     buf (chans (sv_hub (w_server v)) j) = buf (chans (sv_hub (w_server w)) j) @ [m]"

lemma session_again: "s_reader c = Reading \<Longrightarrow> c\<lparr>s_reader := Reading\<rparr> = c"
  by (cases c) simp

lemma relay_run:
  assumes r: "world_reachable w" and pc: "sv_pc (w_server w) = Accepting" and k: "k < sv_n (w_server w)"
    and up: "s_open (sv_sess (w_server w) k)" "s_reader (sv_sess (w_server w) k) = Reading"
    and wrote: "texts (w_client w k) = js @ [envelope t to sg]" "w_taken w k = length js"
    and ok: "in_int 64 t" "signal_ok sg"
    and j: "j < sv_n (w_server w)" "peers (sv_hub (w_server w)) to = Some (sess_peer (w_server w) j)"
    and room: "\<not> full (chans (sv_hub (w_server w)) j)" and to: "to \<noteq> ''''"
  shows "\<exists>v m. runs w v \<and> queued m k j w v \<and> m_type m = Signal \<and>
    signal_from m = (peer_id (sess_peer (w_server w) k), sg\<lparr>sig_from := peer_id (sess_peer (w_server w) k)\<rparr>)"
proof -
  let ?s = "w_server w"
  let ?m = "stamp (sess_peer ?s k) 0 (wire (envelope t to sg))"
  let ?a = "w\<lparr>w_taken := (w_taken w)(k := Suc (w_taken w k)),
    w_server := on_session k (reader_turn (ReadText (Some (texts (w_client w k) ! w_taken w k))) 0) ?s\<rparr>"
  have a: "runs w ?a"
    using k up wrote by (intro r_into_rtranclp uplink) simp_all
  have ra: "s_reader (sv_sess (w_server ?a) k) = Forwarding ?m"
    using wrote ok by (simp add: reader_turn_def wire_envelope dec_envelope nth_append)
  let ?b = "on_session k (reader_forwarded ?m) (w_server ?a\<lparr>sv_pc := Serving (Broadcast ?m)\<rparr>)"
  have "server_step (w_server ?a) ?b"
    by (rule server_step.broadcast) (use k pc ra in simp_all)
  then have b: "runs ?a (?a\<lparr>w_server := ?b\<rparr>)"
    by (rule runs_serve) (auto simp: takes_no_text_def reader_forwarded_def)
  note inv = server_reachable_inv[OF world_server[OF r]]
  have hub: "hub_inv (sv_hub ?s)" using server_invD(1)[OF inv] by simp
  obtain e where e: "env_ok e (peers (sv_hub ?s))" "clock_ok e"
    by (rule env_exists[OF hub_inv_finite[OF hub]])
  have to_m: "m_to ?m = to" using ok(1) by (simp add: stamp_def wire_envelope)
  then have "hub_step e (Broadcast ?m) (sv_hub ?s) = Done (deliver ?m {to} (sv_hub ?s))"
    using handleBroadcast_deliverable[OF hub, of e ?m] e(1) j(2) to
    by (simp add: hub_step_def undeliverable_def recipients_def)
  then have "server_step ?b (?b\<lparr>sv_hub := deliver ?m {to} (sv_hub ?s), sv_pc := Accepting\<rparr>)"
    using e by (intro server_step.hub_turn) simp_all
  then have c: "runs (?a\<lparr>w_server := ?b\<rparr>)
      (?a\<lparr>w_server := ?b\<rparr>\<lparr>w_server := ?b\<lparr>sv_hub := deliver ?m {to} (sv_hub ?s), sv_pc := Accepting\<rparr>\<rparr>)"
    by (intro runs_serve) (simp_all add: takes_no_text_def)
  have "chans (deliver ?m {to} (sv_hub ?s)) j = offered ?m (chans (sv_hub ?s) j)"
    using deliver_chan[OF hub, of to "sess_peer ?s j" ?m "{to}"] j
      names_okD(1)[OF server_invD(3)[OF server_reachable_inv[OF world_server[OF r]]] j(1)] by simp
  then have "queued ?m k j w
      (?a\<lparr>w_server := ?b\<rparr>\<lparr>w_server := ?b\<lparr>sv_hub := deliver ?m {to} (sv_hub ?s), sv_pc := Accepting\<rparr>\<rparr>)"
    using room by (auto simp: queued_def reader_forwarded_def reader_turn_def offered_def split: sum.split)
  moreover have "m_type ?m = Signal" "signal_from ?m = (peer_id (sess_peer ?s k), sg\<lparr>sig_from := peer_id (sess_peer ?s k)\<rparr>)"
    using ok by (simp_all add: stamp_def wire_envelope signal_from_def signal_in_enc)
  ultimately show ?thesis
    using rtranclp_trans[OF rtranclp_trans[OF a b] c] by blast
qed

lemma offer_written:
  assumes "SendOffer wr tm t to s c = (Inr (), c')"
  shows "texts c' = texts c @ [envelope t to (session_signal tm s)]"
    "listening c' = listening c" "ws_done (transport c') = ws_done (transport c)"
  using assms
  by (auto simp: SendOffer_eq send_signal_def ws_Send_def sendMessage_def write_frame_def texts_def
      frames_def envelope_def listening_def ready_def Let_def split: option.splits)

text \<open>A recipient that drains its channel and its socket.\<close>

definition receiving :: "world \<Rightarrow> nat \<Rightarrow> bool" where
  "receiving w j \<longleftrightarrow> j < sv_n (w_server w) \<and> s_writer (sv_sess (w_server w) j) = Selecting \<and>
     s_open (sv_sess (w_server w) j) \<and> listening (w_client w j) \<and> \<not> ws_done (transport (w_client w j))"

definition drained :: "nat \<Rightarrow> world \<Rightarrow> world" where
  "drained j w = w\<lparr>w_server := written_out j (w_server w)\<rparr>"

lemma drained_run:
  assumes r: "world_reachable w" and j: "receiving w j"
  shows "runs w (drained j w) \<and> world_reachable (drained j w)"
proof -
  have "runs w (drained j w)"
    unfolding drained_def
    using j by (intro drain_writer server_reachable_inv[OF world_server[OF r]]) (simp_all add: receiving_def)
  then show ?thesis using runs_reachable r by blast
qed

lemma drained_simps [simp]:
  "sv_n (w_server (drained j w)) = sv_n (w_server w)" "sv_pc (w_server (drained j w)) = sv_pc (w_server w)"
  "s_peer (sv_sess (w_server (drained j w)) i) = s_peer (sv_sess (w_server w) i)"
  "s_open (sv_sess (w_server (drained j w)) i) = s_open (sv_sess (w_server w) i)"
  "s_reader (sv_sess (w_server (drained j w)) i) = s_reader (sv_sess (w_server w) i)"
  "s_writer (sv_sess (w_server (drained j w)) i) = s_writer (sv_sess (w_server w) i)"
  "peers (sv_hub (w_server (drained j w))) = peers (sv_hub (w_server w))"
  "buf (chans (sv_hub (w_server (drained j w))) j) = []"
  "s_out (sv_sess (w_server (drained j w)) j) =
     s_out (sv_sess (w_server w) j) @ buf (chans (sv_hub (w_server w)) j)"
  "w_client (drained j w) = w_client w" "w_taken (drained j w) = w_taken w"
  "w_seen (drained j w) = w_seen w" "w_calls (drained j w) = w_calls w"
  by (simp_all add: drained_def written_out_def set_chan_def)

lemma receiving_drained [simp]: "receiving (drained i w) j = receiving w j"
  by (simp add: receiving_def)

text \<open>A message in an otherwise empty channel reaches the application.\<close>

lemma queued_arrives:
  assumes r: "world_reachable w" and j: "receiving w j"
    and m: "buf (chans (sv_hub (w_server w)) j) = [m]" "m_type m = Signal" "signal_from m = (i, sg)"
  shows "\<exists>v sgs. runs w v \<and> heard_from i (w_calls v j) = sgs @ [sg]"
proof -
  let ?c = "drained j w" and ?out = "s_out (sv_sess (w_server w) j)"
  let ?sigs = "\<lambda>ms. map signal_from (filter (\<lambda>m. m_type m = Signal) ms)"
  note c = drained_run[OF r j]
  have n: "j < sv_n (w_server w)" using j by (simp add: receiving_def)
  have seen: "w_seen w j \<le> length ?out"
    using world_okD(2)[OF world_reachable_ok[OF r] n] by (simp add: seen_ok_def)
  obtain d cs where d: "runs ?c (read_all j d cs ?c)"
      "signals_heard cs = ?sigs (drop (w_seen w j) (?out @ [m]))"
    using drain_reader[OF conjunct2[OF c], of j] j m(1) by (auto simp: receiving_def)
  have "signals_heard cs = ?sigs (drop (w_seen w j) ?out) @ [(i, sg)]"
    using d(2) seen m(2,3) by simp
  then have "heard_from i (w_calls (read_all j d cs ?c) j) =
      (heard_from i (w_calls w j) @ map snd (filter (\<lambda>x. fst x = i) (?sigs (drop (w_seen w j) ?out)))) @ [sg]"
    by (simp add: read_all_def heard_from_def)
  moreover have "runs w (read_all j d cs ?c)" using c d(1) by (meson rtranclp_trans)
  ultimately show ?thesis by blast
qed

lemma linked_receiving: "linked w j \<Longrightarrow> receiving w j"
  by (simp add: linked_def receiving_def)

lemma offer_can_arrive:
  assumes r: "world_reachable w" and pc: "sv_pc (w_server w) = Accepting"
    and k: "linked w k" and j: "linked w j" and ok: "time_ok tm" "in_int 64 t"
    and sent: "SendOffer wr tm t (peer_id (sess_peer (w_server w) j)) s (w_client w k) = (Inr (), c)"
  shows "\<exists>v sgs. runs (w\<lparr>w_client := (w_client w)(k := c)\<rparr>) v \<and>
    heard_from (peer_id (sess_peer (w_server w) k)) (w_calls v j) =
      sgs @ [(session_signal tm s)\<lparr>sig_from := peer_id (sess_peer (w_server w) k)\<rparr>]"
proof -
  let ?to = "peer_id (sess_peer (w_server w) j)" and ?i = "peer_id (sess_peer (w_server w) k)"
  let ?sg = "session_signal tm s"
  let ?a = "w\<lparr>w_client := (w_client w)(k := c)\<rparr>"
  have L: "k < sv_n (w_server w)" "s_open (sv_sess (w_server w) k)" "s_reader (sv_sess (w_server w) k) = Reading"
      "w_taken w k = length (texts (w_client w k))"
    using k by (simp_all add: linked_def)
  have J: "j < sv_n (w_server w)" "peers (sv_hub (w_server w)) ?to = Some (sess_peer (w_server w) j)"
    using j by (simp_all add: linked_def)
  note c = offer_written[OF sent]
  have "world_step w ?a"
    using client_act.offer[OF ok, of "w_client w k" wr ?to s] sent by (intro act L(1)) simp
  then have ra: "world_reachable ?a" by (rule world_next[OF r])
  have ja: "receiving ?a j"
    using linked_receiving[OF j] c(2,3) by (cases "j = k") (simp_all add: receiving_def)
  note b = drained_run[OF ra ja]
  have room: "\<not> full (chans (sv_hub (w_server (drained j ?a))) j)"
    using reachable_capacities[OF world_server[OF conjunct2[OF b]]] by (simp add: capacities_def sendCapacity_def)
  have to: "?to \<noteq> ''''"
    using reachable_ordered[OF world_server[OF r]] J(1) by (simp add: ordered_def sender_ok_def)
  obtain v m where v: "runs (drained j ?a) v" "queued m k j (drained j ?a) v" "m_type m = Signal"
      "signal_from m = (?i, ?sg\<lparr>sig_from := ?i\<rparr>)"
    using relay_run[OF conjunct2[OF b], of k "texts (w_client w k)" t ?to ?sg j]
      pc L J c(1) room to ok session_signal_ok[OF ok(1)] by auto
  have "receiving v j" "buf (chans (sv_hub (w_server v)) j) = [m]"
    using v(2) ja by (simp_all add: queued_def receiving_def)
  then obtain u sgs where "runs v u" "heard_from ?i (w_calls u j) = sgs @ [?sg\<lparr>sig_from := ?i\<rparr>]"
    using queued_arrives[OF runs_reachable[OF v(1) conjunct2[OF b]] _ _ v(3,4)] by blast
  moreover have "runs ?a u" using b v(1) \<open>runs v u\<close> by (meson rtranclp_trans)
  ultimately show ?thesis by blast
qed

section \<open>A world with one client\<close>

text \<open>A state of the server that was reached before any client sent anything.\<close>

definition silent :: "server \<Rightarrow> bool" where
  "silent s \<longleftrightarrow> (\<forall>k < sv_n s. s_sent (sv_sess s k) = [] \<and> forwarding (sv_sess s k) = [])"

lemma silent_quiet:
  assumes "silent t" "sv_n s \<le> sv_n t"
  shows "takes_no_text s t"
  unfolding takes_no_text_def
proof (intro allI impI)
  fix k m assume k: "k < sv_n s" and m: "s_reader (sv_sess t k) = Forwarding m"
  have "forwarding (sv_sess t k) = []" using assms k by (simp add: silent_def)
  with m show "s_reader (sv_sess s k) = Forwarding m" by simp
qed

lemma silent_before:
  assumes inv: "server_inv s" and step: "server_step s t" and "silent t"
  shows "silent s"
  unfolding silent_def
proof (intro allI impI)
  fix k assume k: "k < sv_n s"
  have t: "s_sent (sv_sess t k) = []" "forwarding (sv_sess t k) = []"
    using assms(3) k server_step_n[OF step] by (simp_all add: silent_def)
  obtain ms where "s_sent (sv_sess t k) = s_sent (sv_sess s k) @ ms"
    using server_step_session(3)[OF inv step k] by blast
  then have sent: "s_sent (sv_sess s k) = []" using t(1) by simp
  have "forwarding (sv_sess s k) = []"
    using forwarding_step[OF inv step silent_quiet[OF assms(3) server_step_n[OF step]] k] t by simp
  with sent show "s_sent (sv_sess s k) = [] \<and> forwarding (sv_sess s k) = []" by simp
qed

lemma silent_world:
  assumes "server_steps (start_server s0) s" "silent s" "\<forall>k. connects (url k) (cs k)"
  shows "world_reachable ((start_world s0 cs)\<lparr>w_server := s\<rparr>)"
  using assms(1,2)
proof (induction "start_server s0" s rule: server_steps.induct)
  case no_step
  then show ?case using world_start[OF assms(3), of s0] by (simp add: start_world_def)
next
  case (one_more t u)
  have inv: "server_inv t" by (rule server_steps_inv[OF one_more.hyps(1) server_inv_start])
  have "world_reachable ((start_world s0 cs)\<lparr>w_server := t\<rparr>)"
    by (rule one_more.hyps(2)[OF silent_before[OF inv one_more.hyps(3) one_more.prems]])
  then show ?case
    using serve[of "(start_world s0 cs)\<lparr>w_server := t\<rparr>" u] one_more.hyps(3)
      silent_quiet[OF one_more.prems server_step_n[OF one_more.hyps(3)]]
    by (auto intro: world_next)
qed

definition lone_client :: client where
  "lone_client = (new_client ''ws://localhost:8080/ws'')
     \<lparr>transport := (transport (new_client ''ws://localhost:8080/ws''))\<lparr>ws_connection := Some new_conn\<rparr>\<rparr>"

definition lone_listener :: client where
  "lone_listener = lone_client\<lparr>cl_handler := True, cl_peer_handler := True\<rparr>"

lemma lone_client_connects: "connects ''ws://localhost:8080/ws'' lone_client"
  by (simp add: connects_def client_Connect_def ws_Connect_def lone_client_def new_client_def
      NewWebSocketClient_def SetHandler_def SetPeerHandler_def DefaultConfig_def)

lemma lone_listener_acts:
  "client_act lone_client (lone_client\<lparr>cl_handler := True\<rparr>)"
  "client_act (lone_client\<lparr>cl_handler := True\<rparr>) lone_listener"
  by (rule on_signal; simp add: OnSignal_def lone_client_def new_client_def go_simps)
     (rule on_peer_event; simp add: OnPeerEvent_def lone_client_def lone_listener_def new_client_def go_simps)

lemma lone_listener_simps:
  "connected lone_listener" "listening lone_listener" "\<not> ws_done (transport lone_listener)"
  "texts lone_listener = []"
  by (simp_all add: lone_listener_def lone_client_def new_client_def connected_def listening_def
      ready_def NewWebSocketClient_def SetHandler_def SetPeerHandler_def texts_def frames_def new_conn_def)

lemma lone_world:
  "\<exists>w. world_reachable w \<and> sv_pc (w_server w) = Accepting \<and> linked w 0 \<and> w_client w 0 = lone_listener \<and>
     sess_peer (w_server w) 0 = lone \<and> sv_n (w_server w) = 1"
proof -
  obtain s where s: "lonely 2 s" "s_sent (sv_sess s 0) = []" using lonely_start by blast
  then obtain s0 where s0: "server_steps (start_server s0) s"
    by (auto simp: lonely_def server_reachable_def)
  have "silent s" using s by (simp add: silent_def lonely_def forwarding_def)
  let ?w = "(start_world s0 (\<lambda>_. lone_client))\<lparr>w_server := s\<rparr>"
  have n: "0 < sv_n (w_server ?w)" using s by (simp add: lonely_def)
  have "world_reachable ?w"
    by (rule silent_world[OF s0 \<open>silent s\<close>]) (intro allI, rule lone_client_connects)
  then have "world_reachable (?w\<lparr>w_client := (w_client ?w)(0 := lone_client\<lparr>cl_handler := True\<rparr>)\<rparr>)"
    by (rule world_next) (rule act[OF n], simp add: start_world_def lone_listener_acts)
  then have "world_reachable (?w\<lparr>w_client := (w_client ?w)(0 := lone_listener)\<rparr>)"
    by (rule world_next)
       (use act[of 0 "?w\<lparr>w_client := (w_client ?w)(0 := lone_client\<lparr>cl_handler := True\<rparr>)\<rparr>" lone_listener]
         n lone_listener_acts in simp)
  then show ?thesis
    using s lone_listener_simps
    by (intro exI[of _ "?w\<lparr>w_client := (w_client ?w)(0 := lone_listener)\<rparr>"])
       (simp add: linked_def lonely_def start_world_def)
qed

end
