(* ===== verification/WorldProps.thy ===== *)
theory WorldProps
  imports WorldDelivery
begin

text \<open>
  The properties of the whole system: what one application sends and what another is called
  with, through two clients, two sockets, four pumps and the hub.
\<close>

text \<open>C4: The signals an application is called with under a peer's name are a subsequence of the
  signals that peer's client sent to it: in order, none twice, none changed, none invented;
  and no call carries a name that is not a connection's.\<close>

theorem signals_in_order:
  assumes "world_reachable w" "j < sv_n (w_server w)" "k < sv_n (w_server w)"
  shows "subseq (heard_from (peer_id (sess_peer (w_server w) k)) (w_calls w j))
      (map (\<lambda>sg. sg\<lparr>sig_from := peer_id (sess_peer (w_server w) k)\<rparr>)
         (signals_to (peer_id (sess_peer (w_server w) j)) (w_client w k))) \<and>
    (\<forall>x \<in> set (signals_heard (w_calls w j)). \<exists>i < sv_n (w_server w). fst x = peer_id (sess_peer (w_server w) i))"
  using world_ordered[OF assms] world_callers[OF assms(1,2)] by blast

text \<open>C9: As long as every client uses the library, every message on its way to a client is well
  typed: its \<open>type\<close> tells what its raw \<open>data\<close> holds, so that a listening client decodes
  it without an error and makes exactly the callback that belongs to the type.\<close>

theorem world_is_typed:
  assumes "world_reachable w" "k < sv_n (w_server w)" "m \<in> set (stream (w_server w) k)" "listening c"
  shows "well_typed m \<and>
    (\<exists>c' call. receive_frame (enc_message m) c = Done (c', call) \<and> listening c' \<and> event_of (m_type m) call)"
  using world_typed[OF assms(1-3)] typed_progress[OF _ assms(4)] by blast

text \<open>C7: Whenever the hub is idle and two clients are connected, registered and listening, an
  offer that \<open>SendOffer\<close> accepted can arrive: from there the system has a run at whose end
  the other application has been called with it, under the sender's name.\<close>

theorem offer_arrives:
  assumes "world_reachable w" "sv_pc (w_server w) = Accepting" "linked w k" "linked w j"
    and "time_ok tm" "in_int 64 t"
    and "SendOffer wr tm t (peer_id (sess_peer (w_server w) j)) s (w_client w k) = (Inr (), c)"
  shows "\<exists>v sgs. world_step\<^sup>*\<^sup>* (w\<lparr>w_client := (w_client w)(k := c)\<rparr>) v \<and>
    heard_from (peer_id (sess_peer (w_server w) k)) (w_calls v j) =
      sgs @ [(session_signal tm s)\<lparr>sig_from := peer_id (sess_peer (w_server w) k)\<rparr>]"
  using assms by (rule offer_can_arrive)

section \<open>Witnesses\<close>

definition lone_offer :: session_description where
  "lone_offer = NewOffer ''v=0''"

text \<open>The client that sends itself an offer.\<close>

lemma lone_sends:
  "\<exists>c. SendOffer (\<lambda>_. None) noon 0 to lone_offer lone_listener = (Inr (), c)"
proof -
  obtain c' where "send_signal (\<lambda>_. None) 0 to (session_signal noon lone_offer) lone_listener = (Inr (), c')"
    using send_signal_connected[OF lone_listener_simps(1), of "\<lambda>_. None" 0 to "session_signal noon lone_offer"] by blast
  then show ?thesis by (simp add: SendOffer_eq)
qed

lemma lone_offer_heard:
  obtains w v sgs where "world_reachable w" "world_reachable v" "sv_n (w_server w) = 1"
    "0 < sv_n (w_server v)" "sess_peer (w_server v) 0 = lone"
    "heard_from (peer_id lone) (w_calls v 0) = sgs @ [(session_signal noon lone_offer)\<lparr>sig_from := peer_id lone\<rparr>]"
proof -
  obtain w where w: "world_reachable w" "sv_pc (w_server w) = Accepting" "linked w 0"
      "w_client w 0 = lone_listener" "sess_peer (w_server w) 0 = lone" "sv_n (w_server w) = 1"
    using lone_world by blast
  obtain c where c: "SendOffer (\<lambda>_. None) noon 0 (peer_id lone) lone_offer lone_listener = (Inr (), c)"
    using lone_sends by blast
  let ?a = "w\<lparr>w_client := (w_client w)(0 := c)\<rparr>"
  obtain v sgs where v: "runs ?a v"
      "heard_from (peer_id lone) (w_calls v 0) = sgs @ [(session_signal noon lone_offer)\<lparr>sig_from := peer_id lone\<rparr>]"
    using offer_can_arrive[OF w(1-3) w(3) noon_ok in_int_0] c unfolding w(4,5) by blast
  have "world_step w ?a"
    using client_act.offer[OF noon_ok in_int_0, of lone_listener "\<lambda>_. None" "peer_id lone" lone_offer] c w(4,6)
    by (intro act) simp_all
  then have a: "world_reachable ?a" by (rule world_next[OF w(1)])
  have "0 < sv_n (w_server v) \<and> sess_peer (w_server v) 0 = lone"
    using runs_peer[OF v(1) a, of 0] w(5,6) by simp
  then show thesis using that w(1,6) v(2) runs_reachable[OF v(1) a] by blast
qed

theorem signals_in_order_witness:
  "\<exists>w. world_reachable w \<and> heard_from (peer_id lone) (w_calls w 0) \<noteq> [] \<and>
     subseq (heard_from (peer_id lone) (w_calls w 0))
       (map (\<lambda>sg. sg\<lparr>sig_from := peer_id lone\<rparr>) (signals_to (peer_id lone) (w_client w 0)))"
proof -
  obtain w v sgs where v: "world_reachable v" "0 < sv_n (w_server v)" "sess_peer (w_server v) 0 = lone"
      "heard_from (peer_id lone) (w_calls v 0) = sgs @ [(session_signal noon lone_offer)\<lparr>sig_from := peer_id lone\<rparr>]"
    by (rule lone_offer_heard)
  then show ?thesis
    using signals_in_order[OF v(1,2,2)] unfolding v(3) by (intro exI[of _ v]) simp
qed

theorem world_is_typed_witness:
  "\<exists>w m. world_reachable w \<and> m \<in> set (stream (w_server w) 0) \<and> well_typed m"
proof -
  obtain w where w: "world_reachable w" "sv_n (w_server w) = 1" "linked w 0" "sv_pc (w_server w) = Accepting"
    using lone_world by blast
  have "greetings (w_server w)" by (rule reachable_greetings[OF world_server[OF w(1)]])
  moreover have "\<not> waiting (w_server w) 0"
    using server_invD(6)[OF server_reachable_inv[OF world_server[OF w(1)]], of 0] w(2-4)
    by (auto simp: linked_def waiting_def sess_ok_def)
  ultimately obtain m where "m \<in> set (stream (w_server w) 0)"
    using w(2) unfolding greetings_def greeted_def by fastforce
  then show ?thesis
    using world_is_typed[OF w(1) _ _ lone_listener_simps(2), of 0 m] w(1,2) by auto
qed

theorem offer_arrives_witness:
  "\<exists>w v sgs. world_reachable w \<and> world_step\<^sup>*\<^sup>* w v \<and>
     heard_from (peer_id lone) (w_calls v 0) = sgs @ [(session_signal noon lone_offer)\<lparr>sig_from := peer_id lone\<rparr>]"
proof -
  obtain w where w: "world_reachable w" "sv_pc (w_server w) = Accepting" "linked w 0"
      "w_client w 0 = lone_listener" "sess_peer (w_server w) 0 = lone" "sv_n (w_server w) = 1"
    using lone_world by blast
  obtain c where c: "SendOffer (\<lambda>_. None) noon 0 (peer_id lone) lone_offer lone_listener = (Inr (), c)"
    using lone_sends by blast
  let ?a = "w\<lparr>w_client := (w_client w)(0 := c)\<rparr>"
  have "world_step w ?a"
    using client_act.offer[OF noon_ok in_int_0, of lone_listener "\<lambda>_. None" "peer_id lone" lone_offer] c w(4,6)
    by (intro act) simp_all
  then have "world_reachable ?a" by (rule world_next[OF w(1)])
  then show ?thesis
    using offer_arrives[OF w(1-3) w(3) noon_ok in_int_0] c unfolding w(4,5) by blast
qed

end
