(* ===== verification/Flags.thy ===== *)
theory Flags
  imports GoBase
begin

text \<open>
  The part of Go's package \<open>flag\<close> that the two commands use: \<open>Parse\<close> over string and boolean
  flags. A flag is \<open>-name\<close> or \<open>--name\<close>, with its value after \<open>=\<close> or, for a string, in the
  next argument; the first argument that is no flag, or \<open>--\<close>, ends the flags; a later flag
  overwrites an earlier one. \<open>Parse\<close> ends the process on an error, with 0 after the usage
  message that \<open>-h\<close> and \<open>-help\<close> ask for and with 2 otherwise. The text of messages is left out.
\<close>

datatype 'r flag_kind = StringFlag "string \<Rightarrow> 'r \<Rightarrow> 'r" | BoolFlag "bool \<Rightarrow> 'r \<Rightarrow> 'r"

type_synonym 'r flag_set = "(string \<times> 'r flag_kind) list"

datatype 'r flag_result = Parsed 'r "string list" | FlagExit nat

text \<open>\<open>strconv.ParseBool\<close>.\<close>

definition parse_bool :: "string \<Rightarrow> bool option" where
  "parse_bool s =
     (if s \<in> {''1'', ''t'', ''T'', ''true'', ''TRUE'', ''True''} then Some True
      else if s \<in> {''0'', ''f'', ''F'', ''false'', ''FALSE'', ''False''} then Some False
      else None)"

definition split_value :: "string \<Rightarrow> string \<times> string option" where
  "split_value s =
     (let v = dropWhile (\<lambda>c. c \<noteq> CHR ''='') s
      in (takeWhile (\<lambda>c. c \<noteq> CHR ''='') s, if v = [] then None else Some (tl v)))"

definition is_flag :: "string \<Rightarrow> bool" where
  "is_flag s \<longleftrightarrow> 2 \<le> length s \<and> hd s = CHR ''-''"

definition flag_name :: "string \<Rightarrow> string" where
  "flag_name s = (if take 2 s = ''--'' then drop 2 s else drop 1 s)"

fun parse_flags :: "'r flag_set \<Rightarrow> string list \<Rightarrow> 'r \<Rightarrow> 'r flag_result" where
  "parse_flags fs [] r = Parsed r []"
| "parse_flags fs (s # rest) r =
     (if \<not> is_flag s then Parsed r (s # rest)
      else if s = ''--'' then Parsed r rest
      else if flag_name s = [] \<or> hd (flag_name s) = CHR ''-'' \<or> hd (flag_name s) = CHR ''='' then FlagExit 2
      else
        (let (n, v) = split_value (flag_name s) in
         case map_of fs n of
           None \<Rightarrow> FlagExit (if n = ''help'' \<or> n = ''h'' then 0 else 2)
         | Some (BoolFlag set_to) \<Rightarrow>
             (case v of
                None \<Rightarrow> parse_flags fs rest (set_to True r)
              | Some x \<Rightarrow>
                  (case parse_bool x of None \<Rightarrow> FlagExit 2 | Some b \<Rightarrow> parse_flags fs rest (set_to b r)))
         | Some (StringFlag set_to) \<Rightarrow>
             (case v of
                Some x \<Rightarrow> parse_flags fs rest (set_to x r)
              | None \<Rightarrow>
                  (case rest of [] \<Rightarrow> FlagExit 2 | x # rest' \<Rightarrow> parse_flags fs rest' (set_to x r)))))"

declare parse_flags.simps(2) [simp del]

text \<open>A flag with its value after \<open>=\<close>, as it is read.\<close>

definition flag_arg :: "string \<Rightarrow> string \<Rightarrow> string" where
  "flag_arg n v = CHR ''-'' # n @ CHR ''='' # v"

definition plain_name :: "string \<Rightarrow> bool" where
  "plain_name n \<longleftrightarrow> n \<noteq> [] \<and> hd n \<noteq> CHR ''-'' \<and> list_all (\<lambda>c. c \<noteq> CHR ''='') n"

lemma split_flag_arg:
  "plain_name n \<Longrightarrow> is_flag (flag_arg n v)" "plain_name n \<Longrightarrow> flag_name (flag_arg n v) = n @ CHR ''='' # v"
  "plain_name n \<Longrightarrow> flag_arg n v \<noteq> ''--''" "plain_name n \<Longrightarrow> split_value (n @ CHR ''='' # v) = (n, Some v)"
  by (cases n; auto simp: plain_name_def flag_arg_def is_flag_def flag_name_def split_value_def list_all_iff)+

lemma parse_string_flag:
  assumes "plain_name n" "map_of fs n = Some (StringFlag set_to)"
  shows "parse_flags fs (flag_arg n v # rest) r = parse_flags fs rest (set_to v r)"
proof -
  have "n @ CHR ''='' # v \<noteq> [] \<and> hd (n @ CHR ''='' # v) \<noteq> CHR ''-'' \<and> hd (n @ CHR ''='' # v) \<noteq> CHR ''=''"
    using assms(1) by (cases n) (auto simp: plain_name_def)
  then show ?thesis by (simp add: parse_flags.simps(2) split_flag_arg[OF assms(1)] assms(2))
qed

lemma parse_bool_flag:
  assumes "plain_name n" "map_of fs n = Some (BoolFlag set_to)" "parse_bool v = Some b"
  shows "parse_flags fs (flag_arg n v # rest) r = parse_flags fs rest (set_to b r)"
proof -
  have "n @ CHR ''='' # v \<noteq> [] \<and> hd (n @ CHR ''='' # v) \<noteq> CHR ''-'' \<and> hd (n @ CHR ''='' # v) \<noteq> CHR ''=''"
    using assms(1) by (cases n) (auto simp: plain_name_def)
  then show ?thesis by (simp add: parse_flags.simps(2) split_flag_arg[OF assms(1)] assms(2,3))
qed

lemma parse_bool_names [simp]: "parse_bool ''true'' = Some True" "parse_bool ''false'' = Some False"
  by (simp_all add: parse_bool_def)

text \<open>The only ways to end the process.\<close>

definition asks_help :: "string \<Rightarrow> bool" where
  "asks_help s \<longleftrightarrow> fst (split_value (flag_name s)) \<in> {''help'', ''h''}"

lemma parse_flags_exit:
  "parse_flags fs args r = FlagExit n \<Longrightarrow> n = 2 \<or> n = 0 \<and> list_ex asks_help args"
proof (induction fs args r rule: parse_flags.induct)
  case (2 fs s rest r)
  obtain m v where s: "split_value (flag_name s) = (m, v)" by fastforce
  show ?case
  proof (cases "is_flag s \<and> s \<noteq> ''--'' \<and>
      \<not> (flag_name s = [] \<or> hd (flag_name s) = CHR ''-'' \<or> hd (flag_name s) = CHR ''='')")
    case False
    then show ?thesis using "2.prems" by (auto simp: parse_flags.simps(2) split: if_splits)
  next
    case True
    note ih = "2.IH"[OF _ _ _ s[symmetric] refl]
    show ?thesis
      using "2.prems" True ih s
      by (auto simp: parse_flags.simps(2) asks_help_def split: option.splits flag_kind.splits list.splits if_splits)
  qed
qed simp

end
