(* ===== verification/ServerMain.thy ===== *)
theory ServerMain
  imports ServerDelivery Flags
begin

text \<open>
  \<^verbatim>\<open>cmd/server/main.go\<close>: the process around the server, from its start to its exit.

  \<open>process\<close> is the server (hub and connections) with the program counter of \<open>main\<close>, the
  state of the goroutine that runs \<open>ListenAndServe\<close>, and the HTTP requests that are accepted
  and not yet answered. \<open>net/http\<close> is modelled as far as \<open>main\<close> relies on its documented
  behaviour: the two patterns of the default mux match their path only; \<open>Shutdown\<close> closes the
  listener, waits until no request is in progress or its context ends, and neither closes nor
  waits for connections that an upgrade has taken over; \<open>ListenAndServe\<close> then returns
  \<open>ErrServerClosed\<close>. Whether the upgrade of a request succeeds is decided outside
  (\<open>gorilla/websocket\<close>; every origin is allowed): on success a connection starts, on
  failure the upgrader has answered and the handler returns.

  When \<open>main\<close> returns, or the listener's goroutine calls \<open>os.Exit\<close>, the process ends and
  every goroutine with it; a panic of the hub's goroutine, which nothing recovers, would end it
  with the status 2.
\<close>

section \<open>HTTP\<close>

text \<open>
  Paths are cleaned paths, as the mux matches them. The body is what the program encodes; the
  text of the mux's own error answers is left out.
\<close>

datatype route = RouteWS | RouteHealth | NotFound

definition route_of :: "string \<Rightarrow> route" where
  "route_of path =
     (if path = ''/ws'' then RouteWS else if path = ''/health'' then RouteHealth else NotFound)"

record response =
  status :: nat
  body :: "json option"

definition health_response :: response where
  "health_response = \<lparr>status = 200, body = Some (JObj [(''status'', JStr ''ok'')])\<rparr>"

definition not_found :: response where
  "not_found = \<lparr>status = 404, body = None\<rparr>"

text \<open>The upgrader accepts a request whatever its origin.\<close>

definition CheckOrigin :: "string \<Rightarrow> bool" where
  "CheckOrigin origin = True"

section \<open>The process\<close>

record server_flags =
  addr :: string
  log_level_flag :: string

definition default_flags :: server_flags where
  "default_flags = \<lparr>addr = '':8080'', log_level_flag = ''info''\<rparr>"

definition server_flag_set :: "server_flags flag_set" where
  "server_flag_set =
     [(''addr'', StringFlag (\<lambda>s f. f\<lparr>addr := s\<rparr>)), (''log-level'', StringFlag (\<lambda>s f. f\<lparr>log_level_flag := s\<rparr>))]"

datatype main_pc = Waiting | ShuttingDown | Exited nat

datatype listener_pc = Binding | Listening | ListenFailed | ListenerClosed

record process =
  pr_server :: server
  pr_signalled :: bool
  pr_main :: main_pc
  pr_listener :: listener_pc
  pr_requests :: "string list"
  pr_answers :: "(string \<times> response) list"
  pr_level :: log_level

definition start_main :: "server_flags \<Rightarrow> session \<Rightarrow> process" where
  "start_main fl s0 =
     \<lparr>pr_server = start_server s0, pr_signalled = False, pr_main = Waiting, pr_listener = Binding, pr_requests = [],
      pr_answers = [], pr_level = parseLogLevel (log_level_flag fl)\<rparr>"

text \<open>\<open>main\<close> on its arguments: an exit status, or the process that runs.\<close>

definition server_program :: "string list \<Rightarrow> session \<Rightarrow> nat + process" where
  "server_program args s0 =
     (case parse_flags server_flag_set args default_flags of
        FlagExit n \<Rightarrow> Inl n
      | Parsed fl rest \<Rightarrow> Inr (start_main fl s0))"

definition running :: "process \<Rightarrow> bool" where
  "running p \<longleftrightarrow> (\<forall>c. pr_main p \<noteq> Exited c)"

definition answer_of :: "string \<Rightarrow> response option" where
  "answer_of path = (case route_of path of
     RouteHealth \<Rightarrow> Some health_response | NotFound \<Rightarrow> Some not_found | RouteWS \<Rightarrow> None)"

text \<open>
  \<open>Shutdown\<close> makes the listener return \<open>ErrServerClosed\<close>, which \<open>main\<close> ignores.
  \<open>pr_signalled\<close> says that \<open>ctx\<close> is done, by a SIGINT or SIGTERM, which can come at any time;
  \<open>main\<close> waits for it. The five seconds after which \<open>Shutdown\<close> gives up are not timed: a
  \<open>timed_out\<close> step is possible from its start on.
\<close>

fun close_listener :: "listener_pc \<Rightarrow> listener_pc" where
  "close_listener ListenFailed = ListenFailed"
| "close_listener l = ListenerClosed"

inductive main_step :: "process \<Rightarrow> process \<Rightarrow> bool" where
  listen: "running p \<Longrightarrow> pr_listener p = Binding \<Longrightarrow> main_step p (p\<lparr>pr_listener := Listening\<rparr>)"
| listen_error: "running p \<Longrightarrow> pr_listener p \<in> {Binding, Listening} \<Longrightarrow>
     main_step p (p\<lparr>pr_listener := ListenFailed\<rparr>)"
| exit_1: "running p \<Longrightarrow> pr_listener p = ListenFailed \<Longrightarrow> main_step p (p\<lparr>pr_main := Exited 1\<rparr>)"
| accept: "running p \<Longrightarrow> pr_listener p = Listening \<Longrightarrow>
     main_step p (p\<lparr>pr_requests := pr_requests p @ [path]\<rparr>)"
| answer: "running p \<Longrightarrow> pr_requests p = xs @ path # ys \<Longrightarrow> answer_of path = Some r \<Longrightarrow>
     main_step p (p\<lparr>pr_requests := xs @ ys, pr_answers := pr_answers p @ [(path, r)]\<rparr>)"
| upgrade: "running p \<Longrightarrow> pr_requests p = xs @ path # ys \<Longrightarrow> route_of path = RouteWS \<Longrightarrow>
     CheckOrigin origin \<Longrightarrow> server_step (pr_server p) s \<Longrightarrow> sv_n s = Suc (sv_n (pr_server p)) \<Longrightarrow>
     main_step p (p\<lparr>pr_requests := xs @ ys, pr_server := s\<rparr>)"
| upgrade_fails: "running p \<Longrightarrow> pr_requests p = xs @ path # ys \<Longrightarrow> route_of path = RouteWS \<Longrightarrow>
     main_step p (p\<lparr>pr_requests := xs @ ys\<rparr>)"
| work: "running p \<Longrightarrow> server_step (pr_server p) s \<Longrightarrow> sv_n s = sv_n (pr_server p) \<Longrightarrow>
     main_step p (p\<lparr>pr_server := s\<rparr>)"
| crash: "running p \<Longrightarrow> sv_crashed (pr_server p) \<Longrightarrow> main_step p (p\<lparr>pr_main := Exited 2\<rparr>)"
| signalled: "running p \<Longrightarrow> main_step p (p\<lparr>pr_signalled := True\<rparr>)"
| interrupted: "pr_main p = Waiting \<Longrightarrow> pr_signalled p \<Longrightarrow>
     main_step p (p\<lparr>pr_main := ShuttingDown, pr_listener := close_listener (pr_listener p)\<rparr>)"
| shut_down: "pr_main p = ShuttingDown \<Longrightarrow> pr_requests p = [] \<Longrightarrow> main_step p (p\<lparr>pr_main := Exited 0\<rparr>)"
| timed_out: "pr_main p = ShuttingDown \<Longrightarrow> main_step p (p\<lparr>pr_main := Exited 0\<rparr>)"

abbreviation main_runs :: "process \<Rightarrow> process \<Rightarrow> bool" where
  "main_runs \<equiv> main_step\<^sup>*\<^sup>*"

definition main_reachable :: "process \<Rightarrow> bool" where
  "main_reachable p \<longleftrightarrow> (\<exists>args s0 p0. server_program args s0 = Inr p0 \<and> main_runs p0 p)"

lemma server_program_starts: "server_program args s0 = Inr p0 \<Longrightarrow> \<exists>fl. p0 = start_main fl s0"
  by (auto simp: server_program_def split: flag_result.splits)

lemma server_program_default: "server_program [] s0 = Inr (start_main default_flags s0)"
  by (simp add: server_program_def)

lemma main_reachable_start: "main_reachable p \<Longrightarrow> \<exists>fl s0. main_runs (start_main fl s0) p"
  using server_program_starts by (fastforce simp: main_reachable_def)

section \<open>The server in the process\<close>

lemma running_simps [simp]:
  "pr_main p = Waiting \<Longrightarrow> running p" "pr_main p = ShuttingDown \<Longrightarrow> running p"
  "pr_main p = Exited c \<Longrightarrow> \<not> running p"
  by (simp_all add: running_def)

lemma server_reachable_calm: "server_reachable s \<Longrightarrow> \<not> sv_crashed s"
  using server_reachable_inv server_invD(2) by blast

lemma main_step_server:
  assumes "main_step p q"
  shows "pr_server q = pr_server p \<or> server_step (pr_server p) (pr_server q)"
  using assms by cases simp_all

lemma main_runs_server: "main_runs p q \<Longrightarrow> server_reachable (pr_server p) \<Longrightarrow> server_reachable (pr_server q)"
proof (induction rule: rtranclp_induct)
  case (step q r)
  from main_step_server[OF step.hyps(2)] step show ?case
    by (auto simp: server_reachable_def intro: server_steps.one_more)
qed

lemma main_server: "main_reachable p \<Longrightarrow> server_reachable (pr_server p)"
proof -
  assume "main_reachable p"
  then obtain fl s0 where "main_runs (start_main fl s0) p" using main_reachable_start by blast
  moreover have "server_reachable (pr_server (start_main fl s0))"
    by (auto simp: start_main_def server_reachable_def intro: server_steps.no_step)
  ultimately show "server_reachable (pr_server p)" by (rule main_runs_server)
qed

lemma main_reachable_step: "main_reachable p \<Longrightarrow> main_step p q \<Longrightarrow> main_reachable q"
  unfolding main_reachable_def by (meson rtranclp.rtrancl_into_rtrancl)

section \<open>The life of the process\<close>

text \<open>
  An exit with 1 needs a failed listener; \<open>main\<close> shuts down, and exits with 0, only after a
  signal, and then the listener is not open. Answers are the mux's.
\<close>

definition life_ok :: "process \<Rightarrow> bool" where
  "life_ok p \<longleftrightarrow>
     (case pr_main p of
        Waiting \<Rightarrow> pr_listener p \<noteq> ListenerClosed
      | ShuttingDown \<Rightarrow> pr_signalled p \<and> pr_listener p \<in> {ListenFailed, ListenerClosed}
      | Exited c \<Rightarrow> c = 1 \<and> pr_listener p = ListenFailed \<or>
          c = 0 \<and> pr_signalled p \<and> pr_listener p \<in> {ListenFailed, ListenerClosed}) \<and>
     (\<forall>(path, r) \<in> set (pr_answers p). answer_of path = Some r)"

lemma close_listener_range [simp]: "close_listener l = ListenFailed \<or> close_listener l = ListenerClosed"
  by (cases l) simp_all

lemma life_ok_step:
  assumes "main_step p q" "life_ok p" "server_reachable (pr_server p)"
  shows "life_ok q"
  using assms(1)
  by cases (use assms(2) server_reachable_calm[OF assms(3)] in
    \<open>auto simp: life_ok_def running_def split: main_pc.splits\<close>)

lemma life_ok_runs: "main_runs p q \<Longrightarrow> server_reachable (pr_server p) \<Longrightarrow> life_ok p \<Longrightarrow> life_ok q"
  by (induction rule: rtranclp_induct) (auto intro: life_ok_step main_runs_server)

lemma main_reachable_life: "main_reachable p \<Longrightarrow> life_ok p"
proof -
  assume "main_reachable p"
  then obtain fl s0 where r: "main_runs (start_main fl s0) p" using main_reachable_start by blast
  show "life_ok p"
    by (rule life_ok_runs[OF r])
       (auto simp: life_ok_def start_main_def server_reachable_def intro: server_steps.no_step)
qed

text \<open>Nothing happens after the exit.\<close>

lemma exited_step:
  assumes "pr_main p = Exited c"
  shows "\<not> main_step p q"
proof
  assume "main_step p q"
  then show False by cases (use assms in simp_all)
qed

lemma exited_runs: "main_runs p q \<Longrightarrow> pr_main p = Exited c \<Longrightarrow> q = p"
  by (induction rule: rtranclp_induct) (auto simp: exited_step)

section \<open>After the interrupt\<close>

text \<open>Connections come only from requests that were accepted before.\<close>

definition load :: "process \<Rightarrow> nat" where
  "load p = sv_n (pr_server p) + length (pr_requests p)"

lemma load_step:
  assumes "main_step p q" "pr_main p \<noteq> Waiting" "life_ok p"
  shows "load q \<le> load p \<and> pr_main q \<noteq> Waiting"
  using assms(1)
  by cases (use assms(2,3) in \<open>auto simp: load_def life_ok_def running_def split: main_pc.splits\<close>)

lemma load_runs:
  assumes "main_runs p q" "pr_main p \<noteq> Waiting" "main_reachable p"
  shows "load q \<le> load p \<and> pr_main q \<noteq> Waiting \<and> main_reachable q"
  using assms
proof (induction rule: rtranclp_induct)
  case (step q r)
  then have q: "load q \<le> load p" "pr_main q \<noteq> Waiting" "main_reachable q" by auto
  have "load r \<le> load q \<and> pr_main r \<noteq> Waiting"
    by (rule load_step[OF step.hyps(2) q(2) main_reachable_life[OF q(3)]])
  then show ?case using q main_reachable_step[OF q(3) step.hyps(2)] by auto
qed simp

text \<open>
  The process can end two steps after \<open>main\<close> learns of a signal, whatever connections are
  open, without another step of theirs.
\<close>

lemma abrupt_end:
  assumes "pr_main p = Waiting"
  shows "\<exists>q. main_runs p q \<and> pr_main q = Exited 0 \<and> pr_server q = pr_server p"
proof -
  let ?s = "p\<lparr>pr_signalled := True\<rparr>"
  let ?a = "?s\<lparr>pr_main := ShuttingDown, pr_listener := close_listener (pr_listener ?s)\<rparr>"
  have "main_step p ?s" by (rule signalled) (simp add: assms)
  moreover have "main_step ?s ?a" by (rule interrupted) (simp_all add: assms)
  moreover have "main_step ?a (?a\<lparr>pr_main := Exited 0\<rparr>)" by (rule timed_out) simp
  ultimately show ?thesis
    by (intro exI[of _ "?a\<lparr>pr_main := Exited 0\<rparr>"]) (auto intro: converse_rtranclp_into_rtranclp)
qed

section \<open>Every state of the server is one of a process\<close>

lemma server_step_new:
  assumes "server_step s t"
  shows "sv_n t = sv_n s \<or> sv_n t = Suc (sv_n s)"
  using assms by cases simp_all

definition open_for :: "process \<Rightarrow> server \<Rightarrow> bool" where
  "open_for p s \<longleftrightarrow> main_reachable p \<and> pr_server p = s \<and> pr_main p = Waiting \<and> pr_listener p = Listening \<and>
     pr_requests p = []"

lemma process_of_server:
  "server_steps (start_server s0) s \<Longrightarrow> \<exists>p. open_for p s"
proof (induction "start_server s0" s rule: server_steps.induct)
  case no_step
  let ?p = "start_main default_flags s0"
  have "main_reachable ?p" unfolding main_reachable_def using server_program_default by blast
  moreover have "main_step ?p (?p\<lparr>pr_listener := Listening\<rparr>)"
    by (rule listen) (simp_all add: start_main_def)
  ultimately show ?case
    by (intro exI[of _ "?p\<lparr>pr_listener := Listening\<rparr>"])
       (auto simp: open_for_def start_main_def intro: main_reachable_step)
next
  case (one_more t u)
  then obtain p where p: "open_for p t" by blast
  show ?case
  proof (cases "sv_n u = sv_n t")
    case True
    then have "main_step p (p\<lparr>pr_server := u\<rparr>)"
      using p one_more.hyps(3) by (intro work) (simp_all add: open_for_def)
    then show ?thesis
      using p by (intro exI[of _ "p\<lparr>pr_server := u\<rparr>"]) (auto simp: open_for_def intro: main_reachable_step)
  next
    case False
    let ?a = "p\<lparr>pr_requests := pr_requests p @ [''/ws'']\<rparr>"
    have "main_step p ?a" using p by (intro accept) (simp_all add: open_for_def)
    then have a: "main_reachable ?a" using p by (auto simp: open_for_def intro: main_reachable_step)
    have "main_step ?a (?a\<lparr>pr_requests := [] @ [], pr_server := u\<rparr>)"
      by (rule upgrade[of _ "[]" "''/ws''" "[]" "''''"])
         (use p False one_more.hyps(3) server_step_new[OF one_more.hyps(3)] in
           \<open>simp_all add: open_for_def route_of_def CheckOrigin_def\<close>)
    with a have "main_reachable (?a\<lparr>pr_requests := [] @ [], pr_server := u\<rparr>)"
      by (rule main_reachable_step)
    then show ?thesis
      using p by (intro exI[of _ "?a\<lparr>pr_requests := [] @ [], pr_server := u\<rparr>"]) (simp add: open_for_def)
  qed
qed

end
