(* ===== verification/ClientMain.thy ===== *)
theory ClientMain
  imports EndToEnd Flags
begin

text \<open>
  \<^verbatim>\<open>cmd/client/main.go\<close>: the function \<open>main\<close> of the demo client, from its arguments to its
  exit status.

  \<open>client_program\<close> parses the flags; \<open>client_main\<close> runs the program over what happens to it: the frames that the read pump gets
  during the half second before the callbacks are set (\<open>early\<close>), then, in any order, typed
  lines, frames, elapsed delays, the loss of the connection and the end of the standard input
  (\<open>app_input\<close>). Each is one turn, the granularity of \<^verbatim>\<open>ClientApp\<close>. When the inputs are used
  up and none has ended the shell, the program waits for the next line: the result is
  \<open>Blocked\<close>. Otherwise it is the exit status, what was printed, and the application
  as it was at the end. The messages of the logger and the shell's
  prompt are not modelled.
\<close>

section \<open>Flags\<close>

record client_flags =
  server_addr :: string
  peer_flag :: string
  client_log_level :: string
  use_ice :: bool

definition default_client_flags :: client_flags where
  "default_client_flags = \<lparr>server_addr = ''ws://localhost:8080/ws'', peer_flag = '''',
     client_log_level = ''info'', use_ice = False\<rparr>"

definition client_flag_set :: "client_flags flag_set" where
  "client_flag_set =
     [(''server'', StringFlag (\<lambda>s f. f\<lparr>server_addr := s\<rparr>)), (''peer'', StringFlag (\<lambda>s f. f\<lparr>peer_flag := s\<rparr>)),
      (''log-level'', StringFlag (\<lambda>s f. f\<lparr>client_log_level := s\<rparr>)), (''ice'', BoolFlag (\<lambda>b f. f\<lparr>use_ice := b\<rparr>))]"

text \<open>The arguments that give every flag its value.\<close>

definition client_args :: "client_flags \<Rightarrow> string list" where
  "client_args fl =
     [flag_arg ''server'' (server_addr fl), flag_arg ''peer'' (peer_flag fl),
      flag_arg ''log-level'' (client_log_level fl), flag_arg ''ice'' (if use_ice fl then ''true'' else ''false'')]"

lemma parse_client_args: "parse_flags client_flag_set (client_args fl) d = Parsed fl []"
  by (simp add: client_args_def parse_string_flag parse_bool_flag plain_name_def client_flag_set_def)

definition banner :: "string list" where
  "banner =
     ['''', ''=== P2P Client Interactive Shell ===''] @ help_text @
     [''====================================='', '''']"

section \<open>Inputs\<close>

datatype app_input = Typed string | Frame json | DelayElapsed | ConnectionLost | InputEnds

definition on_call ::
  "'os surroundings \<Rightarrow> bool \<Rightarrow> app_call option \<Rightarrow> app \<Rightarrow> 'os \<Rightarrow> app outcome \<times> 'os" where
  "on_call sr useICE call a os =
     (case call of
        None \<Rightarrow> (Done a, os)
      | Some (CallSignal from sg) \<Rightarrow> handleSignal sr from sg a os
      | Some (CallPeerEvent ev) \<Rightarrow> on_peer_event sr useICE ev a os)"

text \<open>The read pump's turns; after the loss of the connection it has returned.\<close>

definition frame_turn ::
  "'os surroundings \<Rightarrow> bool \<Rightarrow> json \<Rightarrow> app \<Rightarrow> 'os \<Rightarrow> app outcome \<times> 'os" where
  "frame_turn sr useICE j a os =
     (if ws_done (transport (ap_client a)) then (Done a, os)
      else case receive_frame j (ap_client a) of
        Done (c, call) \<Rightarrow> on_call sr useICE call (a\<lparr>ap_client := c\<rparr>) os
      | Blocked \<Rightarrow> (Blocked, os)
      | Panicked e \<Rightarrow> (Panicked e, os))"

definition pump_returns :: "client \<Rightarrow> client outcome" where
  "pump_returns c =
     (if ws_done (transport c) then Done c
      else obind (readPump_exit (transport c)) (\<lambda>t. Done (c\<lparr>transport := t\<rparr>)))"

definition app_turn ::
  "'os surroundings \<Rightarrow> bool \<Rightarrow> string list \<Rightarrow> app_input \<Rightarrow> app \<Rightarrow> 'os \<Rightarrow> shell_result \<times> 'os" where
  "app_turn sr useICE ord i a os =
     (case i of
        Typed line \<Rightarrow> shell_line sr ord line a os
      | Frame j \<Rightarrow> (let (r, os') = frame_turn sr useICE j a os in (obind r (shell_goes_on []), os'))
      | DelayElapsed \<Rightarrow>
          (if ap_delayed a = 0 then (shell_goes_on [] a, os)
           else (obind (delayed_connect sr a) (shell_goes_on []), os))
      | ConnectionLost \<Rightarrow>
          (obind (pump_returns (ap_client a)) (\<lambda>c. shell_goes_on [] (a\<lparr>ap_client := c\<rparr>)), os)
      | InputEnds \<Rightarrow> (Done (False, [], a), os))"

text \<open>The inputs that end the shell.\<close>

fun leaves :: "app_input \<Rightarrow> bool" where
  "leaves (Typed line) = quits line"
| "leaves InputEnds = True"
| "leaves _ = False"

fun app_loop ::
  "'os surroundings \<Rightarrow> bool \<Rightarrow> string list \<Rightarrow> app_input list \<Rightarrow> app \<Rightarrow> 'os \<Rightarrow>
   (string list \<times> app) outcome \<times> 'os" where
  "app_loop sr useICE ord [] a os = (Blocked, os)"
| "app_loop sr useICE ord (i # is) a os =
     (case app_turn sr useICE ord i a os of
        (Done (True, out, a'), os') \<Rightarrow>
          (let (r, os'') = app_loop sr useICE ord is a' os'
           in (omap (\<lambda>(out', a''). (out @ out', a'')) r, os''))
      | (Done (False, out, a'), os') \<Rightarrow> (Done (out, a'), os')
      | (Blocked, os') \<Rightarrow> (Blocked, os')
      | (Panicked e, os') \<Rightarrow> (Panicked e, os'))"

section \<open>The program\<close>

text \<open>Frames that arrive before the callbacks are set; the calls they make are listed.\<close>

primrec receive_all :: "json list \<Rightarrow> client \<Rightarrow> (app_call list \<times> client) outcome" where
  "receive_all [] c = Done ([], c)"
| "receive_all (j # js) c =
     obind (receive_frame j c) (\<lambda>(c', call).
       obind (receive_all js c') (\<lambda>(calls, c''). Done ((case call of None \<Rightarrow> [] | Some x \<Rightarrow> [x]) @ calls, c'')))"

text \<open>
  The deferred \<open>client.Close()\<close>. It waits for the read pump, which is in \<open>ReadMessage\<close>: on a
  closed connection that returns an error, on an open one nothing makes it return.
\<close>

definition pump_woken :: "client \<Rightarrow> client outcome" where
  "pump_woken c =
     (if ws_done (transport c) then Done c
      else case ws_connection (transport c) of
        None \<Rightarrow> pump_returns c
      | Some k \<Rightarrow>
          (if conn_open k then Blocked
           else case readPump_turn (ReadError ''use of closed network connection'') (transport c) of
             Stop (t, cb) \<Rightarrow> pump_returns (c\<lparr>transport := t\<rparr>)
           | Continue (t, cb) \<Rightarrow> Blocked))"

definition close_client :: "client \<Rightarrow> client outcome" where
  "close_client c =
     obind (pump_woken (c\<lparr>transport := ws_Close_request (transport c)\<rparr>)) (\<lambda>c'.
       obind (ws_Close_wait (transport c')) (\<lambda>t. Done (c'\<lparr>transport := t\<rparr>)))"

definition set_callbacks :: "client \<Rightarrow> client outcome" where
  "set_callbacks c = obind (OnSignal c) OnPeerEvent"

definition start_app ::
  "'os surroundings \<Rightarrow> client_flags \<Rightarrow> client \<Rightarrow> 'os \<Rightarrow> app outcome \<times> 'os" where
  "start_app sr fl c os =
     (if use_ice fl \<and> peer_flag fl \<noteq> '''' then startICE sr (peer_flag fl) (new_app c) os
      else (Done (new_app c), os))"

definition close_app :: "(string list \<times> app) outcome \<Rightarrow> (nat \<times> string list \<times> app option) outcome" where
  "close_app r = obind r (\<lambda>(out, a).
     obind (close_client (ap_client a)) (\<lambda>c. Done (0, banner @ out, Some (a\<lparr>ap_client := c\<rparr>))))"

definition run_app ::
  "'os surroundings \<Rightarrow> client_flags \<Rightarrow> string list \<Rightarrow> app_input list \<Rightarrow> client \<Rightarrow> 'os \<Rightarrow>
   (nat \<times> string list \<times> app option) outcome \<times> 'os" where
  "run_app sr fl ord is c os =
     (case start_app sr fl c os of
        (Done a, os') \<Rightarrow> (let (r, os'') = app_loop sr (use_ice fl) ord is a os' in (close_app r, os''))
      | (Blocked, os') \<Rightarrow> (Blocked, os')
      | (Panicked e, os') \<Rightarrow> (Panicked e, os'))"

definition client_main ::
  "(string \<Rightarrow> string result) \<Rightarrow> (string \<Rightarrow> ws_conn result) \<Rightarrow> 'os surroundings \<Rightarrow> client_flags \<Rightarrow>
   string list \<Rightarrow> json list \<Rightarrow> app_input list \<Rightarrow> 'os \<Rightarrow>
   (nat \<times> string list \<times> app option) outcome \<times> 'os" where
  "client_main parse dial sr fl ord early is os =
     (case client_Connect parse dial (server_addr fl) of
        Inl e \<Rightarrow> (Done (1, [], None), os)
      | Inr c \<Rightarrow>
          (case obind (receive_all early c) (\<lambda>(calls, c1). set_callbacks c1) of
             Done c2 \<Rightarrow> run_app sr fl ord is c2 os
           | Blocked \<Rightarrow> (Blocked, os)
           | Panicked e \<Rightarrow> (Panicked e, os)))"

text \<open>The program on its arguments.\<close>

definition client_program ::
  "(string \<Rightarrow> string result) \<Rightarrow> (string \<Rightarrow> ws_conn result) \<Rightarrow> 'os surroundings \<Rightarrow> string list \<Rightarrow>
   string list \<Rightarrow> json list \<Rightarrow> app_input list \<Rightarrow> 'os \<Rightarrow>
   (nat \<times> string list \<times> app option) outcome \<times> 'os" where
  "client_program parse dial sr args ord early is os =
     (case parse_flags client_flag_set args default_client_flags of
        FlagExit n \<Rightarrow> (Done (n, [], None), os)
      | Parsed fl rest \<Rightarrow> client_main parse dial sr fl ord early is os)"

section \<open>It waits for input only, and never panics\<close>

definition main_inv :: "app \<Rightarrow> bool" where
  "main_inv a \<longleftrightarrow> app_inv a \<and> ready (ap_client a)"

lemma main_inv_shell: "main_inv a \<Longrightarrow> shell_ready a"
  by (simp add: main_inv_def shell_ready_def ready_def)

lemma main_inv_same: "main_inv a \<Longrightarrow> app_inv a' \<Longrightarrow> same_client (ap_client a) (ap_client a') \<Longrightarrow> main_inv a'"
  by (simp add: main_inv_def same_client_ready)

lemma dispatch_Done:
  assumes "ready c"
  obtains c' call where "dispatch m c = Done (c', call)" "ready c'"
    "cl_handler c' = cl_handler c" "cl_peer_handler c' = cl_peer_handler c"
    "\<not> cl_handler c \<Longrightarrow> \<not> cl_peer_handler c \<Longrightarrow> call = None"
proof -
  obtain t cb where h: "handleMessage m (transport c) = (t, cb)" by fastforce
  have t: "ws_handler t = ws_handler (transport c)" "ws_peer_handler t = ws_peer_handler (transport c)"
    using h by (auto simp: handleMessage_def Let_def split: if_splits sum.splits)
  then have "ready (c\<lparr>transport := t\<rparr>)" using assms by (simp add: ready_def)
  then have "\<exists>c' call. dispatch m c = Done (c', call) \<and> ready c' \<and> cl_handler c' = cl_handler c \<and>
      cl_peer_handler c' = cl_peer_handler c \<and> (\<not> cl_handler c \<longrightarrow> \<not> cl_peer_handler c \<longrightarrow> call = None)"
    by (auto simp: dispatch_def h handleTransportMessage_ready deliver_event_ready event_call_def
        peer_call_def Let_def split: option.split callback.split)
  then show thesis using that by blast
qed

lemma receive_Done:
  assumes "ready c"
  obtains c' call where "receive_frame j c = Done (c', call)" "ready c'"
    "cl_handler c' = cl_handler c" "cl_peer_handler c' = cl_peer_handler c"
    "\<not> cl_handler c \<Longrightarrow> \<not> cl_peer_handler c \<Longrightarrow> call = None"
proof (cases "unmarshal_raw dec_ws_message (Some j)")
  case (Inl e)
  then show ?thesis using that[of c None] assms by (simp add: receive_frame_def)
next
  case (Inr m)
  show ?thesis
  proof (rule dispatch_Done[OF assms, of m])
    fix c' call
    assume "dispatch m c = Done (c', call)" "ready c'" "cl_handler c' = cl_handler c"
      "cl_peer_handler c' = cl_peer_handler c" "\<not> cl_handler c \<Longrightarrow> \<not> cl_peer_handler c \<Longrightarrow> call = None"
    then show thesis using that[of c' call] Inr by (simp add: receive_frame_def)
  qed
qed

lemma receive_all_Done:
  "ready c \<Longrightarrow> \<exists>calls c'. receive_all js c = Done (calls, c') \<and> ready c' \<and>
     cl_handler c' = cl_handler c \<and> cl_peer_handler c' = cl_peer_handler c \<and>
     (\<not> cl_handler c \<longrightarrow> \<not> cl_peer_handler c \<longrightarrow> calls = [])"
proof (induction js arbitrary: c)
  case (Cons j js)
  obtain c1 call where c1: "receive_frame j c = Done (c1, call)" "ready c1"
      "cl_handler c1 = cl_handler c" "cl_peer_handler c1 = cl_peer_handler c"
      "\<not> cl_handler c \<Longrightarrow> \<not> cl_peer_handler c \<Longrightarrow> call = None"
    by (rule receive_Done[OF Cons.prems, of j]) blast
  from Cons.IH[OF c1(2)] c1 show ?case by auto
qed simp

lemma pump_returns_Done:
  "\<exists>t. pump_returns c = Done (c\<lparr>transport := t\<rparr>) \<and> ws_done t \<and>
     ws_handler t = ws_handler (transport c) \<and> ws_peer_handler t = ws_peer_handler (transport c)"
proof (cases "ws_done (transport c)")
  case True
  then show ?thesis by (intro exI[of _ "transport c"]) (simp add: pump_returns_def)
next
  case False
  then show ?thesis
    by (intro exI[of _ "(transport c)\<lparr>ws_done := True\<rparr>"]) (simp add: pump_returns_def readPump_exit_def)
qed

definition closed_client :: "client \<Rightarrow> bool" where
  "closed_client c \<longleftrightarrow> ws_cancelled (transport c) \<and> ws_done (transport c) \<and>
     (\<forall>k. ws_connection (transport c) = Some k \<longrightarrow> \<not> conn_open k)"

lemma close_client_Done: "\<exists>c'. close_client c = Done c' \<and> closed_client c'"
  by (cases "ws_done (transport c)"; cases "ws_connection (transport c)")
     (auto simp: close_client_def pump_woken_def readPump_turn_def pump_returns_def readPump_exit_def
       ws_Close_request_def ws_Close_wait_def closed_client_def)

lemma frame_turn_Done:
  assumes a: "main_inv a"
  shows "\<exists>a' os'. frame_turn sr useICE j a os = (Done a', os') \<and> main_inv a'"
proof -
  have r: "ready (ap_client a)" using a by (simp add: main_inv_def)
  obtain c call where c: "receive_frame j (ap_client a) = Done (c, call)" "ready c"
    by (rule receive_Done[OF r, of j]) blast
  let ?a = "a\<lparr>ap_client := c\<rparr>"
  have i: "main_inv ?a" "app_inv ?a" using a c(2) by (simp_all add: main_inv_def)
  have "\<exists>a' os'. on_call sr useICE call ?a os = (Done a', os') \<and> main_inv a'"
  proof (cases call)
    case None
    then show ?thesis using i by (simp add: on_call_def)
  next
    case (Some x)
    show ?thesis
    proof (cases x)
      case (CallSignal i sg)
      obtain a' os' where "handleSignal sr i sg ?a os = (Done a', os')" "app_inv a'"
          "same_client (ap_client ?a) (ap_client a')"
        by (rule handleSignal_Done[OF i(2)])
      then show ?thesis using Some CallSignal main_inv_same[OF i(1)] by (simp add: on_call_def)
    next
      case (CallPeerEvent ev)
      obtain a' os' where "startICE sr (pe_peer_id ev) ?a os = (Done a', os')" "app_inv a'"
          "same_client (ap_client ?a) (ap_client a')"
        by (rule startICE_Done)
      then show ?thesis
        using Some CallPeerEvent main_inv_same[OF i(1)] i(1) by (simp add: on_call_def on_peer_event_def)
    qed
  qed
  then show ?thesis using a c by (simp add: frame_turn_def)
qed

lemma app_turn_Done:
  assumes a: "main_inv a"
  shows "\<exists>out a' os'. app_turn sr useICE ord i a os = (Done (\<not> leaves i, out, a'), os') \<and> main_inv a'"
proof (cases i)
  case (Typed line)
  obtain out a' os' where "shell_line sr ord line a os = (Done (\<not> quits line, out, a'), os')" "shell_ready a'"
      "same_client (ap_client a) (ap_client a')"
    by (rule shell_line_Done[OF main_inv_shell[OF a]])
  then show ?thesis
    using Typed main_inv_same[OF a] by (simp add: app_turn_def shell_ready_def)
next
  case (Frame j)
  then show ?thesis
    using frame_turn_Done[OF a, of sr useICE j os] by (auto simp: app_turn_def shell_goes_on_def)
next
  case DelayElapsed
  show ?thesis
  proof (cases "ap_delayed a = 0")
    case True
    then show ?thesis using DelayElapsed a by (auto simp: app_turn_def shell_goes_on_def)
  next
    case False
    have "app_inv a" using a by (simp add: main_inv_def)
    then obtain a' where "delayed_connect sr a = Done a'" "app_inv a'" "ap_client a' = ap_client a"
      using delayed_connect_Done[of a sr] False by blast
    then show ?thesis using DelayElapsed False a by (auto simp: app_turn_def shell_goes_on_def main_inv_def)
  qed
next
  case ConnectionLost
  then show ?thesis
    using pump_returns_Done[of "ap_client a"] a
    by (auto simp: app_turn_def shell_goes_on_def main_inv_def ready_def)
next
  case InputEnds
  then show ?thesis using a by (simp add: app_turn_def)
qed

lemma app_loop_result:
  "main_inv a \<Longrightarrow> \<exists>out a' os'. app_loop sr useICE ord is a os =
     (if list_ex leaves is then Done (out, a') else Blocked, os')"
proof (induction "is" arbitrary: a os)
  case (Cons i "is")
  obtain out a1 os1 where t: "app_turn sr useICE ord i a os = (Done (\<not> leaves i, out, a1), os1)" "main_inv a1"
    using app_turn_Done[OF Cons.prems, of sr useICE ord i os] by blast
  obtain out2 a2 os2 where "app_loop sr useICE ord is a1 os1 =
      (if list_ex leaves is then Done (out2, a2) else Blocked, os2)"
    using Cons.IH[OF t(2)] by blast
  then show ?case by (cases "leaves i"; cases "list_ex leaves is") (simp_all add: t(1))
qed simp

lemma set_callbacks_Done:
  "ready c \<Longrightarrow> set_callbacks c = Done (c\<lparr>cl_handler := True, cl_peer_handler := True\<rparr>)"
  by (simp add: set_callbacks_def OnSignal_def OnPeerEvent_def ready_def go_simps)

section \<open>Before the callbacks are set\<close>

text \<open>
  A frame does to the library what it would do with the callbacks set; only the call is not
  made.
\<close>

definition listening :: "client \<Rightarrow> client" where
  "listening c = c\<lparr>cl_handler := True, cl_peer_handler := True\<rparr>"

definition silent :: "client \<Rightarrow> bool" where
  "silent c \<longleftrightarrow> ready c \<and> \<not> cl_handler c \<and> \<not> cl_peer_handler c"

lemma listening_simps [simp]:
  "transport (listening c) = transport c" "cl_peers (listening c) = cl_peers c"
  "(listening c)\<lparr>transport := t\<rparr> = listening (c\<lparr>transport := t\<rparr>)"
  "(listening c)\<lparr>cl_peers := ps\<rparr> = listening (c\<lparr>cl_peers := ps\<rparr>)"
  "ready (listening c) = ready c" "cl_handler (listening c)" "cl_peer_handler (listening c)"
  by (simp_all add: listening_def ready_def)

lemma dispatch_silent:
  assumes "silent c"
  shows "\<exists>c' call. dispatch m c = Done (c', None) \<and> silent c' \<and>
    dispatch m (listening c) = Done (listening c', call)"
proof -
  obtain t cb where h: "handleMessage m (transport c) = (t, cb)" by fastforce
  have "ws_handler t = ws_handler (transport c)" "ws_peer_handler t = ws_peer_handler (transport c)"
    using h by (auto simp: handleMessage_def Let_def split: if_splits sum.splits)
  then have "ready (c\<lparr>transport := t\<rparr>)" using assms by (simp add: ready_def silent_def)
  then show ?thesis
    using assms by (auto simp: dispatch_def h handleTransportMessage_ready deliver_event_ready event_call_def
        peer_call_def silent_def Let_def split: option.split callback.split)
qed

lemma receive_silent:
  assumes "silent c"
  shows "\<exists>c' call. receive_frame j c = Done (c', None) \<and> silent c' \<and>
    receive_frame j (listening c) = Done (listening c', call)"
  using assms dispatch_silent[OF assms]
  by (cases "unmarshal_raw dec_ws_message (Some j)") (simp_all add: receive_frame_def)

lemma receive_all_silent:
  "silent c \<Longrightarrow> \<exists>c' calls. receive_all js c = Done ([], c') \<and> silent c' \<and>
     receive_all js (listening c) = Done (calls, listening c')"
proof (induction js arbitrary: c)
  case (Cons j js)
  obtain c1 call where c1: "receive_frame j c = Done (c1, None)" "silent c1"
      "receive_frame j (listening c) = Done (listening c1, call)"
    using receive_silent[OF Cons.prems] by blast
  from Cons.IH[OF c1(2)] c1 show ?case by auto
qed simp

lemma set_callbacks_silent: "silent c \<Longrightarrow> set_callbacks c = Done (listening c)"
  by (simp add: set_callbacks_Done silent_def listening_def)

lemma receive_all_learns:
  "ready c \<Longrightarrow> list_all (\<lambda>m. in_int 64 (m_timestamp m)) ms \<Longrightarrow>
   receive_all (map enc_message ms) c = Done (calls, c') \<Longrightarrow> dom (cl_peers c') = fold learn ms (dom (cl_peers c))"
proof (induction ms arbitrary: c calls)
  case (Cons m ms)
  obtain c1 call where "receive_frame (enc_message m) c = Done (c1, call)" "ready c1"
      "dom (cl_peers c1) = learn m (dom (cl_peers c))"
    using receive_effect[OF Cons.prems(1), of m] Cons.prems(2) by auto
  with Cons.IH[OF this(2)] Cons.prems show ?case by (cases "receive_all (map enc_message ms) c1") auto
qed simp

text \<open>The calls that signals make when the callbacks are set, and that they change nothing.\<close>

definition call_of :: "message \<Rightarrow> app_call" where
  "call_of m = CallSignal (m_from m) (signal_of ((ws_view m)\<lparr>t_data := Some (enc_raw (m_data m))\<rparr>))"

lemma receive_signal:
  assumes "ready c" "m_type m = Signal" "in_int 64 (m_timestamp m)"
  shows "receive_frame (enc_message m) c = Done (c, if cl_handler c then Some (call_of m) else None)"
  using assms
  by (simp add: receive_frame_def dec_ws_enc dispatch_signal server_type_names ws_view_def call_of_def)

lemma receive_all_signals:
  "ready c \<Longrightarrow> list_all (\<lambda>m. m_type m = Signal \<and> in_int 64 (m_timestamp m)) ms \<Longrightarrow>
   receive_all (map enc_message ms) c = Done (if cl_handler c then map call_of ms else [], c)"
  by (induction ms) (auto simp: receive_signal)

lemma call_of_sent:
  "signal_ok sg \<Longrightarrow> m_data m = Some (enc_signal sg) \<Longrightarrow> call_of m = CallSignal (m_from m) (sg\<lparr>sig_from := m_from m\<rparr>)"
  by (simp add: call_of_def signal_of_enc ws_view_def enc_raw_def)

section \<open>The result of the program\<close>

lemma run_app_result:
  assumes "ready c"
  shows "\<exists>out a os'. run_app sr fl ord is c os =
     (if list_ex leaves is then Done (0, out, Some a) else Blocked, os') \<and> closed_client (ap_client a)"
proof -
  have new: "main_inv (new_app c)" using assms by (simp add: main_inv_def new_app_def app_inv_def)
  obtain a1 os1 where "startICE sr (peer_flag fl) (new_app c) os = (Done a1, os1)" "app_inv a1"
      "same_client (ap_client (new_app c)) (ap_client a1)"
    by (rule startICE_Done)
  then obtain a os' where a: "start_app sr fl c os = (Done a, os')" "main_inv a"
    using new main_inv_same[OF new] by (cases "use_ice fl \<and> peer_flag fl \<noteq> ''''") (auto simp: start_app_def)
  obtain out a' os'' where l: "app_loop sr (use_ice fl) ord is a os' =
      (if list_ex leaves is then Done (out, a') else Blocked, os'')"
    using app_loop_result[OF a(2), of sr "use_ice fl" ord "is" os'] by blast
  obtain c' where "close_client (ap_client a') = Done c'" "closed_client c'" using close_client_Done by blast
  with a l show ?thesis
    by (cases "list_ex leaves is")
       (auto simp: run_app_def close_app_def obind_def intro!: exI[of _ "a'\<lparr>ap_client := c'\<rparr>"])
qed

lemma client_Connect_ready:
  assumes "client_Connect parse dial url = Inr c"
  shows "ready c \<and> \<not> cl_handler c \<and> \<not> cl_peer_handler c"
  using assms
  by (auto simp: client_Connect_def ws_Connect_def new_client_def NewWebSocketClient_def SetHandler_def
      SetPeerHandler_def ready_def Let_def split: sum.splits)

text \<open>
  \<open>main\<close> with its flags: it ends with 1 when it cannot connect; otherwise it runs until an
  input ends the shell and then ends with 0, its connection closed.
\<close>

definition main_result :: "string list \<Rightarrow> app \<Rightarrow> client result \<Rightarrow> app_input list \<Rightarrow>
    (nat \<times> string list \<times> app option) outcome" where
  "main_result out a r is =
     (case r of
        Inl e \<Rightarrow> Done (1, [], None)
      | Inr c \<Rightarrow> if list_ex leaves is then Done (0, out, Some a) else Blocked)"

lemma client_main_result:
  "\<exists>out a os'. client_main parse dial sr fl ord early is os =
     (main_result out a (client_Connect parse dial (server_addr fl)) is, os') \<and> closed_client (ap_client a)"
proof (cases "client_Connect parse dial (server_addr fl)")
  case (Inl e)
  obtain c where "closed_client c" using close_client_Done by blast
  with Inl show ?thesis
    by (auto simp: client_main_def main_result_def intro!: exI[of _ "new_app c"] simp: new_app_def)
next
  case (Inr c)
  obtain calls c1 where c1: "receive_all early c = Done (calls, c1)" "ready c1"
    using receive_all_Done client_Connect_ready[OF Inr] by blast
  have "ready (c1\<lparr>cl_handler := True, cl_peer_handler := True\<rparr>)" using c1(2) by (simp add: ready_def)
  then obtain out a os' where
      "run_app sr fl ord is (c1\<lparr>cl_handler := True, cl_peer_handler := True\<rparr>) os =
         (if list_ex leaves is then Done (0, out, Some a) else Blocked, os')" "closed_client (ap_client a)"
    using run_app_result[of _ sr fl ord "is" os] by blast
  then show ?thesis
    using Inr c1 by (auto simp: client_main_def main_result_def set_callbacks_Done)
qed

lemma client_program_args: "client_program parse dial sr (client_args fl) ord early is os = client_main parse dial sr fl ord early is os"
  by (simp add: client_program_def parse_client_args)

end
