(* ===== verification/MainProps.thy ===== *)
theory MainProps
  imports ServerMain ServerDeadlock ClientMain
begin

text \<open>
  The properties of the two programs: the server's process from its start to its exit, and the
  demo client from its arguments to its exit status.
\<close>

section \<open>The server's process\<close>

text \<open>C17: The process runs the server, so that every invariant of the server holds in it. It never
  panics; it exits with 1 only after its listener failed and with 0 only after a signal; the mux
  answers health checks and unknown paths as it must; and from the interrupt on new
  connections come only from the requests that were already accepted.\<close>

theorem main_lifecycle:
  assumes "main_reachable p"
  shows "server_reachable (pr_server p) \<and>
    (\<forall>c. pr_main p = Exited c \<longrightarrow> c = 1 \<and> pr_listener p = ListenFailed \<or>
       c = 0 \<and> pr_signalled p \<and> pr_listener p \<noteq> Binding \<and> pr_listener p \<noteq> Listening) \<and>
    (pr_main p = ShuttingDown \<longrightarrow> pr_signalled p) \<and>
    (\<forall>path r. (path, r) \<in> set (pr_answers p) \<longrightarrow>
       path = ''/health'' \<and> r = health_response \<or> path \<noteq> ''/ws'' \<and> path \<noteq> ''/health'' \<and> status r = 404) \<and>
    (\<forall>q. main_step\<^sup>*\<^sup>* p q \<longrightarrow> pr_main p \<noteq> Waiting \<longrightarrow>
       sv_n (pr_server q) \<le> sv_n (pr_server p) + length (pr_requests p) \<and> pr_main q \<noteq> Waiting)"
proof (intro conjI allI impI)
  note life = main_reachable_life[OF assms]
  show "server_reachable (pr_server p)" by (rule main_server[OF assms])
  show "c = 1 \<and> pr_listener p = ListenFailed \<or>
      c = 0 \<and> pr_signalled p \<and> pr_listener p \<noteq> Binding \<and> pr_listener p \<noteq> Listening"
    if "pr_main p = Exited c" for c
    using life that by (auto simp: life_ok_def)
  show "pr_signalled p" if "pr_main p = ShuttingDown"
    using life that by (simp add: life_ok_def)
  show "path = ''/health'' \<and> r = health_response \<or> path \<noteq> ''/ws'' \<and> path \<noteq> ''/health'' \<and> status r = 404"
    if "(path, r) \<in> set (pr_answers p)" for path r
  proof -
    have "answer_of path = Some r" using life that by (auto simp: life_ok_def)
    then show ?thesis
      by (auto simp: answer_of_def route_of_def not_found_def split: route.splits if_splits)
  qed
  fix q assume q: "main_step\<^sup>*\<^sup>* p q" "pr_main p \<noteq> Waiting"
  show "sv_n (pr_server q) \<le> sv_n (pr_server p) + length (pr_requests p)" "pr_main q \<noteq> Waiting"
    using load_runs[OF q assms] by (simp_all add: load_def)
qed

text \<open>C36: Interrupting the server does not close the connections gracefully: two steps after
  \<open>main\<close> learns of the signal the process can have exited with 0, its hub and all its connections exactly as they
  were, with every peer still in the table and its socket never closed by the server; after
  that nothing happens any more.\<close>

theorem shutdown_abandons:
  assumes "main_reachable p" "pr_main p = Waiting"
    and "k < sv_n (pr_server p)" "peers (sv_hub (pr_server p)) i = Some (s_peer (sv_sess (pr_server p) k))"
    and "s_open (sv_sess (pr_server p) k)"
  shows "\<exists>q. main_step\<^sup>*\<^sup>* p q \<and> pr_main q = Exited 0 \<and> pr_server q = pr_server p \<and>
    peers (sv_hub (pr_server q)) i \<noteq> None \<and> s_open (sv_sess (pr_server q) k) \<and> (\<forall>r. \<not> main_step q r)"
proof -
  obtain q where "main_step\<^sup>*\<^sup>* p q" "pr_main q = Exited 0" "pr_server q = pr_server p"
    using abrupt_end[OF assms(2)] by blast
  with assms(4,5) exited_step show ?thesis by (intro exI[of _ q]) auto
qed

lemma lone_process:
  "\<exists>p. main_reachable p \<and> pr_main p = Waiting \<and> sv_n (pr_server p) = 1 \<and>
     s_peer (sv_sess (pr_server p) 0) = lone \<and> s_open (sv_sess (pr_server p) 0) \<and>
     peers (sv_hub (pr_server p)) (peer_id lone) = Some lone"
proof -
  obtain s where s: "lonely 2 s" using lonely_start by blast
  then obtain s0 where "server_steps (start_server s0) s" by (auto simp: lonely_def server_reachable_def)
  from process_of_server[OF this] obtain p where "open_for p s" by blast
  with s show ?thesis by (intro exI[of _ p]) (simp add: open_for_def lonely_def)
qed

theorem main_lifecycle_witness:
  "\<exists>p. main_reachable p \<and> pr_main p = Waiting \<and> sv_n (pr_server p) = 1 \<and> server_reachable (pr_server p)"
  using lone_process main_lifecycle by blast

theorem shutdown_abandons_witness:
  "\<exists>p q. main_reachable p \<and> main_step\<^sup>*\<^sup>* p q \<and> pr_main q = Exited 0 \<and>
     peers (sv_hub (pr_server q)) (peer_id lone) \<noteq> None \<and> s_open (sv_sess (pr_server q) 0)"
proof -
  obtain p where p: "main_reachable p" "pr_main p = Waiting" "sv_n (pr_server p) = 1"
      "s_peer (sv_sess (pr_server p) 0) = lone" "s_open (sv_sess (pr_server p) 0)"
      "peers (sv_hub (pr_server p)) (peer_id lone) = Some lone"
    using lone_process by blast
  from shutdown_abandons[OF p(1,2), of 0 "peer_id lone"] p show ?thesis by auto
qed

section \<open>The demo client\<close>

text \<open>C16: Whatever its arguments, whatever frames arrive, lines are typed and delays elapse, in
  whatever order, and even when its connection is lost, the demo client never panics and waits
  for nothing but its input. Flags that it cannot use end it with 2, or with 0 when they ask
  for help; it ends with 1 when it cannot connect; and otherwise it ends with 0, its connection
  closed and both its pumps told to stop, if \<open>/quit\<close> or \<open>/exit\<close> is typed or the input ends,
  and goes on reading its input if not. Every choice of its settings can be given as flags.\<close>

theorem client_program_finishes:
  "(\<forall>n. parse_flags client_flag_set args default_client_flags = FlagExit n \<longrightarrow>
      client_program parse dial sr args ord early inputs os = (Done (n, [], None), os) \<and>
      (n = 2 \<or> n = 0 \<and> list_ex asks_help args)) \<and>
   (\<forall>fl rest e. parse_flags client_flag_set args default_client_flags = Parsed fl rest \<longrightarrow>
      client_Connect parse dial (server_addr fl) = Inl e \<longrightarrow>
      client_program parse dial sr args ord early inputs os = (Done (1, [], None), os)) \<and>
   (\<forall>fl rest c. parse_flags client_flag_set args default_client_flags = Parsed fl rest \<longrightarrow>
      client_Connect parse dial (server_addr fl) = Inr c \<longrightarrow>
      (if list_ex leaves inputs
       then \<exists>out a os'. client_program parse dial sr args ord early inputs os = (Done (0, out, Some a), os') \<and>
         ws_cancelled (transport (ap_client a)) \<and> ws_done (transport (ap_client a)) \<and>
         (\<forall>k. ws_connection (transport (ap_client a)) = Some k \<longrightarrow> \<not> conn_open k)
       else \<exists>os'. client_program parse dial sr args ord early inputs os = (Blocked, os'))) \<and>
   client_program parse dial sr (client_args fl0) ord early inputs os = client_main parse dial sr fl0 ord early inputs os"
proof (intro conjI allI impI client_program_args)
  note p = client_program_def client_main_def
  show "client_program parse dial sr args ord early inputs os = (Done (n, [], None), os)"
    if "parse_flags client_flag_set args default_client_flags = FlagExit n" for n
    using that by (simp add: p)
  show "n = 2 \<or> n = 0 \<and> list_ex asks_help args"
    if "parse_flags client_flag_set args default_client_flags = FlagExit n" for n
    using that by (rule parse_flags_exit)
  show "client_program parse dial sr args ord early inputs os = (Done (1, [], None), os)"
    if "parse_flags client_flag_set args default_client_flags = Parsed fl rest"
      "client_Connect parse dial (server_addr fl) = Inl e" for fl rest e
    using that by (simp add: p)
  fix fl rest c
  assume f: "parse_flags client_flag_set args default_client_flags = Parsed fl rest"
    "client_Connect parse dial (server_addr fl) = Inr c"
  obtain out a os' where "client_main parse dial sr fl ord early inputs os =
      (if list_ex leaves inputs then Done (0, out, Some a) else Blocked, os')" "closed_client (ap_client a)"
    using client_main_result[of parse dial sr fl ord early inputs os] f(2) by (auto simp: main_result_def)
  with f(1) show "if list_ex leaves inputs
       then \<exists>out a os'. client_program parse dial sr args ord early inputs os = (Done (0, out, Some a), os') \<and>
         ws_cancelled (transport (ap_client a)) \<and> ws_done (transport (ap_client a)) \<and>
         (\<forall>k. ws_connection (transport (ap_client a)) = Some k \<longrightarrow> \<not> conn_open k)
       else \<exists>os'. client_program parse dial sr args ord early inputs os = (Blocked, os')"
    by (auto simp: client_program_def closed_client_def)
qed

text \<open>Here a frame comes, a line is typed, the connection is lost and \<open>/quit\<close> is typed.\<close>

theorem client_program_finishes_witness:
  "\<forall>(sr :: nat surroundings) os. \<exists>out a os'.
     client_program Inr (\<lambda>_. Inr \<lparr>written = [], conn_open = True\<rparr>) sr [''-ice''] [] [JNull]
       [Frame JNull, Typed ''/ice b2'', ConnectionLost, Typed '' /quit '', Frame JNull] os =
     (Done (0, out, Some a), os') \<and> ws_done (transport (ap_client a))"
proof (intro allI)
  fix sr :: "nat surroundings" and os
  let ?dial = "\<lambda>_. Inr \<lparr>written = [], conn_open = True\<rparr>"
  let ?in = "[Frame JNull, Typed ''/ice b2'', ConnectionLost, Typed '' /quit '', Frame JNull]"
  have "parse_flags client_flag_set [''-ice''] default_client_flags =
      Parsed (default_client_flags\<lparr>use_ice := True\<rparr>) []"
    by code_simp
  moreover obtain c where "client_Connect Inr ?dial
      (server_addr (default_client_flags\<lparr>use_ice := True\<rparr>)) = Inr c"
    by (simp add: client_Connect_def ws_Connect_def Let_def)
  moreover have "list_ex leaves ?in" by code_simp
  ultimately show "\<exists>out a os'. client_program Inr ?dial sr [''-ice''] [] [JNull] ?in os =
      (Done (0, out, Some a), os') \<and> ws_done (transport (ap_client a))"
    using client_program_finishes[of "[''-ice'']" Inr ?dial sr "[]" "[JNull]" ?in os] by fastforce
qed

text \<open>C39: A frame that arrives before the callbacks are set does in the library exactly what it
  would do with them set, down to the known peers, but makes none of the calls; and setting the
  callbacks makes up for none of them. So a signal that comes within the half second that
  \<open>main\<close> sleeps after connecting is lost: the program goes on exactly as if it had never been
  sent, where with the callbacks set it would have been passed on as it was sent.\<close>

theorem early_signals_lost:
  assumes "client_Connect parse dial (server_addr fl) = Inr c"
  shows "(\<exists>c' calls. receive_all js c = Done ([], c') \<and>
      set_callbacks c' = Done (c'\<lparr>cl_handler := True, cl_peer_handler := True\<rparr>) \<and>
      receive_all js (c\<lparr>cl_handler := True, cl_peer_handler := True\<rparr>) =
        Done (calls, c'\<lparr>cl_handler := True, cl_peer_handler := True\<rparr>)) \<and>
    (list_all (\<lambda>m. in_int 64 (m_timestamp m)) ms \<longrightarrow>
      (\<exists>c'. receive_all (map enc_message ms) c = Done ([], c') \<and> dom (cl_peers c') = fold learn ms {})) \<and>
    (list_all (\<lambda>m. m_type m = Signal \<and> in_int 64 (m_timestamp m)) ms \<longrightarrow>
      client_main parse dial sr fl ord (map enc_message ms) inputs os =
      client_main parse dial sr fl ord [] inputs os) \<and>
    (list_all (\<lambda>(m, sg). m_type m = Signal \<and> in_int 64 (m_timestamp m) \<and>
        m_data m = Some (enc_signal sg) \<and> signal_ok sg) sent \<longrightarrow>
      receive_all (map (\<lambda>(m, sg). enc_message m) sent) (c\<lparr>cl_handler := True, cl_peer_handler := True\<rparr>) =
      Done (map (\<lambda>(m, sg). CallSignal (m_from m) (sg\<lparr>sig_from := m_from m\<rparr>)) sent,
        c\<lparr>cl_handler := True, cl_peer_handler := True\<rparr>))"
proof (intro conjI impI)
  have c: "silent c" using client_Connect_ready[OF assms] by (simp add: silent_def)
  have new: "cl_peers c = Map.empty"
    using assms by (auto simp: client_Connect_def new_client_def Let_def split: sum.splits prod.splits)
  show "\<exists>c' calls. receive_all js c = Done ([], c') \<and>
      set_callbacks c' = Done (c'\<lparr>cl_handler := True, cl_peer_handler := True\<rparr>) \<and>
      receive_all js (c\<lparr>cl_handler := True, cl_peer_handler := True\<rparr>) =
        Done (calls, c'\<lparr>cl_handler := True, cl_peer_handler := True\<rparr>)"
    using receive_all_silent[OF c, of js] set_callbacks_silent by (auto simp flip: listening_def)
  show "\<exists>c'. receive_all (map enc_message ms) c = Done ([], c') \<and> dom (cl_peers c') = fold learn ms {}"
    if "list_all (\<lambda>m. in_int 64 (m_timestamp m)) ms"
  proof -
    obtain c' where "receive_all (map enc_message ms) c = Done ([], c')"
      using receive_all_silent[OF c] by blast
    with receive_all_learns[OF _ that this] c new show ?thesis by (auto simp: silent_def)
  qed
  show "client_main parse dial sr fl ord (map enc_message ms) inputs os =
      client_main parse dial sr fl ord [] inputs os"
    if "list_all (\<lambda>m. m_type m = Signal \<and> in_int 64 (m_timestamp m)) ms"
    using receive_all_signals[OF _ that, of c] c assms by (simp add: client_main_def silent_def)
  show "receive_all (map (\<lambda>(m, sg). enc_message m) sent) (c\<lparr>cl_handler := True, cl_peer_handler := True\<rparr>) =
      Done (map (\<lambda>(m, sg). CallSignal (m_from m) (sg\<lparr>sig_from := m_from m\<rparr>)) sent,
        c\<lparr>cl_handler := True, cl_peer_handler := True\<rparr>)"
    if "list_all (\<lambda>(m, sg). m_type m = Signal \<and> in_int 64 (m_timestamp m) \<and>
        m_data m = Some (enc_signal sg) \<and> signal_ok sg) sent"
  proof -
    have "list_all (\<lambda>m. m_type m = Signal \<and> in_int 64 (m_timestamp m)) (map fst sent)"
      using that by (auto simp: list_all_iff)
    moreover have "map call_of (map fst sent) = map (\<lambda>(m, sg). CallSignal (m_from m) (sg\<lparr>sig_from := m_from m\<rparr>)) sent"
      using that by (auto simp: list_all_iff call_of_sent)
    moreover have "map (\<lambda>(m, sg). enc_message m) sent = map enc_message (map fst sent)" by auto
    ultimately show ?thesis
      using receive_all_signals[of "listening c" "map fst sent"] c
      by (simp only: silent_def listening_simps if_True flip: listening_def)
  qed
qed

definition early_signal :: signal where
  "early_signal = session_signal noon (NewOffer ''v=0'')"

definition early_message :: message where
  "early_message =
     \<lparr>m_type = Signal, m_from = ''a1'', m_to = ''b2'', m_data = Some (enc_signal early_signal), m_timestamp = 0\<rparr>"

theorem early_signals_lost_witness:
  "\<exists>c. client_Connect Inr (\<lambda>_. Inr \<lparr>written = [], conn_open = True\<rparr>) (server_addr default_client_flags) = Inr c \<and>
     (\<exists>c'. receive_all [enc_message early_message] c = Done ([], c')) \<and>
     receive_all [enc_message early_message] (c\<lparr>cl_handler := True, cl_peer_handler := True\<rparr>) =
       Done ([CallSignal ''a1'' (early_signal\<lparr>sig_from := ''a1''\<rparr>)], c\<lparr>cl_handler := True, cl_peer_handler := True\<rparr>)"
proof -
  obtain c where c: "client_Connect Inr (\<lambda>_. Inr \<lparr>written = [], conn_open = True\<rparr>)
      (server_addr default_client_flags) = Inr c"
    by (simp add: client_Connect_def ws_Connect_def Let_def)
  have "list_all (\<lambda>(m, sg). m_type m = Signal \<and> in_int 64 (m_timestamp m) \<and>
      m_data m = Some (enc_signal sg) \<and> signal_ok sg) [(early_message, early_signal)]"
    by (simp add: early_message_def early_signal_def session_signal_ok noon_ok in_int_def)
  note ok = this
  note lost = early_signals_lost[OF c, where js = "[enc_message early_message]"
    and sent = "[(early_message, early_signal)]"]
  have "receive_all (map (\<lambda>(m, sg). enc_message m) [(early_message, early_signal)])
      (c\<lparr>cl_handler := True, cl_peer_handler := True\<rparr>) =
    Done (map (\<lambda>(m, sg). CallSignal (m_from m) (sg\<lparr>sig_from := m_from m\<rparr>)) [(early_message, early_signal)],
      c\<lparr>cl_handler := True, cl_peer_handler := True\<rparr>)"
    using ok by (rule mp[OF conjunct2[OF conjunct2[OF conjunct2[OF lost]]]])
  moreover have "m_from early_message = ''a1''" by (simp add: early_message_def)
  moreover obtain c' where "receive_all [enc_message early_message] c = Done ([], c')"
    using conjunct1[OF lost] by blast
  ultimately show ?thesis using c by (intro exI[of _ c]) (simp del: receive_all.simps)
qed

end
