(* ===== verification/IceSession.thy ===== *)
theory IceSession
  imports ClientMain
begin

text \<open>
  Two demo applications on their way to a direct connection: the candidates one of them
  gathers and sends through the server, what the other makes of them, and the delayed
  connects of both.

  \<open>carried\<close> takes the frames one application has written, in their order, through the server
  to the application they are for: each is read and stamped, handled by the hub, taken from
  the recipient's channel and written, and is one turn of the recipient's read pump. That
  frames keep this order however the server's goroutines interleave is in \<^verbatim>\<open>World\<close>.
\<close>

section \<open>Frames carried to an application\<close>

text \<open>A frame of peer \<open>p\<close> that the server reads at time \<open>t\<close>, up to what \<open>q\<close>'s writer then writes.\<close>

definition server_turns :: "env \<Rightarrow> peer \<Rightarrow> peer \<Rightarrow> int \<Rightarrow> json \<Rightarrow> hub \<Rightarrow> (json option \<times> hub) outcome" where
  "server_turns e p q t j h =
     (case unmarshal_raw dec_message (Some j) of
        Inl err \<Rightarrow> Done (None, h)
      | Inr m \<Rightarrow> obind (hub_step e (Broadcast (stamp p t m)) h) (\<lambda>h1.
          case chan_recv (chans h1 (peer_send q)) of
            Done (x, c) \<Rightarrow> Done (map_option enc_message x, set_chan (peer_send q) c h1)
          | Blocked \<Rightarrow> Done (None, h1)
          | Panicked err \<Rightarrow> Panicked err))"

primrec carried ::
  "'os surroundings \<Rightarrow> bool \<Rightarrow> env \<Rightarrow> peer \<Rightarrow> peer \<Rightarrow> (int \<times> json) list \<Rightarrow> hub \<Rightarrow> app \<Rightarrow> 'os \<Rightarrow>
   (hub \<times> app) outcome \<times> 'os" where
  "carried sr useICE e p q [] h a os = (Done (h, a), os)"
| "carried sr useICE e p q (x # xs) h a os =
     (case server_turns e p q (fst x) (snd x) h of
        Done (None, h') \<Rightarrow> carried sr useICE e p q xs h' a os
      | Done (Some j, h') \<Rightarrow>
          (case frame_turn sr useICE j a os of
             (Done a', os') \<Rightarrow> carried sr useICE e p q xs h' a' os'
           | (Blocked, os') \<Rightarrow> (Blocked, os')
           | (Panicked err, os') \<Rightarrow> (Panicked err, os'))
      | Blocked \<Rightarrow> (Blocked, os)
      | Panicked err \<Rightarrow> (Panicked err, os))"

text \<open>A peer in the table whose writer has emptied its channel.\<close>

definition served :: "hub \<Rightarrow> peer \<Rightarrow> bool" where
  "served h q \<longleftrightarrow> peer_id q \<noteq> '''' \<and> peers h (peer_id q) = Some q \<and>
     chans h (peer_send q) = make_chan sendCapacity"

lemma server_turns_relay:
  assumes "served h q" "relay p t j = Some (peer_id q, j')"
  shows "server_turns e p q t j h = Done (Some j', h)"
proof -
  obtain m where m: "unmarshal_raw dec_message (Some j) = Inr m" "m_to m = peer_id q" "j' = enc_message (stamp p t m)"
    using assms(2) by (auto simp: relay_def split: sum.splits)
  let ?c = "chans h (peer_send q)"
  have c: "\<not> closed ?c" "buf ?c = []" "\<not> full ?c" "?c\<lparr>buf := []\<rparr> = ?c"
    using assms(1) by (simp_all add: served_def make_chan_def sendCapacity_def)
  have "m_to (stamp p t m) = peer_id q" using m(2) by (simp add: stamp_def)
  then have "hub_step e (Broadcast (stamp p t m)) h =
      Done (h\<lparr>chans := (chans h)(peer_send q := ?c\<lparr>buf := [stamp p t m]\<rparr>)\<rparr>)"
    using assms(1) c by (simp add: hub_step_def handleBroadcast_def hub_offer_def chan_offer_def served_def)
  moreover have same: "h\<lparr>chans := (chans h)(peer_send q := ?c\<lparr>buf := []\<rparr>)\<rparr> = h" unfolding c(4) by simp
  ultimately show ?thesis using m(1,3) c(1-3) by (simp add: server_turns_def chan_recv_def set_chan_def same)
qed

text \<open>An application whose callbacks are set and whose read pump runs.\<close>

definition app_listens :: "app \<Rightarrow> bool" where
  "app_listens a \<longleftrightarrow> ready (ap_client a) \<and> cl_handler (ap_client a) \<and> \<not> ws_done (transport (ap_client a))"

lemma app_listens_same:
  assumes "app_listens a" "same_client (ap_client a) (ap_client b)"
  shows "app_listens b"
  using assms same_client_ready[OF assms(2)] by (auto simp: app_listens_def same_client_def)

lemma frame_turn_signal:
  assumes "app_listens a" "signal_ok sg" "in_int 64 t" "in_int 64 t'"
  obtains j where "relay p t' (envelope t i sg) = Some (i, j)"
    "frame_turn sr useICE j a os = handleSignal sr (peer_id p) (sg\<lparr>sig_from := peer_id p\<rparr>) a os"
proof -
  have r: "ready (ap_client a)" "cl_handler (ap_client a)" using assms(1) by (simp_all add: app_listens_def)
  obtain j where j: "relay p t' (envelope t i sg) = Some (i, j)"
      "receive_frame j (ap_client a) =
        Done (ap_client a, Some (CallSignal (peer_id p) (sg\<lparr>sig_from := peer_id p\<rparr>)))"
    using signal_travels[OF r assms(2-4)] by blast
  have "a\<lparr>ap_client := ap_client a\<rparr> = a" by (cases a) simp
  with j(2) assms(1) have "frame_turn sr useICE j a os =
      handleSignal sr (peer_id p) (sg\<lparr>sig_from := peer_id p\<rparr>) a os"
    by (simp add: frame_turn_def app_listens_def on_call_def)
  with j(1) that show thesis by blast
qed

section \<open>Candidates on the wire\<close>

text \<open>The frames of a list of candidates, the \<open>k\<close>-th with the clock's \<open>k\<close>-th readings.\<close>

primrec candidate_frames :: "'os surroundings \<Rightarrow> string \<Rightarrow> nat \<Rightarrow> candidate list \<Rightarrow> json list" where
  "candidate_frames sr i k [] = []"
| "candidate_frames sr i k (x # xs) =
     envelope (sr_unix sr k) i (ice_signal (sr_time sr k) x) # candidate_frames sr i (Suc k) xs"

definition clocks_ok :: "'os surroundings \<Rightarrow> bool" where
  "clocks_ok sr \<longleftrightarrow> (\<forall>k. time_ok (sr_time sr k) \<and> in_int 64 (sr_unix sr k))"

definition writes_succeed :: "'os surroundings \<Rightarrow> bool" where
  "writes_succeed sr \<longleftrightarrow> (\<forall>k f. sr_write sr k f = None) \<and> sr_udp sr = None"

lemma length_candidate_frames [simp]: "length (candidate_frames sr i k cs) = length cs"
  by (induction cs arbitrary: k) simp_all

lemma send_candidates_frames:
  assumes "connected c" "writes_succeed sr"
  shows "frames (send_candidates sr i k cs c) = frames c @ map TextFrame (candidate_frames sr i k cs) \<and>
    connected (send_candidates sr i k cs c)"
  using assms(1)
proof (induction cs arbitrary: k c)
  case (Cons x xs)
  have w: "\<And>f. sr_write sr k f = None" using assms(2) by (simp add: writes_succeed_def)
  obtain c' where "send_signal (sr_write sr k) (sr_unix sr k) i (ice_signal (sr_time sr k) x) c = (Inr (), c')"
      "frames c' = frames c @ [TextFrame (envelope (sr_unix sr k) i (ice_signal (sr_time sr k) x))]"
      "connected c'"
    using send_signal_connected[of c "sr_write sr k", OF Cons.prems w] by blast
  with Cons.IH[of c' "Suc k"] show ?case by (simp add: SendICECandidateJSON_eq)
qed simp

text \<open>To an application that has an agent, the candidates are added in their order.\<close>

definition with_remotes :: "candidate list \<Rightarrow> agent \<Rightarrow> app \<Rightarrow> app" where
  "with_remotes cs ag a = a\<lparr>ap_agent := Some (ag\<lparr>ag_remote := ag_remote ag @ cs\<rparr>),
     ap_delayed := ap_delayed a + length cs\<rparr>"

lemma with_remotes_simps [simp]:
  "ap_client (with_remotes cs ag a) = ap_client a" "ap_conn (with_remotes cs ag a) = ap_conn a"
  "ap_agent (with_remotes cs ag a) = Some (ag\<lparr>ag_remote := ag_remote ag @ cs\<rparr>)"
  "ap_delayed (with_remotes cs ag a) = ap_delayed a + length cs"
  "app_listens (with_remotes cs ag a) = app_listens a"
  by (simp_all add: with_remotes_def app_listens_def)

lemma with_remotes_more:
  "with_remotes ds (ag\<lparr>ag_remote := ag_remote ag @ cs\<rparr>) (with_remotes cs ag a) = with_remotes (cs @ ds) ag a"
  by (cases a; cases ag) (simp add: with_remotes_def)

lemma app_inv_with_remotes: "idle ag \<Longrightarrow> app_inv (with_remotes cs ag a)"
  by (simp add: app_inv_def idle_def)

lemma handleRemote_agent:
  assumes "idle ag" "ap_agent a = Some ag"
  shows "handleRemoteICECandidate sr from cand a os = (Done (with_remotes [cand] ag a), os)"
  using assms by (simp add: handleRemoteICECandidate_def AddRemote_Done with_remotes_def)

lemma carried_candidates:
  assumes "clocks_ok sr" "app_listens a" "idle ag" "ap_agent a = Some ag"
    and "\<forall>x \<in> set cs. candidate_ok x" "length ts = length cs" "\<forall>t \<in> set ts. in_int 64 t" "served h q"
  shows "carried sb useICE e p q (zip ts (candidate_frames sr (peer_id q) k cs)) h a os =
    (Done (h, with_remotes cs ag a), os)"
  using assms(2-7)
proof (induction cs arbitrary: ts k a ag)
  case Nil
  then show ?case by (cases a; cases ag) (simp add: with_remotes_def)
next
  case (Cons x xs)
  then obtain t us where ts: "ts = t # us" "length us = length xs" "in_int 64 t" "\<forall>t \<in> set us. in_int 64 t"
    by (cases ts) auto
  have s: "signal_ok (ice_signal (sr_time sr k) x)" "in_int 64 (sr_unix sr k)"
    using assms(1) by (simp_all add: clocks_ok_def ice_signal_ok)
  obtain j where j: "relay p t (envelope (sr_unix sr k) (peer_id q) (ice_signal (sr_time sr k) x)) = Some (peer_id q, j)"
      "frame_turn sb useICE j a os =
        handleSignal sb (peer_id p) ((ice_signal (sr_time sr k) x)\<lparr>sig_from := peer_id p\<rparr>) a os"
    by (rule frame_turn_signal[OF Cons.prems(1) s(1,2) ts(3)])
  let ?a = "with_remotes [x] ag a"
  have "frame_turn sb useICE j a os = (Done ?a, os)"
    using Cons.prems(4) j(2) by (simp add: handleSignal_ice handleRemote_agent[OF Cons.prems(2,3)])
  moreover have "carried sb useICE e p q (zip us (candidate_frames sr (peer_id q) (Suc k) xs)) h ?a os =
      (Done (h, with_remotes xs (ag\<lparr>ag_remote := ag_remote ag @ [x]\<rparr>) ?a), os)"
    using Cons.prems ts by (intro Cons.IH) (simp_all add: idle_def)
  ultimately show ?case
    using server_turns_relay[OF assms(8) j(1)] ts(1) by (simp add: with_remotes_more)
qed

section \<open>Starting ICE\<close>

definition gathered_agent :: "gatherer \<Rightarrow> agent" where
  "gathered_agent g = \<lparr>ag_mu = free_mutex, ag_gatherer = g, ag_local = g_candidates g,
     ag_remote = [], ag_connection = None\<rparr>"

text \<open>What an application gathers in a state of its operating system.\<close>

definition gathers :: "'os surroundings \<Rightarrow> 'os \<Rightarrow> gatherer \<Rightarrow> 'os \<Rightarrow> bool" where
  "gathers sr os g os' \<longleftrightarrow>
     Gather (sr_listen sr) (sr_ifaces sr) (NewGatherer DefaultGathererConfig) os =
       (Inr (g_candidates g), g, os') \<and> g_candidates g \<noteq> []"

definition started :: "'os surroundings \<Rightarrow> string \<Rightarrow> gatherer \<Rightarrow> app \<Rightarrow> app" where
  "started sr i g a = a\<lparr>ap_agent := Some (gathered_agent g),
     ap_client := send_candidates sr i 0 (map snd (g_candidates g)) (ap_client a)\<rparr>"

lemma gathered_simps [simp]:
  "idle (gathered_agent g)" "ag_gatherer (gathered_agent g) = g"
  "ag_local (gathered_agent g) = g_candidates g" "ag_remote (gathered_agent g) = []"
  "idle (ag\<lparr>ag_remote := cs\<rparr>) = idle ag"
  by (simp_all add: idle_def gathered_agent_def)

lemma startICE_gathers: "gathers sr os g os' \<Longrightarrow> startICE sr i a os = (Done (started sr i g a), os')"
  by (simp add: startICE_def agent_Gather_def gathers_def started_def gathered_agent_def NewAgent_def
      locked_idle idle_def)

lemma started_simps [simp]:
  "ap_agent (started sr i g a) = Some (gathered_agent g)" "ap_conn (started sr i g a) = ap_conn a"
  "ap_delayed (started sr i g a) = ap_delayed a"
  by (simp_all add: started_def)

lemma started_client: "same_client (ap_client a) (ap_client (started sr i g a))"
  by (simp add: started_def same_client_candidates)

lemma started_frames:
  assumes "connected (ap_client a)" "writes_succeed sr"
  shows "frames (ap_client (started sr i g a)) =
    frames (ap_client a) @ map TextFrame (candidate_frames sr i 0 (map snd (g_candidates g)))"
  using send_candidates_frames[OF assms] by (simp add: started_def)

text \<open>The first candidate makes an application without an agent start ICE itself.\<close>

lemma handleRemote_starts:
  assumes "ap_agent a = None" "gathers sr os g os'"
  shows "handleRemoteICECandidate sr i cand a os =
    (Done (with_remotes [cand] (gathered_agent g) (started sr i g a)), os')"
  using assms(1)
  by (simp add: handleRemoteICECandidate_def startICE_gathers[OF assms(2)] AddRemote_Done with_remotes_def)

lemma carried_starts:
  assumes "clocks_ok sr" "app_listens a" "ap_agent a = None" "gathers sb os g os'"
    and "cs \<noteq> []" "\<forall>x \<in> set cs. candidate_ok x" "length ts = length cs" "\<forall>t \<in> set ts. in_int 64 t" "served h q"
  shows "carried sb useICE e p q (zip ts (candidate_frames sr (peer_id q) 0 cs)) h a os =
    (Done (h, with_remotes cs (gathered_agent g) (started sb (peer_id p) g a)), os')"
proof -
  obtain x xs where cs: "cs = x # xs" using assms(5) by (cases cs) auto
  then obtain t us where ts: "ts = t # us" "length us = length xs" "in_int 64 t" "\<forall>t \<in> set us. in_int 64 t"
    using assms(7,8) by (cases ts) auto
  have s: "signal_ok (ice_signal (sr_time sr 0) x)" "in_int 64 (sr_unix sr 0)"
    using assms(1) by (simp_all add: clocks_ok_def ice_signal_ok)
  obtain j where j: "relay p t (envelope (sr_unix sr 0) (peer_id q) (ice_signal (sr_time sr 0) x)) = Some (peer_id q, j)"
      "frame_turn sb useICE j a os =
        handleSignal sb (peer_id p) ((ice_signal (sr_time sr 0) x)\<lparr>sig_from := peer_id p\<rparr>) a os"
    by (rule frame_turn_signal[OF assms(2) s ts(3)])
  let ?ag = "gathered_agent g"
  let ?a = "with_remotes [x] ?ag (started sb (peer_id p) g a)"
  have "frame_turn sb useICE j a os = (Done ?a, os')"
    using assms(6) cs j(2) by (simp add: handleSignal_ice handleRemote_starts[OF assms(3,4)])
  moreover have "app_listens ?a"
    using app_listens_same[OF assms(2) started_client] by simp
  then have "carried sb useICE e p q (zip us (candidate_frames sr (peer_id q) (Suc 0) xs)) h ?a os' =
      (Done (h, with_remotes xs (?ag\<lparr>ag_remote := ag_remote ?ag @ [x]\<rparr>) ?a), os')"
    using assms(1,6,9) cs ts
    by (intro carried_candidates) (simp_all add: idle_def gathered_agent_def)
  ultimately show ?thesis
    using server_turns_relay[OF assms(9) j(1)] cs ts(1) by (simp add: with_remotes_more)
qed

section \<open>Both connect\<close>

text \<open>How \<open>net.UDPAddr\<close> prints the address of an IPv4 socket.\<close>

definition sock_addr :: "udp_conn \<Rightarrow> string" where
  "sock_addr u = ip4_String (u_ip u) @ '':'' @ itoa (u_port u)"

text \<open>
  What \<open>net.ResolveUDPAddr\<close> documents of literal addresses: they need no lookup, and the
  result prints as the literal.
\<close>

definition resolve_law :: "(string \<Rightarrow> string result) \<Rightarrow> bool" where
  "resolve_law resolve \<longleftrightarrow>
     (\<forall>b p. length b = 4 \<longrightarrow> 0 < p \<longrightarrow> p < 65536 \<longrightarrow>
        resolve (ip4_String b @ '':'' @ itoa p) = Inr (ip4_String b @ '':'' @ itoa p))"

definition first_socket :: "gatherer \<Rightarrow> udp_conn" where
  "first_socket g = hd (g_listeners g)"

lemma gathers_first:
  assumes "gathers sr os g os'" "udp_law (sr_listen sr)"
  obtains us cs where "g_listeners g = first_socket g # us"
    "g_candidates g = (0, host_candidate 1 (first_socket g)) # cs"
    "bound_in 10000 10100 (first_socket g)"
    "\<forall>c \<in> set (g_candidates g). candidate_ok (snd c)"
proof -
  have g: "Gather (sr_listen sr) (sr_ifaces sr) (NewGatherer DefaultGathererConfig) os =
      (Inr (g_candidates g), g, os')" "g_candidates g \<noteq> []"
    using assms(1) by (simp_all add: gathers_def)
  note al = Gather_new(1)[OF g(1)]
  have bound: "\<forall>c \<in> set (g_listeners g). bound_in 10000 10100 c"
    using Gather_bound[OF assms(2) _ _ g(1)] by (simp add: DefaultGathererConfig_def)
  have "g_listeners g \<noteq> []" using aligned_length[OF al] g(2) by auto
  then have ne: "g_listeners g = first_socket g # tl (g_listeners g)" by (simp add: first_socket_def)
  have "g_candidates g ! 0 = (0, host_candidate 1 (first_socket g))"
    using aligned_nth[OF al, of 0] ne by (metis One_nat_def length_greater_0_conv list.distinct(1) nth_Cons_0)
  then have hd: "g_candidates g = (0, host_candidate 1 (first_socket g)) # tl (g_candidates g)"
    using g(2) by (metis hd_conv_nth list.collapse)
  have ok: "candidate_ok (snd (g_candidates g ! i))" if "i < length (g_candidates g)" for i
  proof -
    have i: "i < length (g_listeners g)" using that aligned_length[OF al] by simp
    then have "bound_in 10000 10100 (g_listeners g ! i)" using bound by simp
    then have "in_int 64 (u_port (g_listeners g ! i))" by (simp add: bound_in_def in_int_def)
    then show ?thesis using aligned_nth[OF al i] host_candidate_printable by simp
  qed
  have "bound_in 10000 10100 (first_socket g)" using bound ne by (metis list.set_intros(1))
  moreover have "\<forall>c \<in> set (g_candidates g). candidate_ok (snd c)"
    using ok by (metis in_set_conv_nth)
  ultimately show thesis using that ne hd by blast
qed

definition hello :: string where
  "hello = ''Hello from direct UDP!''"

text \<open>The connection an application ends up with, and the message it sends at once.\<close>

definition greeting_connection :: "gatherer \<Rightarrow> gatherer \<Rightarrow> connection" where
  "greeting_connection g g' =
     (new_connection (host_candidate 1 (first_socket g)) (host_candidate 1 (first_socket g'))
        (first_socket g) (sock_addr (first_socket g')))\<lparr>cn_sent := [(sock_addr (first_socket g'), hello)]\<rparr>"

lemma greeting_connection_simps:
  "cn_conn (greeting_connection g g') = Some (first_socket g)"
  "cn_remote_addr (greeting_connection g g') = sock_addr (first_socket g')"
  "cn_sent (greeting_connection g g') = [(sock_addr (first_socket g'), hello)]"
  "\<not> cn_closed (greeting_connection g g')" "\<not> cn_cancelled (greeting_connection g g')"
  by (simp_all add: greeting_connection_def new_connection_def)

lemma delayed_connect_crossing:
  assumes "gathers sr os g os'" "udp_law (sr_listen sr)"
    and "gathers sr' os1 g' os1'" "udp_law (sr_listen sr')"
    and "resolve_law (sr_resolve sr)" "writes_succeed sr"
    and "ap_agent a = Some (gathered_agent g\<lparr>ag_remote := map snd (g_candidates g')\<rparr>)" "ap_conn a = None"
  shows "\<exists>a'. delayed_connect sr a = Done a' \<and> ap_conn a' = Some (greeting_connection g g') \<and>
    ap_client a' = ap_client a \<and> ap_delayed a' = ap_delayed a - 1"
proof -
  obtain us cs where g: "g_listeners g = first_socket g # us"
      "g_candidates g = (0, host_candidate 1 (first_socket g)) # cs"
    by (rule gathers_first[OF assms(1,2)])
  obtain us' cs' where g': "g_candidates g' = (0, host_candidate 1 (first_socket g')) # cs'"
      "bound_in 10000 10100 (first_socket g')"
    by (rule gathers_first[OF assms(3,4)])
  let ?ag = "gathered_agent g\<lparr>ag_remote := map snd (g_candidates g')\<rparr>"
  let ?r = "host_candidate 1 (first_socket g')"
  have "host_port ?r = sock_addr (first_socket g')"
    by (simp add: host_port_def host_candidate_def sock_addr_def)
  then have "sr_resolve sr (host_port ?r) = Inr (sock_addr (first_socket g'))"
    using assms(5) g'(2) by (simp add: resolve_law_def bound_in_def sock_addr_def)
  then have "agent_Connect (sr_resolve sr) ?ag =
      Done (Inr (new_connection (host_candidate 1 (first_socket g)) ?r (first_socket g) (sock_addr (first_socket g'))),
        ?ag\<lparr>ag_connection := Some (new_connection (host_candidate 1 (first_socket g)) ?r (first_socket g)
          (sock_addr (first_socket g')))\<rparr>)"
    using agent_Connect_first[of ?ag "(0, host_candidate 1 (first_socket g))" cs ?r "map snd cs'" "first_socket g" us]
      g g'(1)
    by (simp add: idle_def gathered_agent_def)
  moreover have "sr_udp sr = None" using assms(6) by (simp add: writes_succeed_def)
  ultimately show ?thesis
    using assms(7,8)
    by (simp add: delayed_connect_def Let_def SendString_def cn_Send_defs new_connection_def
        greeting_connection_def hello_def)
qed

section \<open>The direct channel\<close>

text \<open>Two open connections each of which sends to the other's socket.\<close>

definition crossing :: "connection \<Rightarrow> connection \<Rightarrow> bool" where
  "crossing c d \<longleftrightarrow> (\<exists>u v. cn_conn c = Some u \<and> cn_conn d = Some v \<and>
     cn_remote_addr c = sock_addr v \<and> cn_remote_addr d = sock_addr u \<and>
     \<not> cn_closed c \<and> \<not> cn_closed d \<and> \<not> cn_cancelled c \<and> \<not> cn_cancelled d)"

lemma crossing_greeting: "crossing (greeting_connection g g') (greeting_connection g' g)"
  by (simp add: crossing_def greeting_connection_simps)

text \<open>A sequence of sends that the socket accepts.\<close>

definition send_all :: "string list \<Rightarrow> connection \<Rightarrow> connection" where
  "send_all msgs c = fold (\<lambda>s c. snd (SendString None s c)) msgs c"

lemma send_all_sent:
  assumes "\<not> cn_closed c" "cn_conn c \<noteq> None"
  shows "cn_sent (send_all msgs c) = cn_sent c @ map (Pair (cn_remote_addr c)) msgs"
  using assms
proof (induction msgs arbitrary: c)
  case (Cons s msgs)
  obtain u where u: "cn_conn c = Some u" using Cons.prems(2) by blast
  let ?c = "c\<lparr>cn_sent := cn_sent c @ [(cn_remote_addr c, s)]\<rparr>"
  have "snd (SendString None s c) = ?c" using Cons.prems(1) u by (simp add: SendString_def cn_Send_defs)
  then have "send_all (s # msgs) c = send_all msgs ?c" by (simp add: send_all_def)
  with Cons.IH[of ?c] Cons.prems show ?case by simp
qed (simp add: send_all_def)

text \<open>
  The reads of \<open>d\<close>'s socket when the network loses and reorders nothing that \<open>c\<close> sends to it:
  those from \<open>c\<close>'s socket carry the data in order, between timeouts and other senders.
\<close>

definition datagrams_from :: "string \<Rightarrow> udp_read list \<Rightarrow> string list" where
  "datagrams_from addr rs =
     concat (map (\<lambda>r. case r of Datagram i d \<Rightarrow> if i = addr then [d] else [] | _ \<Rightarrow> []) rs)"

definition no_failure :: "udp_read list \<Rightarrow> bool" where
  "no_failure rs \<longleftrightarrow> (\<forall>r \<in> set rs. \<forall>e. r \<noteq> ReadFailed e)"

lemma from_remote_datagrams:
  "no_failure rs \<Longrightarrow> from_remote addr rs = map (\<lambda>d. (take receive_buffer d, addr)) (datagrams_from addr rs)"
  by (induction addr rs rule: from_remote.induct) (auto simp: no_failure_def datagrams_from_def)

text \<open>
  The datagrams that were written to an address, and a network that delivers to \<open>d\<close>'s socket,
  under the address of \<open>c\<close>'s socket, exactly what \<open>c\<close> has written to it, in the same order.
\<close>

definition datagrams_to :: "string \<Rightarrow> (string \<times> string) list \<Rightarrow> string list" where
  "datagrams_to addr ds = map snd (filter (\<lambda>(i, s). i = addr) ds)"

definition local_addr :: "connection \<Rightarrow> string" where
  "local_addr c = sock_addr (the (cn_conn c))"

definition lossless :: "connection \<Rightarrow> connection \<Rightarrow> udp_read list \<Rightarrow> bool" where
  "lossless c d rs \<longleftrightarrow> no_failure rs \<and>
     datagrams_from (local_addr c) rs = datagrams_to (local_addr d) (cn_sent c)"

lemma crossing_simps:
  assumes "crossing c d"
  shows "\<not> cn_closed c" "\<not> cn_cancelled d" "cn_conn c \<noteq> None" "cn_conn d \<noteq> None"
    "cn_remote_addr c = local_addr d" "cn_remote_addr d = local_addr c"
  using assms by (auto simp: crossing_def local_addr_def)

lemma send_all_same [simp]: "cn_conn (send_all msgs c) = cn_conn c"
  by (induction msgs arbitrary: c)
     (simp_all add: send_all_def SendString_def cn_Send_defs split: sum.split option.split)

lemma crossing_delivers:
  assumes "crossing c d" "cn_sent c = map (Pair (local_addr d)) sent"
    and "lossless (send_all msgs c) d rs" "\<forall>s \<in> set (sent @ msgs). length s \<le> 65535"
  shows "logged (receiveLoop (full_turns rs) LoopTop d) = map (\<lambda>s. (s, local_addr c)) (sent @ msgs) \<and>
    handled (receiveLoop (full_turns rs) LoopTop d) =
      (if cn_handler d then map (\<lambda>s. (s, local_addr c)) (sent @ msgs) else [])"
proof -
  note x = crossing_simps[OF assms(1)]
  have "cn_sent (send_all msgs c) = map (Pair (local_addr d)) (sent @ msgs)"
    using send_all_sent[OF x(1,3)] assms(2) x(5) by simp
  then have "datagrams_to (local_addr d) (cn_sent (send_all msgs c)) = sent @ msgs"
    by (simp add: datagrams_to_def filter_map comp_def)
  then have "datagrams_from (local_addr c) rs = sent @ msgs" "no_failure rs"
    using assms(3) by (simp_all add: lossless_def local_addr_def)
  then have "from_remote (cn_remote_addr d) rs = map (\<lambda>s. (take receive_buffer s, local_addr c)) (sent @ msgs)"
    using x(6) by (simp add: from_remote_datagrams)
  also have "\<dots> = map (\<lambda>s. (s, local_addr c)) (sent @ msgs)"
    using assms(4) by (intro map_cong) (auto simp: receive_buffer_def)
  finally show ?thesis using receiveLoop_open[OF x(2,4), of rs] by simp
qed

text \<open>There is such a network: each datagram arrives once, in order.\<close>

lemma lossless_exact:
  assumes "crossing c d" "cn_sent c = map (Pair (local_addr d)) sent"
  shows "lossless (send_all msgs c) d (map (Datagram (local_addr c)) (sent @ msgs))"
proof -
  note x = crossing_simps[OF assms(1)]
  have "cn_sent (send_all msgs c) = map (Pair (local_addr d)) (sent @ msgs)"
    using send_all_sent[OF x(1,3)] assms(2) x(5) by simp
  moreover have "datagrams_from i (map (Datagram i) ss) = ss" "datagrams_to i (map (Pair i) ss) = ss" for i ss
    by (induction ss) (simp_all add: datagrams_from_def datagrams_to_def)
  moreover have "local_addr (send_all msgs c) = local_addr c" by (simp add: local_addr_def)
  ultimately show ?thesis by (simp add: lossless_def no_failure_def del: map_append)
qed

lemma crossing_handler: "crossing c (SetReceiveHandler d) = crossing c d"
  by (simp add: crossing_def SetReceiveHandler_def)

text \<open>All of it for the connections the applications end up with.\<close>

lemma greeting_hello: "cn_sent (greeting_connection g g') = [(local_addr (greeting_connection g' g), hello)]"
  by (simp add: greeting_connection_simps local_addr_def)

lemma greeting_socket:
  "g_listeners g = first_socket g # us \<Longrightarrow> cn_conn (greeting_connection g g') \<in> Some ` set (GetListeners g)"
  unfolding greeting_connection_simps(1) GetListeners_def by (metis image_eqI list.set_intros(1))

text \<open>
  What reaches the other end when the network is lossless: as the application leaves the
  connection, which has no handler, in the log only; a handler would get the same.
\<close>

definition channel :: "connection \<Rightarrow> connection \<Rightarrow> string list \<Rightarrow> bool" where
  "channel c d first \<longleftrightarrow>
     (\<forall>msgs rs. lossless (send_all msgs c) d rs \<longrightarrow> (\<forall>s \<in> set msgs. length s \<le> 65535) \<longrightarrow>
        logged (receiveLoop (full_turns rs) LoopTop d) = map (\<lambda>s. (s, local_addr c)) (first @ msgs) \<and>
        handled (receiveLoop (full_turns rs) LoopTop d) = [] \<and>
        handled (receiveLoop (full_turns rs) LoopTop (SetReceiveHandler d)) =
          map (\<lambda>s. (s, local_addr c)) (first @ msgs))"

lemma greeting_channel:
  "channel (greeting_connection g g') (greeting_connection g' g) [hello]"
  unfolding channel_def
proof (intro allI impI)
  let ?c = "greeting_connection g g'" and ?d = "greeting_connection g' g"
  fix msgs rs assume rs: "lossless (send_all msgs ?c) ?d rs" "\<forall>s \<in> set msgs. length s \<le> 65535"
  have sent: "cn_sent ?c = map (Pair (local_addr ?d)) [hello]"
    by (simp add: greeting_connection_simps local_addr_def)
  have x: "crossing ?c (SetReceiveHandler ?d)" unfolding crossing_handler by (rule crossing_greeting)
  have same: "local_addr (SetReceiveHandler ?d) = local_addr ?d" "cn_handler (SetReceiveHandler ?d)" "\<not> cn_handler ?d"
    by (simp_all add: local_addr_def SetReceiveHandler_def greeting_connection_def new_connection_def)
  have short: "\<forall>s \<in> set ([hello] @ msgs). length s \<le> 65535" using rs(2) by (simp add: hello_def)
  have "lossless (send_all msgs ?c) (SetReceiveHandler ?d) rs" using rs(1) same(1) by (simp add: lossless_def)
  then show "logged (receiveLoop (full_turns rs) LoopTop ?d) = map (\<lambda>s. (s, local_addr ?c)) ([hello] @ msgs) \<and>
      handled (receiveLoop (full_turns rs) LoopTop ?d) = [] \<and>
      handled (receiveLoop (full_turns rs) LoopTop (SetReceiveHandler ?d)) =
        map (\<lambda>s. (s, local_addr ?c)) ([hello] @ msgs)"
    using crossing_delivers[OF crossing_greeting sent rs(1) short] crossing_delivers[OF x _ _ short] sent same
    by simp
qed

section \<open>Candidates of several peers, and a second start\<close>

text \<open>Candidates handed to the application one after another, each with its sender.\<close>

primrec remote_candidates ::
  "'os surroundings \<Rightarrow> (string \<times> candidate) list \<Rightarrow> app \<Rightarrow> 'os \<Rightarrow> app outcome \<times> 'os" where
  "remote_candidates sr [] a os = (Done a, os)"
| "remote_candidates sr (x # xs) a os =
     (case handleRemoteICECandidate sr (fst x) (snd x) a os of
        (Done a', os') \<Rightarrow> remote_candidates sr xs a' os'
      | (Blocked, os') \<Rightarrow> (Blocked, os')
      | (Panicked e, os') \<Rightarrow> (Panicked e, os'))"

lemma remote_candidates_agent:
  "idle ag \<Longrightarrow> ap_agent a = Some ag \<Longrightarrow>
   remote_candidates sr xs a os = (Done (with_remotes (map snd xs) ag a), os)"
proof (induction xs arbitrary: a ag)
  case Nil
  then show ?case by (cases a; cases ag) (simp add: with_remotes_def)
next
  case (Cons x xs)
  let ?ag = "ag\<lparr>ag_remote := ag_remote ag @ [snd x]\<rparr>"
  have "remote_candidates sr xs (with_remotes [snd x] ag a) os =
      (Done (with_remotes (map snd xs) ?ag (with_remotes [snd x] ag a)), os)"
    using Cons.prems by (intro Cons.IH) (simp_all add: idle_def)
  then show ?case by (simp add: handleRemote_agent[OF Cons.prems] with_remotes_more)
qed

lemma delayed_connect_none:
  assumes "ap_agent a = Some ag" "idle ag" "ag_local ag \<noteq> []" "ag_remote ag = []" "ap_conn a = None"
  shows "delayed_connect sr a = Done (a\<lparr>ap_delayed := ap_delayed a - 1\<rparr>)"
  using assms
  by (cases a) (simp add: delayed_connect_def agent_Connect_no_remote)

lemma delayed_connect_first:
  assumes "ap_agent a = Some ag" "idle ag" "ag_local ag = l # ls" "ag_remote ag = r # rs" "ap_conn a = None"
    and "g_listeners (ag_gatherer ag) = u # us" "sr_resolve sr (host_port r) = Inr addr"
  shows "\<exists>a' conn. delayed_connect sr a = Done a' \<and> ap_conn a' = Some conn \<and>
    cn_remote conn = r \<and> cn_remote_addr conn = addr \<and> cn_conn conn = Some u"
proof -
  obtain res conn where "SendString (sr_udp sr) hello (new_connection (snd l) r u addr) = (res, conn)"
      "cn_remote conn = r" "cn_remote_addr conn = addr" "cn_conn conn = Some u"
    by (cases "sr_udp sr") (simp_all add: SendString_def cn_Send_defs new_connection_def)
  then show ?thesis
    using assms
    by (simp add: delayed_connect_def hello_def
        agent_Connect_first[of ag l ls r rs u us "sr_resolve sr" addr, OF assms(2-4,6,7)])
qed

section \<open>Gathering after closing\<close>

text \<open>What a candidate says of its socket.\<close>

definition names_socket :: "cand_ptr \<Rightarrow> udp_conn \<Rightarrow> bool" where
  "names_socket c u \<longleftrightarrow> c_ip (snd c) = ip4_String (u_ip u) \<and> c_port (snd c) = u_port u"

lemma gather_ips_grows:
  "gather_ips listen ips f g os = (g', os') \<Longrightarrow> \<exists>new us. g_candidates g' = g_candidates g @ new \<and>
     g_listeners g' = g_listeners g @ us \<and> list_all2 names_socket new us"
proof (induction ips arbitrary: f g os)
  case (Cons a ips)
  obtain r os1 where b: "bindUDP listen a g os = (r, os1)" by fastforce
  show ?case
  proof (cases r)
    case (Inl e)
    with b Cons show ?thesis by simp
  next
    case (Inr c)
    let ?x = "(g_alloc g, host_candidate f c)"
    from Inr b Cons.prems obtain new us where
        "g_candidates g' = (g_candidates g @ [?x]) @ new" "g_listeners g' = (g_listeners g @ [c]) @ us"
        "list_all2 names_socket new us"
      using Cons.IH[of "Suc f" "g\<lparr>g_candidates := g_candidates g @ [?x],
        g_listeners := g_listeners g @ [c], g_alloc := Suc (g_alloc g)\<rparr>" os1] by auto
    moreover have "names_socket ?x c" by (simp add: names_socket_def host_candidate_def)
    ultimately show ?thesis by (intro exI[of _ "?x # new"] exI[of _ "c # us"]) simp
  qed
qed simp

text \<open>An operating system on which nothing can be bound.\<close>

definition never_binds :: "'os listen \<Rightarrow> bool" where
  "never_binds listen \<longleftrightarrow> (\<forall>a port os. \<exists>e os'. listen a port os = (Inl e, os'))"

lemma bind_range_never: "never_binds listen \<Longrightarrow> \<exists>e os'. bind_range listen a start stop port os = (Inl e, os')"
proof (induction listen a start stop port os rule: bind_range.induct)
  case (1 listen a start stop port os)
  obtain e os' where l: "listen a port os = (Inl e, os')" using 1(2) unfolding never_binds_def by meson
  show ?case
  proof (cases "port \<le> stop")
    case True
    from 1(1)[OF True l[symmetric] refl 1(2)] show ?thesis
      by (subst bind_range.simps) (simp add: True l)
  next
    case False
    then show ?thesis by (subst bind_range.simps) simp
  qed
qed

lemma bindUDP_never: "never_binds listen \<Longrightarrow> \<exists>e os'. bindUDP listen a g os = (Inl e, os')"
  using bind_range_never by (auto simp: bindUDP_def never_binds_def)

lemma gather_ips_never: "never_binds listen \<Longrightarrow> \<exists>os'. gather_ips listen ips f g os = (g, os')"
proof (induction ips arbitrary: os)
  case (Cons a ips)
  obtain e os1 where "bindUDP listen a g os = (Inl e, os1)" using bindUDP_never[OF Cons.prems] by blast
  with Cons show ?case by simp
qed simp

lemma agent_Close_idle:
  assumes "idle a"
  shows "agent_Close close_udp a os = Done ((), fold close_udp (g_listeners (ag_gatherer a)) os,
    a\<lparr>ag_connection := map_option cn_Close (ag_connection a),
      ag_gatherer := (ag_gatherer a)\<lparr>g_listeners := []\<rparr>\<rparr>)"
  using assms
  by (cases a) (simp add: agent_Close_def locked_idle gatherer_Close_def idle_def)

text \<open>An agent that has candidates always gathers, if it can list its addresses.\<close>

lemma agent_Gather_again:
  assumes "idle a" "g_candidates (ag_gatherer a) = l # ls" "getLocalIPs ifaces = Inr ips"
    and "g_listeners (ag_gatherer a) = []"
  obtains new us g os' where
    "agent_Gather listen ifaces a os =
      (Done (Inr (l # ls @ new), a\<lparr>ag_gatherer := g, ag_local := l # ls @ new\<rparr>), os')"
    "g_listeners g = us" "list_all2 names_socket new us" "never_binds listen \<Longrightarrow> new = []"
proof -
  obtain g os' where g: "gather_ips listen ips 1 (ag_gatherer a) os = (g, os')" by fastforce
  from gather_ips_grows[OF g] obtain new us where new: "g_candidates g = l # ls @ new"
      "g_listeners g = us" "list_all2 names_socket new us"
    using assms(2,4) by auto
  have "agent_Gather listen ifaces a os =
      (Done (Inr (l # ls @ new), a\<lparr>ag_gatherer := g, ag_local := l # ls @ new\<rparr>), os')"
    using assms(1,3) g new(1) by (cases a) (auto simp: agent_Gather_def Gather_def locked_idle idle_def)
  moreover have "never_binds listen \<Longrightarrow> new = []"
    using gather_ips_never[of listen ips 1 "ag_gatherer a" os] g new(1) assms(2) by auto
  ultimately show thesis using that new(2,3) by blast
qed

end
