(* ===== verification/SessionProps.thy ===== *)
theory SessionProps
  imports IceSession IceProps AppProps
begin

text \<open>
  The properties of a direct connection between two demo applications, from the gathering of
  candidates to the data that arrives, and of what can go wrong on the way.
\<close>

section \<open>Two applications connect\<close>

text \<open>C5: When one application starts ICE for another, the two end up connected to each other:
  the candidates it sends, which the server's reader, hub and writer carry, make the other
  gather and send its own; these come back; and each then connects one of its bound sockets to
  the socket the other connects, and greets it. Over a network that loses and reorders nothing,
  each end accepts exactly the greeting and then everything that the other sends, unchanged and
  in order. It shows it in its log only, since the application sets no receive handler; a
  handler would be called with exactly the same.\<close>

theorem direct_session:
  assumes a: "app_listens a" "connected (ap_client a)" "ap_conn a = None"
    and b: "app_listens b" "connected (ap_client b)" "ap_conn b = None" "ap_agent b = None"
    and hub: "served h pa" "served h pb"
    and sa: "gathers sa osa ga osa'" "udp_law (sr_listen sa)" "resolve_law (sr_resolve sa)"
      "writes_succeed sa" "clocks_ok sa"
    and sb: "gathers sb osb gb osb'" "udp_law (sr_listen sb)" "resolve_law (sr_resolve sb)"
      "writes_succeed sb" "clocks_ok sb"
    and stamps: "length ts = length (g_candidates ga)" "\<forall>t \<in> set ts. in_int 64 t"
      "length us = length (g_candidates gb)" "\<forall>t \<in> set us. in_int 64 t"
  shows "\<exists>a1 fa b1 fb a2 a3 b2 c d.
    startICE sa (peer_id pb) a osa = (Done a1, osa') \<and>
    frames (ap_client a1) = frames (ap_client a) @ map TextFrame fa \<and>
    carried sb ice e pa pb (zip ts fa) h b osb = (Done (h, b1), osb') \<and>
    frames (ap_client b1) = frames (ap_client b) @ map TextFrame fb \<and>
    carried sa ice e pb pa (zip us fb) h a1 osa' = (Done (h, a2), osa') \<and>
    delayed_connect sa a2 = Done a3 \<and> delayed_connect sb b1 = Done b2 \<and>
    ap_conn a3 = Some c \<and> ap_conn b2 = Some d \<and> crossing c d \<and> crossing d c \<and>
    cn_conn c \<in> Some ` set (GetListeners ga) \<and> cn_conn d \<in> Some ` set (GetListeners gb) \<and>
    cn_sent c = [(local_addr d, hello)] \<and> cn_sent d = [(local_addr c, hello)] \<and>
    (\<forall>msgs rs. lossless (send_all msgs c) d rs \<longrightarrow> (\<forall>s \<in> set msgs. length s \<le> 65535) \<longrightarrow>
       logged (receiveLoop (full_turns rs) LoopTop d) = map (\<lambda>s. (s, local_addr c)) ([hello] @ msgs) \<and>
       handled (receiveLoop (full_turns rs) LoopTop d) = [] \<and>
       handled (receiveLoop (full_turns rs) LoopTop (SetReceiveHandler d)) =
         map (\<lambda>s. (s, local_addr c)) ([hello] @ msgs)) \<and>
    (\<forall>msgs rs. lossless (send_all msgs d) c rs \<longrightarrow> (\<forall>s \<in> set msgs. length s \<le> 65535) \<longrightarrow>
       logged (receiveLoop (full_turns rs) LoopTop c) = map (\<lambda>s. (s, local_addr d)) ([hello] @ msgs) \<and>
       handled (receiveLoop (full_turns rs) LoopTop c) = [] \<and>
       handled (receiveLoop (full_turns rs) LoopTop (SetReceiveHandler c)) =
         map (\<lambda>s. (s, local_addr d)) ([hello] @ msgs))"
proof -
  let ?ca = "map snd (g_candidates ga)" and ?cb = "map snd (g_candidates gb)"
  let ?a1 = "started sa (peer_id pb) ga a"
  let ?b1 = "with_remotes ?ca (gathered_agent gb) (started sb (peer_id pa) gb b)"
  let ?a2 = "with_remotes ?cb (gathered_agent ga) ?a1"
  let ?c = "greeting_connection ga gb" and ?d = "greeting_connection gb ga"
  obtain la ra where ga: "g_listeners ga = first_socket ga # la" "g_candidates ga \<noteq> []"
      "\<forall>c \<in> set ?ca. candidate_ok c"
    by (rule gathers_first[OF sa(1,2)]) auto
  obtain lb rb where gb: "g_listeners gb = first_socket gb # lb" "g_candidates gb \<noteq> []"
      "\<forall>c \<in> set ?cb. candidate_ok c"
    by (rule gathers_first[OF sb(1,2)]) auto
  have to_b: "carried sb ice e pa pb (zip ts (candidate_frames sa (peer_id pb) 0 ?ca)) h b osb = (Done (h, ?b1), osb')"
    by (rule carried_starts[OF sa(5) b(1,4) sb(1)]) (use ga(2,3) stamps(1,2) hub(2) in simp_all)
  have listens: "app_listens ?a1" by (rule app_listens_same[OF a(1) started_client])
  have to_a: "carried sa ice e pb pa (zip us (candidate_frames sb (peer_id pa) 0 ?cb)) h ?a1 osa' = (Done (h, ?a2), osa')"
    by (rule carried_candidates[OF sb(5) listens]) (use gb(3) stamps(3,4) hub(1) in simp_all)
  obtain a3 where a3: "delayed_connect sa ?a2 = Done a3" "ap_conn a3 = Some ?c"
    using delayed_connect_crossing[OF sa(1,2) sb(1,2) sa(3,4), of ?a2] a(3)
    by (auto simp: gathered_agent_def)
  obtain b2 where b2: "delayed_connect sb ?b1 = Done b2" "ap_conn b2 = Some ?d"
    using delayed_connect_crossing[OF sb(1,2) sa(1,2) sb(3,4), of ?b1] b(3)
    by (auto simp: gathered_agent_def)
  have frames: "frames (ap_client ?a1) = frames (ap_client a) @ map TextFrame (candidate_frames sa (peer_id pb) 0 ?ca)"
    "frames (ap_client ?b1) = frames (ap_client b) @ map TextFrame (candidate_frames sb (peer_id pa) 0 ?cb)"
    using started_frames[OF a(2) sa(4)] started_frames[OF b(2) sb(4)] by simp_all
  have sockets: "cn_conn ?c \<in> Some ` set (GetListeners ga)" "cn_conn ?d \<in> Some ` set (GetListeners gb)"
    by (rule greeting_socket[OF ga(1)], rule greeting_socket[OF gb(1)])
  show ?thesis
    by (intro exI conjI, rule startICE_gathers[OF sa(1)], rule frames, rule to_b, rule frames, rule to_a,
        rule a3, rule b2, rule a3, rule b2, rule crossing_greeting, rule crossing_greeting,
        rule sockets, rule sockets, rule greeting_hello, rule greeting_hello,
        rule greeting_channel[unfolded channel_def], rule greeting_channel[unfolded channel_def])
qed

text \<open>A machine with one address and all ports free.\<close>

definition lan_surroundings :: "ip \<Rightarrow> nat surroundings" where
  "lan_surroundings b = example_surroundings\<lparr>sr_listen := busy_listen [],
     sr_ifaces := Inr [\<lparr>if_flags = 1, if_addrs = Inr [IPNet b]\<rparr>]\<rparr>"

definition lan_socket :: "ip \<Rightarrow> nat \<Rightarrow> udp_conn" where
  "lan_socket b n = \<lparr>u_sock = n, u_ip = b, u_port = 10000\<rparr>"

definition lan_gatherer :: "ip \<Rightarrow> nat \<Rightarrow> gatherer" where
  "lan_gatherer b n = \<lparr>g_candidates = [(0, host_candidate 1 (lan_socket b n))],
     g_listeners = [lan_socket b n], g_port_start = 10000, g_port_end = 10100, g_alloc = 1\<rparr>"

lemma lan_gathers:
  assumes "length b = 4"
  shows "gathers (lan_surroundings b) n (lan_gatherer b n) (Suc n)"
proof -
  have b: "To4 b = Some b" using assms by (simp add: To4_def)
  then have ips: "getLocalIPs (sr_ifaces (lan_surroundings b)) = Inr [b]"
    by (simp add: getLocalIPs_def lan_surroundings_def iface_ips_def FlagUp_def FlagLoopback_def addr_ip_def)
  have "bindUDP (sr_listen (lan_surroundings b)) b (NewGatherer DefaultGathererConfig) n =
      (Inr (lan_socket b n), Suc n)"
    using b by (simp add: bindUDP_def NewGatherer_def DefaultGathererConfig_def bind_range.simps
        lan_surroundings_def busy_listen_def lan_socket_def)
  then show ?thesis
    by (simp add: gathers_def Gather_def ips lan_gatherer_def)
       (simp add: NewGatherer_def DefaultGathererConfig_def)
qed

lemma lan_surroundings_ok:
  "udp_law (sr_listen (lan_surroundings b))" "resolve_law (sr_resolve (lan_surroundings b))"
  "writes_succeed (lan_surroundings b)" "clocks_ok (lan_surroundings b)"
  by (simp_all add: lan_surroundings_def busy_listen_law resolve_law_def writes_succeed_def clocks_ok_def
      example_surroundings_def noon_ok in_int_def)

lemma example_app_listens: "app_listens example_app" "connected (ap_client example_app)" "ap_conn example_app = None"
  by (simp_all add: app_listens_def)
     (simp_all add: example_app_def new_app_def example_client_def new_client_def SetPeerHandler_def
      SetHandler_def NewWebSocketClient_def)

definition lan2 :: ip where "lan2 = [10, 0, 0, 9]"

definition two_peers :: hub where
  "two_peers = \<lparr>peers = [''a1'' \<mapsto> peer_a, ''b2'' \<mapsto> peer_b], chans = \<lambda>_. make_chan sendCapacity\<rparr>"

lemma two_peers_served: "served two_peers peer_a" "served two_peers peer_b"
  by (simp_all add: served_def two_peers_def)

text \<open>A network that delivers the greeting and one more message.\<close>

theorem direct_session_witness:
  "\<exists>a2 a3 b1 b2 c d. delayed_connect (lan_surroundings lan) a2 = Done a3 \<and>
     delayed_connect (lan_surroundings lan2) b1 = Done b2 \<and>
     ap_conn a3 = Some c \<and> ap_conn b2 = Some d \<and> crossing c d \<and>
     cn_conn c = Some (lan_socket lan 0) \<and> cn_conn d = Some (lan_socket lan2 5) \<and>
     logged (receiveLoop (full_turns (map (Datagram (local_addr c)) ([hello] @ [''hi'']))) LoopTop d) =
       [(hello, local_addr c), (''hi'', local_addr c)]"
proof -
  have g: "gathers (lan_surroundings lan) 0 (lan_gatherer lan 0) 1"
      "gathers (lan_surroundings lan2) 5 (lan_gatherer lan2 5) 6"
    using lan_gathers[of lan 0] lan_gathers[of lan2 5] by (simp_all add: lan_def lan2_def)
  have stamps: "length [8] = length (g_candidates (lan_gatherer b n))" "\<forall>t \<in> set [8]. in_int 64 t" for b n
    by (simp_all add: lan_gatherer_def in_int_def)
  have l: "GetListeners (lan_gatherer b n) = [lan_socket b n]" for b n
    by (simp add: GetListeners_def lan_gatherer_def)
  obtain a2 a3 b1 b2 c d where x: "delayed_connect (lan_surroundings lan) a2 = Done a3"
      "delayed_connect (lan_surroundings lan2) b1 = Done b2" "ap_conn a3 = Some c" "ap_conn b2 = Some d"
      "crossing c d" "cn_conn c = Some (lan_socket lan 0)" "cn_conn d = Some (lan_socket lan2 5)"
      "cn_sent c = [(local_addr d, hello)]"
    and data: "\<forall>msgs rs. lossless (send_all msgs c) d rs \<longrightarrow> (\<forall>s \<in> set msgs. length s \<le> 65535) \<longrightarrow>
       logged (receiveLoop (full_turns rs) LoopTop d) = map (\<lambda>s. (s, local_addr c)) ([hello] @ msgs) \<and>
       handled (receiveLoop (full_turns rs) LoopTop d) = [] \<and>
       handled (receiveLoop (full_turns rs) LoopTop (SetReceiveHandler d)) =
         map (\<lambda>s. (s, local_addr c)) ([hello] @ msgs)"
    using direct_session[OF example_app_listens example_app_listens example_app_simps(2) two_peers_served g(1)
      lan_surroundings_ok g(2) lan_surroundings_ok stamps stamps, of False "\<lparr>now = \<lambda>_. 0, range_order = \<lambda>_. []\<rparr>"]
    unfolding l by (elim exE conjE) (rule that, assumption+, simp, simp, assumption+)
  have "lossless (send_all [''hi''] c) d (map (Datagram (local_addr c)) ([hello] @ [''hi'']))"
    by (rule lossless_exact[OF x(5)]) (simp add: x(8))
  with data have "logged (receiveLoop (full_turns (map (Datagram (local_addr c)) ([hello] @ [''hi'']))) LoopTop d) =
      map (\<lambda>s. (s, local_addr c)) ([hello] @ [''hi''])"
    by fastforce
  then show ?thesis
    by (intro exI[of _ a2] exI[of _ a3] exI[of _ b1] exI[of _ b2] exI[of _ c] exI[of _ d] conjI x) simp
qed

section \<open>Which candidate is connected\<close>

text \<open>C37: The application connects the first candidate that reaches it after it started ICE,
  whichever peer sent it: nobody's name is looked at, later candidates, those of the peer it
  started ICE for included, are never tried.\<close>

theorem first_candidate_wins:
  assumes "ap_agent a = Some (gathered_agent g)" "gathers sr os0 g os0'" "udp_law (sr_listen sr)"
    and "ap_conn a = None" "sr_resolve sr (host_port x) = Inr addr"
  shows "\<exists>a1 a2 conn. remote_candidates sr ((stranger, x) # later) a os = (Done a1, os) \<and>
    delayed_connect sr a1 = Done a2 \<and> ap_conn a2 = Some conn \<and> cn_remote conn = x \<and> cn_remote_addr conn = addr"
proof -
  obtain us cs where g: "g_listeners g = first_socket g # us"
      "g_candidates g = (0, host_candidate 1 (first_socket g)) # cs"
    by (rule gathers_first[OF assms(2,3)])
  let ?a1 = "with_remotes (x # map snd later) (gathered_agent g) a"
  have "remote_candidates sr ((stranger, x) # later) a os = (Done ?a1, os)"
    using remote_candidates_agent[OF gathered_simps(1) assms(1), of sr "(stranger, x) # later" os] by simp
  moreover have "\<exists>a2 conn. delayed_connect sr ?a1 = Done a2 \<and> ap_conn a2 = Some conn \<and>
      cn_remote conn = x \<and> cn_remote_addr conn = addr \<and> cn_conn conn = Some (first_socket g)"
    by (rule delayed_connect_first[of _ "gathered_agent g\<lparr>ag_remote := x # map snd later\<rparr>" _ _ _ "map snd later"])
       (use g assms in simp_all)
  ultimately show ?thesis by blast
qed

theorem first_candidate_wins_witness:
  "\<exists>a1 a2 conn. remote_candidates (lan_surroundings lan)
     [(''c3'', host_candidate 1 (lan_socket lan2 5)), (''b2'', cand_x)]
     (started (lan_surroundings lan) ''b2'' (lan_gatherer lan 0) example_app) (1 :: nat) = (Done a1, 1) \<and>
   delayed_connect (lan_surroundings lan) a1 = Done a2 \<and> ap_conn a2 = Some conn \<and>
   cn_remote_addr conn = sock_addr (lan_socket lan2 5)"
proof -
  let ?x = "host_candidate 1 (lan_socket lan2 5)"
  have "host_port ?x = sock_addr (lan_socket lan2 5)"
    by (simp add: host_port_def host_candidate_def sock_addr_def)
  then have r: "sr_resolve (lan_surroundings lan) (host_port ?x) = Inr (sock_addr (lan_socket lan2 5))"
    by (simp add: lan_surroundings_def example_surroundings_def)
  have g: "gathers (lan_surroundings lan) 0 (lan_gatherer lan 0) 1"
    using lan_gathers[of lan 0] by (simp add: lan_def)
  have "ap_conn (started (lan_surroundings lan) ''b2'' (lan_gatherer lan 0) example_app) = None"
    using example_app_listens(3) by simp
  from first_candidate_wins[OF started_simps(1) g lan_surroundings_ok(1) this r, of "''c3''" "[(''b2'', cand_x)]" 1]
  show ?thesis by blast
qed

text \<open>C38: Starting ICE a second time, as every peer that joins makes the application do when it
  runs with ICE, replaces the agent: its remote candidates are forgotten, and an attempt to
  connect that was scheduled for them finds none and gives up.\<close>

theorem restart_forgets:
  assumes "gathers sr os g os'" "app_inv a" "ap_conn a = None" "0 < ap_delayed a"
  shows "\<exists>a1 ag a2. on_peer_event sr True \<lparr>pe_type = ''joined'', pe_peer_id = i, pe_peers = []\<rparr> a os = (Done a1, os') \<and>
    ap_delayed a1 = ap_delayed a \<and> ap_agent a1 = Some ag \<and> ag_remote ag = [] \<and>
    delayed_connect sr a1 = Done a2 \<and> ap_conn a2 = None \<and> ap_delayed a2 < ap_delayed a"
proof -
  let ?a1 = "started sr i g a"
  have "ag_local (gathered_agent g) \<noteq> []" using assms(1) by (simp add: gathers_def)
  then have "delayed_connect sr ?a1 = Done (?a1\<lparr>ap_delayed := ap_delayed ?a1 - 1\<rparr>)"
    using assms(3) by (intro delayed_connect_none[of _ "gathered_agent g"]) simp_all
  then show ?thesis
    using assms(3,4) startICE_gathers[OF assms(1), of i a]
    by (intro exI[of _ ?a1] exI[of _ "gathered_agent g"] exI[of _ "?a1\<lparr>ap_delayed := ap_delayed ?a1 - 1\<rparr>"])
       (simp add: on_peer_event_def)
qed

theorem restart_forgets_witness:
  "\<exists>a a1 a2. map_option ag_remote (ap_agent a) = Some [cand_x] \<and>
     on_peer_event (lan_surroundings lan) True \<lparr>pe_type = ''joined'', pe_peer_id = ''c3'', pe_peers = []\<rparr> a 1 = (Done a1, 2) \<and>
     delayed_connect (lan_surroundings lan) a1 = Done a2 \<and> ap_conn a2 = None"
proof -
  let ?a = "with_remotes [cand_x] (gathered_agent (lan_gatherer lan 0)) example_app"
  have g: "gathers (lan_surroundings lan) 1 (lan_gatherer lan 1) 2"
    using lan_gathers[of lan 1] by (simp add: lan_def numeral_2_eq_2)
  have "ap_conn ?a = None" "0 < ap_delayed ?a" using example_app_listens(3) by simp_all
  moreover have "map_option ag_remote (ap_agent ?a) = Some [cand_x]" by simp
  ultimately show ?thesis
    using restart_forgets[OF g app_inv_with_remotes[OF gathered_simps(1)], of "[cand_x]" _ example_app "''c3''"]
    by blast
qed

section \<open>An agent that gathers again\<close>

text \<open>C29: An agent that is closed keeps its candidates but not its sockets. Until it gathers again
  \<open>Connect\<close> fails for want of a listener. When it does gather again it succeeds as soon as it
  can list its addresses, even when nothing can be bound: the candidates of the closed sockets
  are still returned, before the new ones, and \<open>Connect\<close> pairs the oldest of them with the
  first new socket, which is the socket of another candidate, or again fails if there is none.\<close>

theorem regather_misaligned:
  assumes "idle a" "g_candidates (ag_gatherer a) = l # ls" "ag_local a = l # ls" "ag_remote a = r # rs"
    and "resolve (host_port r) = Inr addr" "agent_Close close_udp a os = Done ((), os1, a1)"
  shows "(\<exists>a'. agent_Connect resolve a1 = Done (Inl ''no listener for local candidate'', a')) \<and>
    (\<forall>listen ifaces ips. getLocalIPs ifaces = Inr ips \<longrightarrow>
      (\<exists>new a2 os2 res a3. agent_Gather listen ifaces a1 os1 = (Done (Inr (l # ls @ new), a2), os2) \<and>
         agent_Connect resolve a2 = Done (res, a3) \<and>
         ((\<forall>i port o1. \<exists>e o2. listen i port o1 = (Inl e, o2)) \<longrightarrow> new = []) \<and>
         (case new of
            [] \<Rightarrow> GetListeners (ag_gatherer a2) = [] \<and> res = Inl ''no listener for local candidate''
          | x # xs \<Rightarrow> \<exists>u us conn. GetListeners (ag_gatherer a2) = u # us \<and> length us = length xs \<and>
              c_ip (snd x) = ip4_String (u_ip u) \<and> c_port (snd x) = u_port u \<and>
              res = Inr conn \<and> cn_local conn = snd l \<and> cn_conn conn = Some u \<and> cn_remote conn = r)))"
proof (intro conjI allI impI)
  have a1: "a1 = a\<lparr>ag_connection := map_option cn_Close (ag_connection a),
      ag_gatherer := (ag_gatherer a)\<lparr>g_listeners := []\<rparr>\<rparr>"
    using assms(6) agent_Close_idle[OF assms(1), of close_udp os] by simp
  then have idle1: "idle a1" using assms(1) by (simp add: idle_def)
  show "\<exists>a'. agent_Connect resolve a1 = Done (Inl ''no listener for local candidate'', a')"
    by (rule agent_Connect_no_listener[OF idle1]) (use a1 assms(3,4) in simp_all)
  fix listen :: "'a listen" and ifaces ips assume ips: "getLocalIPs ifaces = Inr ips"
  have old: "g_candidates (ag_gatherer a1) = l # ls" "g_listeners (ag_gatherer a1) = []"
    using a1 assms(2) by simp_all
  obtain new us g os2 where g: "agent_Gather listen ifaces a1 os1 =
        (Done (Inr (l # ls @ new), a1\<lparr>ag_gatherer := g, ag_local := l # ls @ new\<rparr>), os2)"
      "g_listeners g = us" "list_all2 names_socket new us" "never_binds listen \<Longrightarrow> new = []"
    by (rule agent_Gather_again[OF idle1 old(1) ips old(2), of listen os1]) (rule that)
  let ?a2 = "a1\<lparr>ag_gatherer := g, ag_local := l # ls @ new\<rparr>"
  have a2: "idle ?a2" "ag_local ?a2 = l # (ls @ new)" "ag_remote ?a2 = r # rs"
    using idle1 a1 assms(4) by (simp_all add: idle_def)
  have "\<exists>res a3. agent_Connect resolve ?a2 = Done (res, a3) \<and>
      (case new of
         [] \<Rightarrow> GetListeners g = [] \<and> res = Inl ''no listener for local candidate''
       | x # xs \<Rightarrow> \<exists>u us conn. GetListeners g = u # us \<and> length us = length xs \<and>
           c_ip (snd x) = ip4_String (u_ip u) \<and> c_port (snd x) = u_port u \<and>
           res = Inr conn \<and> cn_local conn = snd l \<and> cn_conn conn = Some u \<and> cn_remote conn = r)"
  proof (cases new)
    case Nil
    then have "g_listeners g = []" using g(2,3) by simp
    moreover from this have "\<exists>a3. agent_Connect resolve ?a2 = Done (Inl ''no listener for local candidate'', a3)"
      by (intro agent_Connect_no_listener[OF a2(1)]) (use a2 in simp_all)
    ultimately show ?thesis using Nil by (auto simp: GetListeners_def)
  next
    case (Cons x xs)
    then obtain u vs where u: "us = u # vs" "names_socket x u" "list_all2 names_socket xs vs"
      using g(3) unfolding Cons list_all2_Cons1 by blast
    let ?conn = "new_connection (snd l) r u addr"
    have "g_listeners (ag_gatherer ?a2) = u # vs" using u(1) g(2) by simp
    with a2 assms(5) have conn: "agent_Connect resolve ?a2 = Done (Inr ?conn, ?a2\<lparr>ag_connection := Some ?conn\<rparr>)"
      by (intro agent_Connect_first[of ?a2 l "ls @ new" r rs u vs resolve addr])
    have "GetListeners g = u # vs" "length vs = length xs"
      using u(1) g(2) list_all2_lengthD[OF u(3)] by (simp_all add: GetListeners_def)
    then have "\<exists>u us conn. GetListeners g = u # us \<and> length us = length xs \<and>
        c_ip (snd x) = ip4_String (u_ip u) \<and> c_port (snd x) = u_port u \<and>
        Inr ?conn = (Inr conn :: connection result) \<and> cn_local conn = snd l \<and> cn_conn conn = Some u \<and> cn_remote conn = r"
      using u(2) by (simp add: new_connection_def names_socket_def)
    then show ?thesis
      by (intro exI[of _ "Inr ?conn"] exI[of _ "?a2\<lparr>ag_connection := Some ?conn\<rparr>"] conjI conn)
         (simp only: Cons list.case)
  qed
  then obtain res a3 where c: "agent_Connect resolve ?a2 = Done (res, a3)"
      "case new of
         [] \<Rightarrow> GetListeners g = [] \<and> res = Inl ''no listener for local candidate''
       | x # xs \<Rightarrow> \<exists>u us conn. GetListeners g = u # us \<and> length us = length xs \<and>
           c_ip (snd x) = ip4_String (u_ip u) \<and> c_port (snd x) = u_port u \<and>
           res = Inr conn \<and> cn_local conn = snd l \<and> cn_conn conn = Some u \<and> cn_remote conn = r"
    by (elim exE conjE) (rule that)
  have none: "(\<forall>i port o1. \<exists>e o2. listen i port o1 = (Inl e, o2)) \<longrightarrow> new = []"
    using g(4) unfolding never_binds_def by blast
  have "ag_gatherer ?a2 = g" by simp
  show "\<exists>new a2 os2 res a3. agent_Gather listen ifaces a1 os1 = (Done (Inr (l # ls @ new), a2), os2) \<and>
      agent_Connect resolve a2 = Done (res, a3) \<and>
      ((\<forall>i port o1. \<exists>e o2. listen i port o1 = (Inl e, o2)) \<longrightarrow> new = []) \<and>
      (case new of
         [] \<Rightarrow> GetListeners (ag_gatherer a2) = [] \<and> res = Inl ''no listener for local candidate''
       | x # xs \<Rightarrow> \<exists>u us conn. GetListeners (ag_gatherer a2) = u # us \<and> length us = length xs \<and>
           c_ip (snd x) = ip4_String (u_ip u) \<and> c_port (snd x) = u_port u \<and>
           res = Inr conn \<and> cn_local conn = snd l \<and> cn_conn conn = Some u \<and> cn_remote conn = r)"
    by (intro exI[of _ new] exI[of _ ?a2] exI[of _ os2] exI[of _ res] exI[of _ a3] conjI)
       (rule g(1), rule c(1), rule none, simp only: \<open>ag_gatherer ?a2 = g\<close> c(2))
qed

text \<open>
  The second socket has another port than the candidate it is paired with; and a machine on
  which nothing can be bound gathers too.
\<close>

definition retired_agent :: agent where
  "retired_agent = (gathered_agent (lan_gatherer lan 0))\<lparr>ag_remote := [cand_x]\<rparr>"

theorem regather_misaligned_witness:
  "\<exists>os1 a1. agent_Close (\<lambda>u n. n) retired_agent (1 :: nat) = Done ((), os1, a1) \<and>
     (\<exists>cs a2 os2 conn a3.
        agent_Gather (busy_listen [(lan, 10000)]) (sr_ifaces (lan_surroundings lan)) a1 os1 = (Done (Inr cs, a2), os2) \<and>
        agent_Connect (sr_resolve (lan_surroundings lan)) a2 = Done (Inr conn, a3) \<and>
        c_port (cn_local conn) = 10000 \<and> map_option u_port (cn_conn conn) = Some 10001) \<and>
     (\<exists>a2 os2. agent_Gather (\<lambda>_ _ n. (Inl ''no'', n)) (sr_ifaces (lan_surroundings lan)) a1 os1 =
        (Done (Inr (g_candidates (lan_gatherer lan 0)), a2), os2))"
proof -
  let ?g = "lan_gatherer lan 0"
  let ?c = "(0 :: nat, host_candidate 1 (lan_socket lan 0))"
  let ?new = "\<lparr>u_sock = 1, u_ip = lan, u_port = 10001\<rparr>"
  let ?a1 = "retired_agent\<lparr>ag_connection := None, ag_gatherer := ?g\<lparr>g_listeners := []\<rparr>\<rparr>"
  let ?ifs = "sr_ifaces (lan_surroundings lan)"
  have idle: "idle retired_agent" by (simp add: retired_agent_def)
  have fields: "g_candidates (ag_gatherer retired_agent) = [?c]" "ag_local retired_agent = [?c]"
      "ag_remote retired_agent = [cand_x]" "ag_connection retired_agent = None" "ag_gatherer retired_agent = ?g"
    by (simp_all add: retired_agent_def lan_gatherer_def) (simp add: gathered_agent_def)
  have closed: "agent_Close (\<lambda>u n. n) retired_agent 1 = Done ((), 1, ?a1)"
    using agent_Close_idle[OF idle, of "\<lambda>u n. n" 1] fields by (simp add: lan_gatherer_def)
  have "To4 lan = Some lan" by (simp add: To4_def lan_def)
  then have bind: "bindUDP (busy_listen [(lan, 10000)]) lan (?g\<lparr>g_listeners := []\<rparr>) 1 = (Inr ?new, 2)"
    and ips: "getLocalIPs ?ifs = Inr [lan]"
    by (simp_all add: bindUDP_def lan_gatherer_def bind_range.simps busy_listen_def getLocalIPs_def
        lan_surroundings_def iface_ips_def FlagUp_def FlagLoopback_def addr_ip_def)
  let ?g2 = "\<lparr>g_candidates = [?c, (1, host_candidate 1 ?new)], g_listeners = [?new],
    g_port_start = 10000, g_port_end = 10100, g_alloc = 2\<rparr>"
  have "gather_ips (busy_listen [(lan, 10000)]) [lan] 1 (?g\<lparr>g_listeners := []\<rparr>) 1 = (?g2, 2)"
    using bind by simp (simp add: lan_gatherer_def numeral_2_eq_2)
  then obtain g2 where g2: "Gather (busy_listen [(lan, 10000)]) ?ifs (?g\<lparr>g_listeners := []\<rparr>) 1 =
      (Inr (g_candidates g2), g2, 2)" "g_listeners g2 = [?new]"
    using that[of ?g2] by (simp add: Gather_def ips)
  have "idle ?a1" "ag_gatherer ?a1 = ?g\<lparr>g_listeners := []\<rparr>" using idle by (simp_all add: idle_def)
  then obtain cs a2 where a2: "agent_Gather (busy_listen [(lan, 10000)]) ?ifs ?a1 1 = (Done (Inr cs, a2), 2)"
      "GetListeners (ag_gatherer a2) = [?new]"
    using g2 by (simp add: agent_Gather_def locked_idle idle_def GetListeners_def)
  have "sr_resolve (lan_surroundings lan) (host_port cand_x) = Inr (host_port cand_x)"
    by (simp add: lan_surroundings_def example_surroundings_def)
  note all = regather_misaligned[where a = retired_agent and resolve = "sr_resolve (lan_surroundings lan)" and
      l = ?c and ls = "[]" and r = cand_x and rs = "[]" and addr = "host_port cand_x" and
      close_udp = "\<lambda>u n. n" and os = 1, OF idle fields(1-3) this closed]
  note again = mp[OF spec[OF spec[OF spec[OF conjunct2[OF all]]]] ips]
  obtain new a2' os2 res a3 where r:
      "agent_Gather (busy_listen [(lan, 10000)]) ?ifs ?a1 1 = (Done (Inr (?c # [] @ new), a2'), os2)"
      "agent_Connect (sr_resolve (lan_surroundings lan)) a2' = Done (res, a3)"
      "case new of
         [] \<Rightarrow> GetListeners (ag_gatherer a2') = [] \<and> res = Inl ''no listener for local candidate''
       | x # xs \<Rightarrow> \<exists>u us conn. GetListeners (ag_gatherer a2') = u # us \<and> length us = length xs \<and>
           c_ip (snd x) = ip4_String (u_ip u) \<and> c_port (snd x) = u_port u \<and>
           res = Inr conn \<and> cn_local conn = snd ?c \<and> cn_conn conn = Some u \<and> cn_remote conn = cand_x"
    using again[of "busy_listen [(lan, 10000)]"] by (elim exE conjE) (rule that)
  then have same: "a2' = a2" "cs = ?c # new" using a2(1) by simp_all
  obtain conn where "res = Inr conn" "cn_local conn = snd ?c" "cn_conn conn = Some ?new"
    using r(3) a2(2) unfolding same(1) by (cases new) auto
  with r(1,2) have one: "\<exists>cs a2 os2 conn a3.
      agent_Gather (busy_listen [(lan, 10000)]) ?ifs ?a1 1 = (Done (Inr cs, a2), os2) \<and>
      agent_Connect (sr_resolve (lan_surroundings lan)) a2 = Done (Inr conn, a3) \<and>
      c_port (cn_local conn) = 10000 \<and> map_option u_port (cn_conn conn) = Some 10001"
    by (intro exI conjI) (assumption, simp, simp_all add: host_candidate_def lan_socket_def)
  have "g_candidates ?g = [?c]" by (simp add: lan_gatherer_def)
  then have "\<exists>a2 os2. agent_Gather (\<lambda>_ _ n. (Inl ''no'', n)) ?ifs ?a1 1 = (Done (Inr (g_candidates ?g), a2), os2)"
    using again[of "\<lambda>_ _ n. (Inl ''no'', n)"] by auto
  with closed one show ?thesis by blast
qed

end
