(* ===== verification/ClientThreads.thy ===== *)
theory ClientThreads
  imports Transport
begin

text \<open>
  \<^verbatim>\<open>pkg/p2p/transport/websocket.go\<close>, concurrently: the goroutines of one connected
  \<open>WebSocketClient\<close>. \<^verbatim>\<open>Transport\<close> gives each method as one step; here a method is a
  sequence of steps, and those of the read pump, the write pump and any number of callers
  interleave.

  A caller is a goroutine of the application inside \<open>Send\<close>, \<open>Broadcast\<close> or \<open>Close\<close>. Caller
  0 is the read pump's own goroutine while it runs a callback; it can call too, and the pump
  goes on only when its call has returned. \<open>writeMu\<close> is held around each write, so its
  holder is part of the state; the sections under \<open>mu\<close> take no other lock and do not wait,
  each is a part of one step. \<open>gorilla/websocket\<close> panics when two writes to a connection
  overlap. A write to a closed connection fails; any write and read may fail.

  The state begins after \<open>Connect\<close> has succeeded and started the pumps.
\<close>

section \<open>State\<close>

datatype read_pc = RTop | RReading | RCalling callback | RReturned

datatype ping_pc = PSelecting | PHasConn | PInWrite | PWrote "unit result" | PReturned

datatype call_pc =
    NoCall
  | HasConn ws_message
  | InWrite ws_message
  | Wrote ws_message "unit result"
  | Cancelling
  | AwaitingDone

datatype holder = Pinger | Caller nat

datatype call_result = Sent ws_message "unit result" | Closed

record client_threads =
  th_client :: ws_client
  th_read :: read_pc
  th_ping :: ping_pc
  th_call :: "nat \<Rightarrow> call_pc"
  th_write_mu :: "holder option"
  th_callbacks :: "callback list"
  th_results :: "(nat \<times> call_result) list"
  th_crashed :: bool

definition start_threads :: "ws_client \<Rightarrow> client_threads" where
  "start_threads c = \<lparr>th_client = c, th_read = RTop, th_ping = PSelecting, th_call = (\<lambda>_. NoCall),
     th_write_mu = None, th_callbacks = [], th_results = [], th_crashed = False\<rparr>"

definition set_call :: "nat \<Rightarrow> call_pc \<Rightarrow> client_threads \<Rightarrow> client_threads" where
  "set_call i pc s = s\<lparr>th_call := (th_call s)(i := pc)\<rparr>"

definition may_call :: "client_threads \<Rightarrow> nat \<Rightarrow> bool" where
  "may_call s i \<longleftrightarrow> th_call s i = NoCall \<and> (i = 0 \<longrightarrow> (\<exists>cb. th_read s = RCalling cb))"

text \<open>Who is inside \<open>conn.WriteMessage\<close>.\<close>

definition writing :: "client_threads \<Rightarrow> holder \<Rightarrow> bool" where
  "writing s h = (case h of Pinger \<Rightarrow> th_ping s = PInWrite | Caller i \<Rightarrow> \<exists>m. th_call s i = InWrite m)"

section \<open>What a step does\<close>

text \<open>One write: the result, and the client afterwards.\<close>

definition conn_write :: "(frame \<Rightarrow> error option) \<Rightarrow> frame \<Rightarrow> ws_client \<Rightarrow> unit result \<times> ws_client" where
  "conn_write wr f c =
     (case ws_connection c of
        None \<Rightarrow> (Inl ''not connected'', c)
      | Some k \<Rightarrow>
          if \<not> conn_open k then (Inl ''use of closed network connection'', c)
          else (let (r, k') = write_frame wr f k in (r, c\<lparr>ws_connection := Some k'\<rparr>)))"

definition pump_exits :: "client_threads \<Rightarrow> client_threads" where
  "pump_exits s = (case readPump_exit (th_client s) of
     Done c \<Rightarrow> s\<lparr>th_client := c, th_read := RReturned\<rparr>
   | _ \<Rightarrow> s\<lparr>th_crashed := True\<rparr>)"

definition text_read :: "json option \<Rightarrow> client_threads \<Rightarrow> client_threads" where
  "text_read t s = (case unmarshal_raw dec_ws_message t of
     Inl e \<Rightarrow> s\<lparr>th_read := RTop\<rparr>
   | Inr m \<Rightarrow> (case handleMessage m (th_client s) of
        (c, None) \<Rightarrow> s\<lparr>th_client := c, th_read := RTop\<rparr>
      | (c, Some cb) \<Rightarrow>
          s\<lparr>th_client := c, th_read := RCalling cb, th_callbacks := th_callbacks s @ [cb]\<rparr>))"

definition cancel :: "ws_client \<Rightarrow> ws_client" where
  "cancel c = c\<lparr>ws_cancelled := True\<rparr>"

definition close_conn :: "ws_client \<Rightarrow> ws_client" where
  "close_conn c = c\<lparr>ws_connection := map_option (\<lambda>k. k\<lparr>conn_open := False\<rparr>) (ws_connection c)\<rparr>"

lemma close_request_steps: "close_conn (cancel c) = ws_Close_request c"
  by (simp add: close_conn_def cancel_def ws_Close_request_def)

section \<open>Steps\<close>

inductive thread_step :: "client_threads \<Rightarrow> client_threads \<Rightarrow> bool" where
  send_starts: "may_call s i \<Longrightarrow> thread_step s (set_call i (HasConn m) s)"
| send_locks: "th_call s i = HasConn m \<Longrightarrow> th_write_mu s = None \<Longrightarrow>
     thread_step s (set_call i (InWrite m) (s\<lparr>th_write_mu := Some (Caller i)\<rparr>))"
| send_writes: "th_call s i = InWrite m \<Longrightarrow>
     conn_write wr (TextFrame (enc_ws_message m)) (th_client s) = (r, c) \<Longrightarrow>
     thread_step s (set_call i (Wrote m r) (s\<lparr>th_client := c\<rparr>))"
| send_returns: "th_call s i = Wrote m r \<Longrightarrow>
     thread_step s (set_call i NoCall
       (s\<lparr>th_write_mu := None, th_results := th_results s @ [(i, Sent m r)]\<rparr>))"
| ping_tick: "th_ping s = PSelecting \<Longrightarrow> ws_connection (th_client s) \<noteq> None \<Longrightarrow>
     thread_step s (s\<lparr>th_ping := PHasConn\<rparr>)"
| ping_locks: "th_ping s = PHasConn \<Longrightarrow> th_write_mu s = None \<Longrightarrow>
     thread_step s (s\<lparr>th_ping := PInWrite, th_write_mu := Some Pinger\<rparr>)"
| ping_writes: "th_ping s = PInWrite \<Longrightarrow> conn_write wr PingFrame (th_client s) = (r, c) \<Longrightarrow>
     thread_step s (s\<lparr>th_ping := PWrote r, th_client := c\<rparr>)"
| ping_unlocks: "th_ping s = PWrote r \<Longrightarrow>
     thread_step s (s\<lparr>th_ping := (case r of Inl e \<Rightarrow> PReturned | Inr u \<Rightarrow> PSelecting), th_write_mu := None\<rparr>)"
| ping_stops: "th_ping s = PSelecting \<Longrightarrow> ws_cancelled (th_client s) \<Longrightarrow>
     thread_step s (s\<lparr>th_ping := PReturned\<rparr>)"
| overlap: "h \<noteq> h' \<Longrightarrow> writing s h \<Longrightarrow> writing s h' \<Longrightarrow> thread_step s (s\<lparr>th_crashed := True\<rparr>)"
| read_goes_on: "th_read s = RTop \<Longrightarrow> \<not> ws_cancelled (th_client s) \<Longrightarrow>
     thread_step s (s\<lparr>th_read := RReading\<rparr>)"
| read_stops: "th_read s = RTop \<Longrightarrow> ws_cancelled (th_client s) \<Longrightarrow> thread_step s (pump_exits s)"
| read_fails: "th_read s = RReading \<Longrightarrow> thread_step s (pump_exits s)"
| read_text: "th_read s = RReading \<Longrightarrow> thread_step s (text_read t s)"
| callback_returns: "th_read s = RCalling cb \<Longrightarrow> th_call s 0 = NoCall \<Longrightarrow>
     thread_step s (s\<lparr>th_read := RTop\<rparr>)"
| close_cancels: "may_call s i \<Longrightarrow>
     thread_step s (set_call i Cancelling (s\<lparr>th_client := cancel (th_client s)\<rparr>))"
| close_closes: "th_call s i = Cancelling \<Longrightarrow>
     thread_step s (set_call i AwaitingDone (s\<lparr>th_client := close_conn (th_client s)\<rparr>))"
| close_returns: "th_call s i = AwaitingDone \<Longrightarrow> ws_done (th_client s) \<Longrightarrow>
     thread_step s (set_call i NoCall (s\<lparr>th_results := th_results s @ [(i, Closed)]\<rparr>))"

abbreviation thread_runs :: "client_threads \<Rightarrow> client_threads \<Rightarrow> bool" where
  "thread_runs \<equiv> thread_step\<^sup>*\<^sup>*"

text \<open>The client as \<open>Connect\<close> leaves it.\<close>

definition just_connected :: "ws_client \<Rightarrow> bool" where
  "just_connected c \<longleftrightarrow> ws_connection c = Some \<lparr>written = [], conn_open = True\<rparr> \<and>
     \<not> ws_cancelled c \<and> \<not> ws_done c"

definition threads_reachable :: "client_threads \<Rightarrow> bool" where
  "threads_reachable s \<longleftrightarrow> (\<exists>c. just_connected c \<and> thread_runs (start_threads c) s)"

section \<open>The invariant\<close>

definition holds :: "client_threads \<Rightarrow> holder \<Rightarrow> bool" where
  "holds s h = (case h of
     Pinger \<Rightarrow> th_ping s = PInWrite \<or> (\<exists>r. th_ping s = PWrote r)
   | Caller i \<Rightarrow> \<exists>m. th_call s i = InWrite m \<or> (\<exists>r. th_call s i = Wrote m r))"

lemma holds_simps [simp]:
  "holds s Pinger \<longleftrightarrow> th_ping s = PInWrite \<or> (\<exists>r. th_ping s = PWrote r)"
  "holds s (Caller i) \<longleftrightarrow> (\<exists>m. th_call s i = InWrite m \<or> (\<exists>r. th_call s i = Wrote m r))"
  by (simp_all add: holds_def)

lemma writing_holds: "writing s h \<Longrightarrow> holds s h"
  by (cases h) (auto simp: writing_def)

text \<open>The frames on the socket, and those that the results and a write under way account for.\<close>

definition text_frames :: "ws_client \<Rightarrow> frame list" where
  "text_frames c = (case ws_connection c of None \<Rightarrow> [] | Some k \<Rightarrow> filter (\<lambda>f. f \<noteq> PingFrame) (written k))"

definition frame_of :: "ws_message \<Rightarrow> frame" where
  "frame_of m = TextFrame (enc_ws_message m)"

definition sent_ok :: "(nat \<times> call_result) list \<Rightarrow> ws_message list" where
  "sent_ok rs = concat (map (\<lambda>r. case snd r of Sent m (Inr u) \<Rightarrow> [m] | _ \<Rightarrow> []) rs)"

definition unreported :: "client_threads \<Rightarrow> ws_message list" where
  "unreported s = (case th_write_mu s of
     Some (Caller i) \<Rightarrow> (case th_call s i of Wrote m (Inr u) \<Rightarrow> [m] | _ \<Rightarrow> [])
   | _ \<Rightarrow> [])"

definition mutex_ok :: "client_threads \<Rightarrow> bool" where
  "mutex_ok s \<longleftrightarrow> (\<forall>h. holds s h \<longleftrightarrow> th_write_mu s = Some h)"

definition pump_ok :: "client_threads \<Rightarrow> bool" where
  "pump_ok s \<longleftrightarrow> \<not> th_crashed s \<and> (ws_done (th_client s) \<longleftrightarrow> th_read s = RReturned) \<and>
     ws_connection (th_client s) \<noteq> None \<and>
     (th_call s 0 \<noteq> NoCall \<longrightarrow> (\<exists>cb. th_read s = RCalling cb)) \<and>
     (\<forall>i. th_call s i = Cancelling \<or> th_call s i = AwaitingDone \<longrightarrow> ws_cancelled (th_client s))"

definition frames_ok :: "client_threads \<Rightarrow> bool" where
  "frames_ok s \<longleftrightarrow>
     text_frames (th_client s) = map frame_of (sent_ok (th_results s) @ unreported s)"

definition threads_ok :: "client_threads \<Rightarrow> bool" where
  "threads_ok s \<longleftrightarrow> mutex_ok s \<and> pump_ok s \<and> frames_ok s"

lemma set_call_simps [simp]:
  "th_client (set_call i pc s) = th_client s" "th_read (set_call i pc s) = th_read s"
  "th_ping (set_call i pc s) = th_ping s" "th_call (set_call i pc s) = (th_call s)(i := pc)"
  "th_write_mu (set_call i pc s) = th_write_mu s" "th_callbacks (set_call i pc s) = th_callbacks s"
  "th_results (set_call i pc s) = th_results s" "th_crashed (set_call i pc s) = th_crashed s"
  by (simp_all add: set_call_def)

text \<open>Neither the end of the read pump nor a message read touches the lock and the callers.\<close>

lemma pump_exits_same [simp]:
  "th_ping (pump_exits s) = th_ping s" "th_call (pump_exits s) = th_call s"
  "th_write_mu (pump_exits s) = th_write_mu s" "th_results (pump_exits s) = th_results s"
  "th_callbacks (pump_exits s) = th_callbacks s"
  by (simp_all add: pump_exits_def split: outcome.split)

lemma handleMessage_same:
  "handleMessage m c = (c', cb) \<Longrightarrow> ws_connection c' = ws_connection c \<and> ws_done c' = ws_done c \<and>
     ws_cancelled c' = ws_cancelled c"
  by (auto simp: handleMessage_def Let_def split: if_splits sum.splits)

lemma text_read_same [simp]:
  "th_ping (text_read t s) = th_ping s" "th_call (text_read t s) = th_call s"
  "th_write_mu (text_read t s) = th_write_mu s" "th_results (text_read t s) = th_results s"
  "th_crashed (text_read t s) = th_crashed s"
  by (simp_all add: text_read_def split: sum.split prod.split option.split)

lemma text_read_client [simp]:
  "ws_connection (th_client (text_read t s)) = ws_connection (th_client s)"
  "ws_done (th_client (text_read t s)) = ws_done (th_client s)"
  "ws_cancelled (th_client (text_read t s)) = ws_cancelled (th_client s)"
  by (auto simp: text_read_def dest!: handleMessage_same split: sum.splits prod.splits option.splits)

lemma text_read_pc: "th_read (text_read t s) = RTop \<or> (\<exists>cb. th_read (text_read t s) = RCalling cb)"
  by (simp add: text_read_def split: sum.split prod.split option.split)

lemma conn_write_same:
  "conn_write wr f c = (r, c') \<Longrightarrow> ws_done c' = ws_done c \<and> ws_cancelled c' = ws_cancelled c \<and>
     (ws_connection c' = None \<longleftrightarrow> ws_connection c = None)"
  by (auto simp: conn_write_def write_frame_def split: option.splits if_splits)

lemma close_simps [simp]:
  "ws_done (cancel c) = ws_done c" "ws_connection (cancel c) = ws_connection c" "ws_cancelled (cancel c)"
  "ws_done (close_conn c) = ws_done c" "ws_cancelled (close_conn c) = ws_cancelled c"
  "ws_connection (close_conn c) = None \<longleftrightarrow> ws_connection c = None"
  by (simp_all add: cancel_def close_conn_def)

lemma mutex_step:
  assumes "thread_step s t" "mutex_ok s"
  shows "mutex_ok t"
proof -
  have m: "holds s h \<longleftrightarrow> th_write_mu s = Some h" for h using assms(2) by (simp add: mutex_ok_def)
  have m': "\<not> th_call s i = InWrite x \<and> \<not> th_call s i = Wrote x r" if "th_write_mu s \<noteq> Some (Caller i)" for i x r
    using m[of "Caller i"] that by auto
  have p: "\<not> th_ping s = PInWrite \<and> \<not> th_ping s = PWrote r" if "th_write_mu s \<noteq> Some Pinger" for r
    using m[of Pinger] that by auto
  show ?thesis
    unfolding mutex_ok_def
  proof
    fix h
    show "holds t h \<longleftrightarrow> th_write_mu t = Some h"
      using assms(1)
      by cases (use m[of h] m[of Pinger] m' p in \<open>cases h; auto simp: may_call_def split: sum.splits\<close>)+
  qed
qed

text \<open>With the lock, no two writes overlap, so the connection does not panic.\<close>

lemma one_writer: "mutex_ok s \<Longrightarrow> writing s h \<Longrightarrow> writing s h' \<Longrightarrow> h = h'"
  using writing_holds by (metis mutex_ok_def option.inject)

lemma pump_exits_ok:
  assumes "pump_ok s" "th_read s = RTop \<or> th_read s = RReading"
  shows "pump_exits s = s\<lparr>th_client := (th_client s)\<lparr>ws_done := True\<rparr>, th_read := RReturned\<rparr>"
  using assms by (auto simp: pump_exits_def readPump_exit_def pump_ok_def)

lemma pump_step:
  assumes "thread_step s t" "mutex_ok s" "pump_ok s"
  shows "pump_ok t"
  using assms(1)
proof cases
  case (overlap h h')
  then show ?thesis using one_writer[OF assms(2)] by blast
next
  case read_stops
  then show ?thesis using assms(3) pump_exits_ok[OF assms(3)] by (auto simp: pump_ok_def)
next
  case read_fails
  then show ?thesis using assms(3) pump_exits_ok[OF assms(3)] by (auto simp: pump_ok_def)
next
  case (read_text x)
  then show ?thesis using assms(3) text_read_pc[of x s] by (auto simp: pump_ok_def)
qed (use assms(3) conn_write_same in \<open>auto simp: pump_ok_def may_call_def split: if_splits\<close>)

lemma text_frames_write:
  assumes "conn_write wr f c = (r, c')" "ws_connection c \<noteq> None"
  shows "text_frames c' = text_frames c @ (if r = Inr () \<and> f \<noteq> PingFrame then [f] else [])"
  using assms by (auto simp: conn_write_def write_frame_def text_frames_def split: option.splits if_splits)

lemma text_frames_same:
  "text_frames (cancel c) = text_frames c" "text_frames (close_conn c) = text_frames c"
  "text_frames (th_client (text_read t s)) = text_frames (th_client s)"
  by (simp_all add: text_frames_def cancel_def close_conn_def split: option.split)

lemma unreported_same:
  assumes "th_write_mu t = th_write_mu s" "\<And>i. th_write_mu s = Some (Caller i) \<Longrightarrow> th_call t i = th_call s i"
  shows "unreported t = unreported s"
  using assms by (simp add: unreported_def split: option.split holder.split)

lemma not_holder:
  assumes "mutex_ok s" "\<not> holds s (Caller i)"
  shows "th_write_mu s \<noteq> Some (Caller i)"
  using assms unfolding mutex_ok_def by metis

lemma holder_of: "mutex_ok s \<Longrightarrow> holds s h \<Longrightarrow> th_write_mu s = Some h"
  by (simp add: mutex_ok_def)

lemma frames_ok_same:
  assumes "frames_ok s" "text_frames (th_client t) = text_frames (th_client s)"
    "sent_ok (th_results t) = sent_ok (th_results s)" "unreported t = unreported s"
  shows "frames_ok t"
  using assms by (simp add: frames_ok_def)

lemma sent_ok_append [simp]: "sent_ok (rs @ rs') = sent_ok rs @ sent_ok rs'"
  by (simp add: sent_ok_def)

lemma sent_ok_one [simp]:
  "sent_ok [(i, Sent m r)] = (if r = Inr () then [m] else [])" "sent_ok [(i, Closed)] = []"
  by (simp_all add: sent_ok_def split: sum.split)

lemma unreported_wrote:
  "th_write_mu s = Some (Caller i) \<Longrightarrow> th_call s i = Wrote m r \<Longrightarrow> unreported s = (if r = Inr () then [m] else [])"
  by (simp add: unreported_def split: sum.split)

lemma unreported_not:
  "\<forall>i m r. th_write_mu s = Some (Caller i) \<longrightarrow> th_call s i \<noteq> Wrote m r \<Longrightarrow> unreported s = []"
  by (auto simp: unreported_def split: option.split holder.split call_pc.split)

text \<open>While a write is to be reported, its writer holds the lock and nobody is writing.\<close>

lemma writing_elsewhere:
  assumes "mutex_ok s" "unreported s \<noteq> []"
  shows "\<not> writing s h"
proof
  assume w: "writing s h"
  then have mu: "th_write_mu s = Some h" using assms(1) writing_holds holder_of by blast
  with w assms(2) show False by (cases h) (auto simp: unreported_def writing_def)
qed

lemma frames_step:
  assumes "thread_step s t" "mutex_ok s" "pump_ok s" "frames_ok s"
  shows "frames_ok t"
  using assms(1)
proof cases
  case (send_locks i m)
  have "unreported s = []" "unreported t = []"
    unfolding unreported_def using send_locks by simp_all
  with send_locks show ?thesis by (intro frames_ok_same[OF assms(4)]) simp_all
next
  case (send_writes i m wr r c)
  have mu: "th_write_mu s = Some (Caller i)" using holder_of[OF assms(2), of "Caller i"] send_writes(2) by simp
  then have "unreported s = []" using send_writes(2) by (intro unreported_not) auto
  moreover have "unreported t = (if r = Inr () then [m] else [])"
    using mu send_writes(1) by (intro unreported_wrote[of _ i]) simp_all
  moreover have "text_frames c = text_frames (th_client s) @ (if r = Inr () then [frame_of m] else [])"
    using text_frames_write[OF send_writes(3)] assms(3) by (auto simp: pump_ok_def frame_of_def)
  ultimately show ?thesis using assms(4) send_writes(1) by (simp add: frames_ok_def)
next
  case (send_returns i m r)
  have mu: "th_write_mu s = Some (Caller i)" using holder_of[OF assms(2), of "Caller i"] send_returns(2) by simp
  have "unreported t = []" using send_returns(1) by (simp add: unreported_def)
  with unreported_wrote[OF mu send_returns(2)] assms(4) send_returns(1) show ?thesis
    by (simp add: frames_ok_def)
next
  case ping_locks
  then have "unreported s = []" "unreported t = []" by (simp_all add: unreported_def)
  with ping_locks show ?thesis by (intro frames_ok_same[OF assms(4)]) simp_all
next
  case (ping_writes wr r c)
  then have "text_frames c = text_frames (th_client s)"
    using text_frames_write[OF ping_writes(3)] assms(3) by (simp add: pump_ok_def)
  with ping_writes show ?thesis
    by (intro frames_ok_same[OF assms(4)] unreported_same) simp_all
next
  case (ping_unlocks r)
  have "th_write_mu s = Some Pinger" using holder_of[OF assms(2), of "Pinger"] ping_unlocks(2) by simp
  then have "unreported s = []" "unreported t = []"
    using ping_unlocks by (simp_all add: unreported_def)
  with ping_unlocks show ?thesis by (intro frames_ok_same[OF assms(4)]) simp_all
next
  case read_stops
  then show ?thesis using pump_exits_ok[OF assms(3)]
    by (intro frames_ok_same[OF assms(4)] unreported_same) (simp_all add: text_frames_def)
next
  case read_fails
  then show ?thesis using pump_exits_ok[OF assms(3)]
    by (intro frames_ok_same[OF assms(4)] unreported_same) (simp_all add: text_frames_def)
next
  case (send_starts i)
  have "th_write_mu s \<noteq> Some (Caller i)" by (rule not_holder[OF assms(2)]) (use send_starts in \<open>simp add: may_call_def\<close>)
  with send_starts show ?thesis by (intro frames_ok_same[OF assms(4)] unreported_same) auto
next
  case (close_cancels i)
  have "th_write_mu s \<noteq> Some (Caller i)" by (rule not_holder[OF assms(2)]) (use close_cancels in \<open>simp add: may_call_def\<close>)
  with close_cancels show ?thesis
    by (intro frames_ok_same[OF assms(4)] unreported_same) (auto simp: text_frames_same)
next
  case (close_closes i)
  have "th_write_mu s \<noteq> Some (Caller i)" by (rule not_holder[OF assms(2)]) (use close_closes in simp)
  with close_closes show ?thesis
    by (intro frames_ok_same[OF assms(4)] unreported_same) (auto simp: text_frames_same)
next
  case (close_returns i)
  have "th_write_mu s \<noteq> Some (Caller i)" by (rule not_holder[OF assms(2)]) (use close_returns in simp)
  with close_returns show ?thesis by (intro frames_ok_same[OF assms(4)] unreported_same) auto
qed (use assms(4) in \<open>auto intro!: frames_ok_same[OF assms(4)] unreported_same simp: text_frames_same\<close>)

lemma threads_step: "thread_step s t \<Longrightarrow> threads_ok s \<Longrightarrow> threads_ok t"
  using mutex_step pump_step frames_step by (auto simp: threads_ok_def)

lemma threads_runs: "thread_runs s t \<Longrightarrow> threads_ok s \<Longrightarrow> threads_ok t"
  by (induction rule: rtranclp_induct) (auto intro: threads_step)

lemma threads_start: "just_connected c \<Longrightarrow> threads_ok (start_threads c)"
  by (auto simp: threads_ok_def mutex_ok_def pump_ok_def frames_ok_def start_threads_def just_connected_def
      text_frames_def unreported_def sent_ok_def holds_def split: holder.split)

lemma threads_reachable_ok: "threads_reachable s \<Longrightarrow> threads_ok s"
  unfolding threads_reachable_def using threads_start threads_runs by blast

section \<open>Closing\<close>

text \<open>After a \<open>Close\<close> has begun, at most the message of a read under way is still delivered.\<close>

definition reads_left :: "client_threads \<Rightarrow> nat" where
  "reads_left s = (if th_read s = RReading then 1 else 0)"

lemma text_read_callbacks:
  "length (th_callbacks (text_read t s)) \<le> Suc (length (th_callbacks s))"
  by (simp add: text_read_def split: sum.split prod.split option.split)

lemma cancelled_step:
  assumes "thread_step s t" "ws_cancelled (th_client s)" "pump_ok s"
  shows "ws_cancelled (th_client t) \<and>
    length (th_callbacks t) + reads_left t \<le> length (th_callbacks s) + reads_left s"
  using assms(1)
proof cases
  case read_stops
  then show ?thesis using assms(2) pump_exits_ok[OF assms(3)] by (simp add: reads_left_def)
next
  case read_fails
  then show ?thesis using assms(2) pump_exits_ok[OF assms(3)] by (simp add: reads_left_def)
next
  case (read_text x)
  then show ?thesis
    using assms(2) text_read_callbacks[of x s] text_read_pc[of x s] by (auto simp: reads_left_def)
qed (use assms(2) conn_write_same in \<open>auto simp: reads_left_def\<close>)

lemma cancelled_runs:
  assumes "thread_runs s t" "ws_cancelled (th_client s)" "threads_ok s"
  shows "ws_cancelled (th_client t) \<and>
    length (th_callbacks t) + reads_left t \<le> length (th_callbacks s) + reads_left s"
  using assms
proof (induction rule: rtranclp_induct)
  case (step t u)
  have "pump_ok t" using threads_runs[OF step.hyps(1) step.prems(2)] by (simp add: threads_ok_def)
  with step cancelled_step[OF step.hyps(2)] show ?case by fastforce
qed simp

text \<open>A call of \<open>Close\<close> that waits, while no callback is itself inside \<open>Close\<close>.\<close>

definition in_close :: "call_pc \<Rightarrow> bool" where
  "in_close pc \<longleftrightarrow> pc = Cancelling \<or> pc = AwaitingDone"

lemma in_close_simps [simp]:
  "in_close Cancelling" "in_close AwaitingDone" "\<not> in_close NoCall" "\<not> in_close (HasConn m)"
  "\<not> in_close (InWrite m)" "\<not> in_close (Wrote m r)"
  by (simp_all add: in_close_def)

definition closing :: "nat \<Rightarrow> client_threads \<Rightarrow> bool" where
  "closing i s \<longleftrightarrow> threads_ok s \<and> i \<noteq> 0 \<and> th_call s i = AwaitingDone \<and> \<not> in_close (th_call s 0)"

lemma closing_next:
  assumes "closing i s" "thread_step s t" "th_call t i = AwaitingDone" "\<not> in_close (th_call t 0)"
  shows "closing i t"
  using assms threads_step by (auto simp: closing_def)

definition leads :: "nat \<Rightarrow> client_threads \<Rightarrow> (client_threads \<Rightarrow> bool) \<Rightarrow> bool" where
  "leads i s Q \<longleftrightarrow> (\<exists>t. thread_runs s t \<and> closing i t \<and> Q t)"

lemma leads_now: "closing i s \<Longrightarrow> Q s \<Longrightarrow> leads i s Q"
  unfolding leads_def by blast

lemma leads_then: "leads i s Q \<Longrightarrow> (\<And>t. closing i t \<Longrightarrow> Q t \<Longrightarrow> leads i t R) \<Longrightarrow> leads i s R"
  unfolding leads_def by (meson rtranclp_trans)

lemma leads_one:
  "closing i s \<Longrightarrow> thread_step s t \<Longrightarrow> th_call t i = AwaitingDone \<Longrightarrow> \<not> in_close (th_call t 0) \<Longrightarrow> Q t \<Longrightarrow>
   leads i s Q"
  unfolding leads_def using closing_next by blast

lemma closingD:
  "closing i s \<Longrightarrow> mutex_ok s" "closing i s \<Longrightarrow> pump_ok s" "closing i s \<Longrightarrow> th_call s i = AwaitingDone"
  "closing i s \<Longrightarrow> \<not> in_close (th_call s 0)" "closing i s \<Longrightarrow> i \<noteq> 0"
  by (simp_all add: closing_def threads_ok_def)

lemma closing_cancelled: "closing i s \<Longrightarrow> ws_cancelled (th_client s)"
  using closingD(2,3)[of i s] by (auto simp: pump_ok_def)

text \<open>Whoever holds the write lock can finish its write and release it.\<close>

lemma ping_unlocked:
  assumes "closing i s" "th_ping s = PWrote r"
  shows "leads i s (\<lambda>t. th_write_mu t = None)"
  using closingD(3,4)[OF assms(1)] by (intro leads_one[OF assms(1) ping_unlocks[OF assms(2)]]) simp_all

lemma call_unlocked:
  assumes "closing i s" "th_call s j = Wrote m r"
  shows "leads i s (\<lambda>t. th_write_mu t = None \<and> th_call t j = NoCall)"
  using closingD(3,4)[OF assms(1)] assms(2)
  by (intro leads_one[OF assms(1) send_returns[OF assms(2)]]) auto

lemma call_writes:
  assumes "closing i s" "th_call s j = InWrite m"
  shows "leads i s (\<lambda>t. th_write_mu t = None \<and> th_call t j = NoCall)"
proof -
  obtain r c where w: "conn_write (\<lambda>_. None) (TextFrame (enc_ws_message m)) (th_client s) = (r, c)" by fastforce
  have "leads i s (\<lambda>t. th_call t j = Wrote m r)"
    using closingD(3,4)[OF assms(1)] assms(2)
    by (intro leads_one[OF assms(1) send_writes[OF assms(2) w]]) auto
  then show ?thesis by (rule leads_then) (rule call_unlocked)
qed

lemma lock_released:
  assumes "closing i s"
  shows "leads i s (\<lambda>t. th_write_mu t = None)"
proof (cases "th_write_mu s")
  case None
  then show ?thesis by (rule leads_now[OF assms])
next
  case (Some h)
  then have h: "holds s h" using closingD(1)[OF assms] by (simp add: mutex_ok_def)
  show ?thesis
  proof (cases h)
    case Pinger
    show ?thesis
    proof (cases "th_ping s = PInWrite")
      case True
      obtain r c where w: "conn_write (\<lambda>_. None) PingFrame (th_client s) = (r, c)" by fastforce
      have "leads i s (\<lambda>t. th_ping t = PWrote r)"
        using closingD(3,4)[OF assms] by (intro leads_one[OF assms ping_writes[OF True w]]) simp_all
      then show ?thesis by (rule leads_then) (rule ping_unlocked)
    next
      case False
      with h Pinger ping_unlocked[OF assms] show ?thesis by auto
    qed
  next
    case (Caller j)
    with h call_writes[OF assms] call_unlocked[OF assms] have
      "leads i s (\<lambda>t. th_write_mu t = None \<and> th_call t j = NoCall)" by auto
    then show ?thesis by (rule leads_then) (rule leads_now, simp_all)
  qed
qed

text \<open>So a callback's own \<open>Send\<close> returns, and then the callback can.\<close>

lemma callback_free:
  assumes "closing i s"
  shows "leads i s (\<lambda>t. th_call t 0 = NoCall)"
proof (rule leads_then[OF lock_released[OF assms]])
  fix t assume t: "closing i t" "th_write_mu t = None"
  have free: "\<not> holds t (Caller 0)" 
    using holder_of[OF closingD(1)[OF t(1)]] t(2) by (metis option.distinct(1))
  show "leads i t (\<lambda>t. th_call t 0 = NoCall)"
  proof (cases "th_call t 0")
    case NoCall
    then show ?thesis by (rule leads_now[OF t(1)])
  next
    case (HasConn m)
    have "leads i t (\<lambda>t. th_call t 0 = InWrite m)"
      using closingD(3,5)[OF t(1)] by (intro leads_one[OF t(1) send_locks[OF HasConn t(2)]]) simp_all
    then have "leads i t (\<lambda>t. th_write_mu t = None \<and> th_call t 0 = NoCall)"
      by (rule leads_then) (rule call_writes)
    then show ?thesis by (rule leads_then) (rule leads_now, simp_all)
  qed (use free closingD(4)[OF t(1)] in auto)
qed

lemma pump_done:
  assumes "closing i s" "th_call s 0 = NoCall"
  shows "leads i s (\<lambda>t. ws_done (th_client t))"
proof -
  note c = closing_cancelled[OF assms(1)] and p = closingD(2)[OF assms(1)]
  have top: "leads i t (\<lambda>t. ws_done (th_client t))" if "closing i t" "th_read t = RTop" for t
    using that closingD(3,4)[OF that(1)] pump_exits_ok[OF closingD(2)[OF that(1)]]
    by (intro leads_one[OF that(1) read_stops[OF that(2) closing_cancelled[OF that(1)]]]) simp_all
  show ?thesis
  proof (cases "th_read s")
    case RTop
    then show ?thesis by (rule top[OF assms(1)])
  next
    case RReading
    then show ?thesis
      using closingD(3,4)[OF assms(1)] pump_exits_ok[OF p]
      by (intro leads_one[OF assms(1) read_fails[OF RReading]]) simp_all
  next
    case (RCalling cb)
    have "leads i s (\<lambda>t. th_read t = RTop)"
      using closingD(3,4)[OF assms(1)]
      by (intro leads_one[OF assms(1) callback_returns[OF RCalling assms(2)]]) simp_all
    then show ?thesis by (rule leads_then) (rule top)
  next
    case RReturned
    then show ?thesis using p by (intro leads_now[OF assms(1)]) (simp add: pump_ok_def)
  qed
qed

lemma closing_returns:
  assumes "closing i s"
  shows "\<exists>t. thread_runs s t \<and> th_call t i = NoCall \<and> (i, Closed) \<in> set (th_results t)"
proof -
  have "leads i s (\<lambda>t. ws_done (th_client t))"
    by (rule leads_then[OF callback_free[OF assms]]) (rule pump_done)
  then obtain t where t: "thread_runs s t" "closing i t" "ws_done (th_client t)" unfolding leads_def by blast
  let ?u = "set_call i NoCall (t\<lparr>th_results := th_results t @ [(i, Closed)]\<rparr>)"
  have "thread_step t ?u" by (rule close_returns[OF closingD(3)[OF t(2)] t(3)])
  then have "thread_runs s ?u" using t(1) by (rule rtranclp.rtrancl_into_rtrancl[rotated])
  then show ?thesis by (intro exI[of _ ?u]) simp
qed

text \<open>A callback inside \<open>Close\<close> waits for its own goroutine, and every other \<open>Close\<close> with it.\<close>

lemma callback_stuck_step:
  assumes "thread_step s t" "threads_ok s" "in_close (th_call s 0)"
  shows "in_close (th_call t 0) \<and> th_read t = th_read s \<and> \<not> ws_done (th_client t) \<and>
    (\<forall>i. th_call s i = AwaitingDone \<longrightarrow> th_call t i = AwaitingDone)"
proof -
  obtain cb where cb: "th_read s = RCalling cb" "\<not> ws_done (th_client s)"
    using assms(2,3) by (auto simp: threads_ok_def pump_ok_def in_close_def)
  have other: "0 < i" if "\<not> in_close (th_call s i)" for i using assms(3) that by (metis gr0I)
  show ?thesis
    using assms(1)
    by cases (use assms(3) cb conn_write_same other in \<open>auto simp: may_call_def\<close>)
qed

lemma stuck_runs:
  assumes "thread_runs s t" "threads_ok s" "in_close (th_call s 0)"
  shows "in_close (th_call t 0) \<and> th_read t = th_read s \<and> \<not> ws_done (th_client t) \<and>
    (\<forall>i. th_call s i = AwaitingDone \<longrightarrow> th_call t i = AwaitingDone)"
  using assms
proof (induction rule: rtranclp_induct)
  case base
  then show ?case by (auto simp: threads_ok_def pump_ok_def in_close_def)
next
  case (step t u)
  then show ?case using callback_stuck_step[OF step.hyps(2) threads_runs[OF step.hyps(1)]] by metis
qed

end
