(* ===== verification/ThreadProps.thy ===== *)
theory ThreadProps
  imports ClientThreads Wire
begin

text \<open>
  The properties of the client's goroutines under every interleaving.
\<close>

section \<open>Writing\<close>

text \<open>C12: However the pumps and the application's calls interleave, at most one goroutine writes
  to the connection at a time, so the connection never panics; \<open>done\<close> is closed once, by the
  read pump; and the messages on the socket are exactly those whose \<open>Send\<close> reported success, in
  the order of the reports, but for the one write that is still to be reported.\<close>

theorem writes_serialised:
  assumes "threads_reachable s"
  shows "\<not> th_crashed s \<and> (\<forall>h h'. writing s h \<longrightarrow> writing s h' \<longrightarrow> h = h') \<and>
    (ws_done (th_client s) \<longleftrightarrow> th_read s = RReturned) \<and>
    text_frames (th_client s) = map frame_of (sent_ok (th_results s) @ unreported s) \<and>
    length (unreported s) \<le> 1 \<and> (unreported s \<noteq> [] \<longrightarrow> (\<forall>h. \<not> writing s h))"
proof (intro conjI allI impI)
  note ok = threads_reachable_ok[OF assms, unfolded threads_ok_def]
  show "\<not> th_crashed s" "ws_done (th_client s) \<longleftrightarrow> th_read s = RReturned" using ok by (simp_all add: pump_ok_def)
  show "h = h'" if "writing s h" "writing s h'" for h h' using one_writer that ok by blast
  show "text_frames (th_client s) = map frame_of (sent_ok (th_results s) @ unreported s)"
    using ok by (simp add: frames_ok_def)
  show "length (unreported s) \<le> 1"
    by (simp add: unreported_def split: option.split holder.split call_pc.split sum.split)
  show "\<not> writing s h" if "unreported s \<noteq> []" for h
    using that writing_elsewhere[OF conjunct1[OF ok]] by blast
qed

section \<open>Closing\<close>

text \<open>C13: A \<open>Close\<close> that waits for the read pump can return exactly when no callback is itself
  inside \<open>Close\<close>, wherever the other goroutines are; and from then on at most one more
  callback is made, that of a read that was under way.\<close>

theorem close_returns_iff:
  assumes "threads_reachable s" "th_call s i = AwaitingDone"
  shows "(\<exists>t. thread_step\<^sup>*\<^sup>* s t \<and> th_call t i = NoCall) = (\<not> in_close (th_call s 0)) \<and>
    (\<forall>t. thread_step\<^sup>*\<^sup>* s t \<longrightarrow> length (th_callbacks t) \<le> length (th_callbacks s) + 1)"
proof (intro conjI allI impI iffI)
  note ok = threads_reachable_ok[OF assms(1)]
  show "\<not> in_close (th_call s 0)" if "\<exists>t. thread_step\<^sup>*\<^sup>* s t \<and> th_call t i = NoCall"
    using that stuck_runs[OF _ ok] assms(2) by (metis call_pc.distinct(9))
  show "\<exists>t. thread_step\<^sup>*\<^sup>* s t \<and> th_call t i = NoCall" if n: "\<not> in_close (th_call s 0)"
  proof -
    have "i \<noteq> 0" using n assms(2) by (metis in_close_simps(2))
    then have "closing i s" using n ok assms(2) by (simp add: closing_def)
    then show ?thesis using closing_returns by blast
  qed
  fix t assume t: "thread_step\<^sup>*\<^sup>* s t"
  have "ws_cancelled (th_client s)" using ok assms(2) by (auto simp: threads_ok_def pump_ok_def)
  from cancelled_runs[OF t this ok] show "length (th_callbacks t) \<le> length (th_callbacks s) + 1"
    by (simp add: reads_left_def split: if_splits)
qed

text \<open>C32: A callback that calls \<open>Close\<close> stops its client for ever: the callback never returns,
  \<open>done\<close> is never closed, and no \<open>Close\<close> that anyone has called ever returns.\<close>

theorem close_in_callback:
  assumes "threads_reachable s" "th_read s = RCalling cb" "th_call s 0 = NoCall"
    and "s' = set_call 0 Cancelling (s\<lparr>th_client := cancel (th_client s)\<rparr>)" "thread_step\<^sup>*\<^sup>* s' t"
  shows "thread_step s s' \<and> th_read t = RCalling cb \<and> \<not> ws_done (th_client t) \<and> th_call t 0 \<noteq> NoCall \<and>
    (\<forall>i u. th_call t i = AwaitingDone \<longrightarrow> thread_step\<^sup>*\<^sup>* t u \<longrightarrow> th_call u i = AwaitingDone)"
proof -
  have step: "thread_step s s'"
    unfolding assms(4) by (rule close_cancels) (use assms(2,3) in \<open>simp add: may_call_def\<close>)
  have ok: "threads_ok s'" by (rule threads_step[OF step threads_reachable_ok[OF assms(1)]])
  have "in_close (th_call s' 0)" "th_read s' = RCalling cb" using assms(2,4) by simp_all
  with stuck_runs[OF assms(5) ok] have t: "in_close (th_call t 0)" "th_read t = RCalling cb" "\<not> ws_done (th_client t)"
    by auto
  moreover have "th_call u i = AwaitingDone" if "th_call t i = AwaitingDone" "thread_step\<^sup>*\<^sup>* t u" for i u
    using stuck_runs[OF that(2) threads_runs[OF assms(5) ok] t(1)] that(1) by blast
  ultimately show ?thesis using step by auto
qed

section \<open>Witnesses\<close>

definition dialled :: ws_client where
  "dialled = (SetHandler (NewWebSocketClient (DefaultConfig ''ws://h/ws'')))
     \<lparr>ws_connection := Some \<lparr>written = [], conn_open = True\<rparr>\<rparr>"

lemma dialled_connected: "just_connected dialled"
  by (simp add: just_connected_def dialled_def SetHandler_def NewWebSocketClient_def)

definition ping_pong :: message where
  "ping_pong = \<lparr>m_type = MsgSignal, m_from = ''a1'', m_to = ''b2'', m_data = Some JNull, m_timestamp = 0\<rparr>"

lemma in_callback:
  "\<exists>s. threads_reachable s \<and> th_read s = RCalling (CallHandler (ws_view ping_pong)) \<and> th_call s = (\<lambda>_. NoCall) \<and>
     th_write_mu s = None \<and> ws_connection (th_client s) = Some \<lparr>written = [], conn_open = True\<rparr>"
proof -
  let ?a = "start_threads dialled"
  let ?b = "?a\<lparr>th_read := RReading\<rparr>"
  let ?c = "text_read (Some (enc_message ping_pong)) ?b"
  have a: "thread_step ?a ?b"
    by (rule read_goes_on) (simp_all add: start_threads_def dialled_def SetHandler_def NewWebSocketClient_def)
  have b: "thread_step ?b ?c" by (rule read_text) simp
  have "message_ok ping_pong" by (simp add: message_ok_def ping_pong_def in_int_def)
  then have dec: "dec_ws_message (enc_message ping_pong) = Inr (ws_view ping_pong)" by (rule to_client.dec_enc)
  have "th_read ?c = RCalling (CallHandler (ws_view ping_pong))"
  proof -
    have "t_type (ws_view ping_pong) = MsgSignal" by (simp add: ws_view_def ping_pong_def)
    then have "handleMessage (ws_view ping_pong) dialled = (dialled, Some (CallHandler (ws_view ping_pong)))"
      by (simp add: handleMessage_def ws_type_defs) (simp add: dialled_def SetHandler_def)
    then show ?thesis by (simp add: text_read_def dec unmarshal_raw_def start_threads_def)
  qed
  moreover have "threads_reachable ?c"
    unfolding threads_reachable_def using dialled_connected a b by (meson rtranclp.rtrancl_into_rtrancl rtranclp.rtrancl_refl)
  ultimately show ?thesis
    by (intro exI[of _ ?c]) (simp add: start_threads_def dialled_def)
qed

theorem writes_serialised_witness:
  "\<exists>s. threads_reachable s \<and> th_read s = RCalling (CallHandler (ws_view ping_pong)) \<and> \<not> th_crashed s \<and>
     text_frames (th_client s) = map frame_of (sent_ok (th_results s) @ unreported s)"
  using in_callback writes_serialised by blast

lemma threads_reachable_step: "threads_reachable s \<Longrightarrow> thread_step s t \<Longrightarrow> threads_reachable t"
  unfolding threads_reachable_def by (meson rtranclp.rtrancl_into_rtrancl)

theorem close_returns_iff_witness:
  "\<exists>s t. threads_reachable s \<and> th_call s 1 = AwaitingDone \<and> thread_step\<^sup>*\<^sup>* s t \<and> th_call t 1 = NoCall"
proof -
  obtain s where s: "threads_reachable s" "th_call s = (\<lambda>_. NoCall)" using in_callback by blast
  let ?a = "set_call 1 Cancelling (s\<lparr>th_client := cancel (th_client s)\<rparr>)"
  let ?b = "set_call 1 AwaitingDone (?a\<lparr>th_client := close_conn (th_client ?a)\<rparr>)"
  have "thread_step s ?a" by (rule close_cancels) (simp add: may_call_def s(2))
  moreover have "thread_step ?a ?b" by (rule close_closes) simp
  ultimately have b: "threads_reachable ?b" using s(1) by (blast intro: threads_reachable_step)
  have "th_call ?b 1 = AwaitingDone" "\<not> in_close (th_call ?b 0)" using s(2) by simp_all
  with close_returns_iff[OF b this(1)] b show ?thesis by blast
qed

theorem close_in_callback_witness:
  "\<exists>s s'. threads_reachable s \<and> thread_step s s' \<and> th_call s' 0 = Cancelling \<and>
     (\<forall>t. thread_step\<^sup>*\<^sup>* s' t \<longrightarrow> \<not> ws_done (th_client t))"
proof -
  obtain s where s: "threads_reachable s" "th_read s = RCalling (CallHandler (ws_view ping_pong))"
      "th_call s = (\<lambda>_. NoCall)"
    using in_callback by blast
  let ?a = "set_call 0 Cancelling (s\<lparr>th_client := cancel (th_client s)\<rparr>)"
  have c: "th_call s 0 = NoCall" using s(3) by simp
  have "th_call ?a 0 = Cancelling" by simp
  with close_in_callback[OF s(1,2) c refl] s(1) show ?thesis by blast
qed

end
