(* ===== verification/JsonRoundtrip.thy ===== *)
theory JsonRoundtrip
  imports JsonText
begin

text \<open>
  \<open>marshal_text\<close> writes a value, \<open>unmarshal_text\<close> reads a text, and reading what was written
  gives the value back, coerced to UTF-8. The lemmas follow the grammar: strings chunk by
  chunk, numbers part by part, then values by induction.
\<close>

section \<open>Strings\<close>

lemma prepend_simps [simp]:
  "prepend p (Some (s, r)) = Some (p @ s, r)" "prepend p None = None" "prepend [] x = x"
  "prepend p (prepend q x) = prepend (p @ q) x"
  by (cases x; auto simp: prepend_def)+

lemma body_quote [simp]: "string_body (quote_char # r) = Some ([], r)"
  by (subst string_body.simps) simp

lemma quote_not_backslash [simp]: "quote_char \<noteq> backslash" "backslash \<noteq> quote_char"
  by (simp_all add: quote_char_def backslash_def)

lemma body_raw:
  assumes "rune_size s = n" "n \<noteq> 0" "32 \<le> byte (hd s)" "hd s \<noteq> quote_char" "hd s \<noteq> backslash"
  shows "string_body s = prepend (take n s) (string_body (drop n s))"
  using assms by (cases s) (subst string_body.simps, simp)+

lemma hex_val_char [simp]: "d < 16 \<Longrightarrow> hex_val (hex_char d) = Some d"
  by (auto simp: hex_val_def hex_char_def digit_char_def of_char_of)

lemma encode_ascii [simp]: "v < 128 \<Longrightarrow> encode_rune v = [char_of v]"
  by (simp add: encode_rune_def)

lemma unescape_u:
  assumes "hex4 s = Some (v, r)" "v < 0xD800 \<or> 0xE000 \<le> v"
  shows "unescape (CHR ''u'' # s) = Some (encode_rune v, r)"
  using assms by (auto simp: unescape_def quote_char_def backslash_def)

lemma hex4_u_escape: "b < 128 \<Longrightarrow> hex4 (CHR ''0'' # CHR ''0'' # hex_char (b div 16) # hex_char (b mod 16) # r) = Some (b, r)"
proof -
  assume "b < 128"
  then have "b div 16 < 16" by simp
  moreover have "hex_val (CHR ''0'') = Some 0" by (simp add: hex_val_def)
  ultimately show ?thesis by (simp add: hex4_def)
qed

lemma hex4_lits:
  "hex4 (''fffd'' @ r) = Some (0xFFFD, r)" "hex4 (''2028'' @ r) = Some (0x2028, r)"
  "hex4 (''2029'' @ r) = Some (0x2029, r)"
  by (simp_all add: hex4_def hex_val_def)

lemma encode_lits:
  "encode_rune 0xFFFD = replacement" "encode_rune 0x2028 = line_sep" "encode_rune 0x2029 = par_sep"
  by (simp_all add: encode_rune_def replacement_def line_sep_def par_sep_def char_of_eq_iff)

lemma body_u_lits:
  "string_body (backslash # ''ufffd'' @ r) = prepend replacement (string_body r)"
  "string_body (backslash # ''u2028'' @ r) = prepend line_sep (string_body r)"
  "string_body (backslash # ''u2029'' @ r) = prepend par_sep (string_body r)"
  using unescape_u[OF hex4_lits(1)[of r]] unescape_u[OF hex4_lits(2)[of r]] unescape_u[OF hex4_lits(3)[of r]]
  by (simp_all add: string_body_escape encode_lits)

lemma body_u_escape: "byte c < 128 \<Longrightarrow> string_body (u_escape (byte c) @ r) = prepend [c] (string_body r)"
  using unescape_u[OF hex4_u_escape[of "byte c" r]]
  by (simp add: u_escape_def string_body_escape)

lemma body_char:
  assumes "byte c < 128"
  shows "string_body (escape_char c @ r) = prepend [c] (string_body r)"
proof (cases "escape_char c = [c]")
  case True
  then have c: "c \<noteq> quote_char" "c \<noteq> backslash" "32 \<le> byte c"
    by (auto simp: escape_char_def u_escape_def split: if_splits)
  have "string_body (c # r) = prepend (take 1 (c # r)) (string_body (drop 1 (c # r)))"
    by (rule body_raw) (use c assms in simp_all)
  with True show ?thesis by simp
next
  case False
  show ?thesis
  proof (cases "escape_char c = u_escape (byte c)")
    case True
    with body_u_escape[OF assms] show ?thesis by simp
  next
    case nu: False
    then obtain e where "escape_char c = [backslash, e]" "unescape (e # r) = Some ([c], r)"
      using False by (auto simp: escape_char_def unescape_def quote_char_def backslash_def split: if_splits)
    then show ?thesis by (simp add: string_body_escape)
  qed
qed

lemma rune_single: "is_rune [c] \<Longrightarrow> byte c < 128"
  by (auto simp: is_rune_def rune_size.simps(2) lead_size_def Let_def split: if_splits)

lemma rune_long: "is_rune (c # d # cs) \<Longrightarrow> 128 \<le> byte c"
  by (auto simp: is_rune_def rune_size.simps(2) lead_size_def Let_def split: if_splits)

lemma body_chunk:
  assumes "is_rune ch \<or> bad_byte ch"
  shows "string_body (escape_chunk ch @ r) = prepend (coerce_chunk ch) (string_body r)"
proof (cases "is_rune ch")
  case False
  then show ?thesis using body_u_lits(1)[of r] by (simp add: escape_chunk_def coerce_chunk_def)
next
  case rune: True
  show ?thesis
  proof (cases "ch = line_sep \<or> ch = par_sep")
    case True
    then show ?thesis using body_u_lits(2,3)[of r] rune
      by (auto simp: escape_chunk_def coerce_chunk_def)
  next
    case False
    obtain c cs where ch: "ch = c # cs" using rune by (cases ch) (auto simp: is_rune_def)
    show ?thesis
    proof (cases cs)
      case Nil
      then show ?thesis using rune False ch body_char[OF rune_single, of c r]
        by (simp add: escape_chunk_def coerce_chunk_def)
    next
      case (Cons d ds)
      have c: "128 \<le> byte c" by (rule rune_long) (use rune ch Cons in simp)
      have "string_body (ch @ r) = prepend (take (length ch) (ch @ r)) (string_body (drop (length ch) (ch @ r)))"
        by (rule body_raw[OF is_rune_append[OF rune]])
           (use c ch in \<open>auto simp: quote_char_def backslash_def\<close>)
      then show ?thesis using rune False ch Cons by (simp add: escape_chunk_def coerce_chunk_def)
    qed
  qed
qed

lemma body_quoted: "string_body (concat (map escape_chunk (chunks s)) @ quote_char # r) = Some (coerce s, r)"
proof -
  have "string_body (concat (map escape_chunk cs) @ quote_char # r) = Some (concat (map coerce_chunk cs), r)"
    if "\<forall>ch \<in> set cs. is_rune ch \<or> bad_byte ch" for cs
    using that by (induction cs) (simp_all add: body_chunk)
  then show ?thesis using chunks_kinds by (simp add: coerce_def)
qed

section \<open>Numbers\<close>

text \<open>A number ends where the text does, or before a comma or a closing bracket.\<close>

definition ends :: "string \<Rightarrow> bool" where
  "ends r \<longleftrightarrow> (case r of [] \<Rightarrow> True | c # _ \<Rightarrow> c = CHR '','' \<or> c = CHR '']'' \<or> c = CHR ''}'')"

lemma ends_simps [simp]:
  "ends []" "ends (CHR '','' # r)" "ends (CHR '']'' # r)" "ends (CHR ''}'' # r)"
  by (simp_all add: ends_def)

lemma ends_digit: "ends (c # r) \<Longrightarrow> \<not> is_digit c"
  by (auto simp: ends_def digit_val_def)

lemma digit_run_append:
  "(dropWhile is_digit s = [] \<Longrightarrow> ends r) \<Longrightarrow> digit_run (s @ r) = (takeWhile is_digit s, dropWhile is_digit s @ r)"
proof (induction s)
  case Nil
  then show ?case using ends_digit by (cases r) auto
qed auto

lemma scan_exp_append:
  assumes "scan_exp s = Some (e, [])" "ends r"
  shows "scan_exp (s @ r) = Some (e, r)"
proof (cases s)
  case Nil
  then show ?thesis using assms by (auto simp: scan_exp_def ends_def split: list.splits)
next
  case (Cons c t)
  then have c: "c = CHR ''e'' \<or> c = CHR ''E''" using assms(1) by (auto simp: scan_exp_def split: if_splits)
  obtain g u where g: "exp_sign t = (g, u)" by fastforce
  then have u: "takeWhile is_digit u \<noteq> []" "dropWhile is_digit u = []" "e = c # g @ takeWhile is_digit u"
    using assms(1) Cons c by (auto simp: scan_exp_def split: if_splits)
  have "exp_sign (t @ r) = (g, u @ r)"
  proof (cases t)
    case Nil
    then show ?thesis using g u(1) by (simp add: exp_sign_def)
  qed (use g in \<open>auto simp: exp_sign_def split: if_splits\<close>)
  then show ?thesis using Cons c u digit_run_append[of u r] assms(2) by (auto simp: scan_exp_def)
qed

lemma scan_frac_append:
  assumes "scan_frac s = Some (f, t)" "t = [] \<Longrightarrow> ends r"
  shows "scan_frac (s @ r) = Some (f, t @ r)"
proof (cases s)
  case Nil
  then show ?thesis using assms by (auto simp: scan_frac_def ends_def split: list.splits)
next
  case (Cons c u)
  then show ?thesis using assms digit_run_append[of u r]
    by (auto simp: scan_frac_def split: if_splits)
qed

lemma scan_whole_append:
  assumes "scan_whole s = Some (w, t)" "t = [] \<Longrightarrow> ends r"
  shows "scan_whole (s @ r) = Some (w, t @ r)"
  using assms digit_run_append[of s r]
  by (cases s) (auto simp: scan_whole_def split: if_splits)

lemma scan_sign_append: "scan_sign s = (g, t) \<Longrightarrow> s \<noteq> [] \<Longrightarrow> scan_sign (s @ r) = (g, t @ r)"
  by (cases s) (auto simp: scan_sign_def split: if_splits)

definition is_number :: "string \<Rightarrow> bool" where
  "is_number s \<longleftrightarrow> scan_number s = Some (s, [])"

lemma scan_number_append:
  assumes "is_number s" "ends r"
  shows "scan_number (s @ r) = Some (s, r)"
proof -
  obtain g s1 where g: "scan_sign s = (g, s1)" by fastforce
  with assms(1) obtain w s2 f s3 e where parts: "scan_whole s1 = Some (w, s2)" "scan_frac s2 = Some (f, s3)"
      "scan_exp s3 = Some (e, [])" "s = g @ w @ f @ e"
    by (auto simp: is_number_def scan_number_def split: option.splits)
  have "s \<noteq> []" using g parts(1) by (auto simp: scan_sign_def scan_whole_def)
  then show ?thesis
    using scan_sign_append[OF g] scan_whole_append[OF parts(1)] scan_frac_append[OF parts(2)]
      scan_exp_append[OF parts(3)] assms(2) parts(4)
    by (simp add: scan_number_def)
qed

lemma is_number_first:
  assumes "is_number s"
  obtains c t where "s = c # t" "is_digit c \<or> c = CHR ''-''"
proof -
  have "s \<noteq> []" using assms by (auto simp: is_number_def scan_number_def scan_sign_def scan_whole_def)
  then obtain c t where s: "s = c # t" by (cases s) auto
  have "is_digit c \<or> c = CHR ''-''"
    using assms unfolding s
    by (auto simp: is_number_def scan_number_def scan_sign_def scan_whole_def digit_val_def split: if_splits)
  with s that show thesis by blast
qed

text \<open>Integers print as numbers: no leading zeros.\<close>

lemma digits_no_zero: "n \<noteq> 0 \<Longrightarrow> hd (digits n) \<noteq> CHR ''0''"
proof (induction n rule: digits.induct)
  case (1 n)
  show ?case
  proof (cases "n < 10")
    case True
    have "digit_val (CHR ''0'') = Some 0" by (simp add: digit_val_def)
    moreover have "digit_val (digit_char n) = Some n" using True by (rule digit_val_char)
    ultimately have "digit_char n \<noteq> CHR ''0''" using "1.prems" by (metis option.inject)
    with True show ?thesis by (simp add: digits.simps[of n])
  next
    case False
    with "1.IH" show ?thesis by (simp add: digits.simps[of n])
  qed
qed

lemma scan_whole_digits: "scan_whole (digits n) = Some (digits n, [])"
proof (cases "n = 0")
  case True
  have "digits 0 = ''0''" by (simp add: digits.simps digit_char_def char_of_eq_iff)
  with True show ?thesis by (simp add: scan_whole_def)
next
  case False
  obtain c cs where d: "digits n = c # cs" by (cases "digits n") auto
  have "c \<noteq> CHR ''0''" using digits_no_zero[OF False] d by simp
  moreover have all: "\<forall>c \<in> set (digits n). is_digit c" using digits_are_digits by blast
  moreover have "takeWhile is_digit (digits n) = digits n" "dropWhile is_digit (digits n) = []"
    using all by (simp_all add: takeWhile_eq_all_conv)
  ultimately show ?thesis by (simp add: scan_whole_def d split: if_splits)
qed

lemma is_number_itoa: "is_number (itoa i)"
proof -
  have d: "scan_sign (digits n) = ([], digits n)" for n
  proof -
    obtain c cs where "digits n = c # cs" by (cases "digits n") auto
    moreover have "is_digit c" using hd_digits[of n] calculation by simp
    ultimately show ?thesis by (auto simp: scan_sign_def digit_val_def)
  qed
  show ?thesis
    by (simp add: itoa_def is_number_def scan_number_def d scan_whole_digits scan_frac_def scan_exp_def)
       (simp add: scan_sign_def scan_whole_digits scan_frac_def scan_exp_def)
qed

section \<open>Writing values\<close>

fun commas :: "string list \<Rightarrow> string" where
  "commas [] = []"
| "commas [x] = x"
| "commas (x # xs) = x @ '','' @ commas xs"

definition member_text :: "string \<times> string \<Rightarrow> string" where
  "member_text m = quote (fst m) @ '':'' @ snd m"

primrec marshal_text :: "json \<Rightarrow> string" where
  "marshal_text JNull = ''null''"
| "marshal_text (JBool b) = (if b then ''true'' else ''false'')"
| "marshal_text (JNum l) = l"
| "marshal_text (JStr s) = quote s"
| "marshal_text (JArr js) = ''['' @ commas (map marshal_text js) @ '']''"
| "marshal_text (JObj ms) = ''{'' @ commas (map member_text (map (map_prod id marshal_text) ms)) @ ''}''"

primrec coerced :: "json \<Rightarrow> json" where
  "coerced JNull = JNull"
| "coerced (JBool b) = JBool b"
| "coerced (JNum l) = JNum l"
| "coerced (JStr s) = JStr (coerce s)"
| "coerced (JArr js) = JArr (map coerced js)"
| "coerced (JObj ms) = JObj (map (map_prod coerce coerced) ms)"

text \<open>A value that \<open>json.Marshal\<close> can have been given: its number literals are numbers.\<close>

primrec numbers_ok :: "json \<Rightarrow> bool" where
  "numbers_ok JNull = True"
| "numbers_ok (JBool b) = True"
| "numbers_ok (JNum l) = is_number l"
| "numbers_ok (JStr s) = True"
| "numbers_ok (JArr js) = list_all id (map numbers_ok js)"
| "numbers_ok (JObj ms) = list_all snd (map (map_prod id numbers_ok) ms)"

primrec strings_ok :: "json \<Rightarrow> bool" where
  "strings_ok JNull = True"
| "strings_ok (JBool b) = True"
| "strings_ok (JNum l) = True"
| "strings_ok (JStr s) = valid_utf8 s"
| "strings_ok (JArr js) = list_all id (map strings_ok js)"
| "strings_ok (JObj ms) = list_all (\<lambda>m. valid_utf8 (fst m) \<and> snd m) (map (map_prod id strings_ok) ms)"

primrec nesting :: "json \<Rightarrow> nat" where
  "nesting JNull = 0"
| "nesting (JBool b) = 0"
| "nesting (JNum l) = 0"
| "nesting (JStr s) = 0"
| "nesting (JArr js) = Suc (fold max (map nesting js) 0)"
| "nesting (JObj ms) = Suc (fold max (map snd (map (map_prod id nesting) ms)) 0)"

text \<open>\<open>maxNestingDepth\<close>, and \<open>Unmarshal\<close>: one value with white space around it.\<close>

definition max_nesting :: nat where
  "max_nesting = 10000"

definition unmarshal_text :: "string \<Rightarrow> json option" where
  "unmarshal_text s =
     (case parse_value max_nesting s of
        None \<Rightarrow> None
      | Some (j, r) \<Rightarrow> if skip_ws r = [] then Some j else None)"

section \<open>Reading what was written\<close>

lemma fold_max_le: "fold max xs a \<le> d \<longleftrightarrow> a \<le> d \<and> (\<forall>x \<in> set xs. x \<le> d)" for d :: nat
  by (induction xs arbitrary: a) auto

lemma skip_ws_token [simp]: "\<not> is_ws c \<Longrightarrow> skip_ws (c # r) = c # r"
  by (simp add: skip_ws_def)

lemma not_ws [simp]:
  "\<not> is_ws quote_char" "\<not> is_ws (CHR '','')" "\<not> is_ws (CHR ''['')" "\<not> is_ws (CHR '']'')"
  "\<not> is_ws (CHR ''{'')" "\<not> is_ws (CHR ''}'')" "\<not> is_ws (CHR '':'')"
  by (simp_all add: is_ws_def quote_char_def)

text \<open>What a written value begins with.\<close>

definition opens :: "string \<Rightarrow> bool" where
  "opens s \<longleftrightarrow> s \<noteq> [] \<and> \<not> is_ws (hd s) \<and> hd s \<noteq> CHR '']'' \<and> hd s \<noteq> CHR ''}''"

lemma opens_text: "numbers_ok j \<Longrightarrow> opens (marshal_text j)"
proof (cases j)
  case (JNum l)
  assume "numbers_ok j"
  with JNum obtain c t where "l = c # t" "is_digit c \<or> c = CHR ''-''"
    using is_number_first by (metis numbers_ok.simps(3))
  then show ?thesis using JNum by (auto simp: opens_def is_ws_def digit_val_def)
qed (auto simp: opens_def is_ws_def quote_def quote_char_def)

lemma skip_ws_opens: "opens s \<Longrightarrow> skip_ws (s @ r) = s @ r"
  by (cases s) (simp_all add: opens_def)

lemma scalar_number:
  assumes "is_number l" "ends r"
  shows "scalar (l @ r) = Some (JNum l, r)"
proof -
  obtain c t where l: "l = c # t" "is_digit c \<or> c = CHR ''-''" using is_number_first[OF assms(1)] by blast
  then have "strip ''null'' (l @ r) = None" "strip ''true'' (l @ r) = None" "strip ''false'' (l @ r) = None"
    by (auto simp: strip_def digit_val_def)
  then show ?thesis using scan_number_append[OF assms] by (simp add: scalar_def)
qed

lemma scalar_names:
  "scalar (''null'' @ r) = Some (JNull, r)" "scalar (''true'' @ r) = Some (JBool True, r)"
  "scalar (''false'' @ r) = Some (JBool False, r)"
  by (simp_all add: scalar_def strip_def)

lemma parse_scalar:
  assumes "opens s" "hd s \<noteq> quote_char" "hd s \<noteq> CHR ''[''" "hd s \<noteq> CHR ''{''"
  shows "parse_value d (s @ r) = scalar (s @ r)"
proof -
  obtain c t where s: "s = c # t" "\<not> is_ws c" using assms(1) by (cases s) (auto simp: opens_def)
  show ?thesis using assms s by (subst parse_value.simps) simp
qed

lemma parse_quoted: "parse_value d (quote s @ r) = Some (JStr (coerce s), r)"
  by (subst parse_value.simps) (simp add: quote_def body_quoted)

text \<open>The elements of an array, once each of them is read back.\<close>

definition reads_back :: "nat \<Rightarrow> json \<Rightarrow> bool" where
  "reads_back d j \<longleftrightarrow> opens (marshal_text j) \<and>
     (\<forall>r. ends r \<longrightarrow> parse_value d (marshal_text j @ r) = Some (coerced j, r))"

lemma reads_backD: "reads_back d j \<Longrightarrow> ends r \<Longrightarrow> parse_value d (marshal_text j @ r) = Some (coerced j, r)"
  by (simp add: reads_back_def)

lemma commas_Cons: "xs \<noteq> [] \<Longrightarrow> commas (x # xs) = x @ '','' @ commas xs"
  by (cases xs) simp_all

lemma parse_elems_text:
  "js \<noteq> [] \<Longrightarrow> \<forall>j \<in> set js. reads_back d j \<Longrightarrow>
   parse_elems d (commas (map marshal_text js) @ CHR '']'' # r) = Some (map coerced js, r)"
proof (induction js rule: list_nonempty_induct)
  case (single j)
  then show ?case
    by (subst parse_elems.simps) (simp add: reads_backD)
next
  case (cons j js)
  then have "parse_elems d (commas (map marshal_text js) @ CHR '']'' # r) = Some (map coerced js, r)"
    by simp
  moreover have "reads_back d j" using cons.prems by simp
  ultimately show ?case
    using cons.hyps by (subst parse_elems.simps) (simp add: reads_backD commas_Cons)
qed

lemma parse_members_text:
  "ms \<noteq> [] \<Longrightarrow> \<forall>m \<in> set ms. reads_back d (snd m) \<Longrightarrow>
   parse_members d (commas (map member_text (map (map_prod id marshal_text) ms)) @ CHR ''}'' # r) =
     Some (map (map_prod coerce coerced) ms, r)"
proof (induction ms rule: list_nonempty_induct)
  case (single m)
  then show ?case
    by (cases m, subst parse_members.simps) (simp add: reads_backD member_text_def quote_def body_quoted)
next
  case (cons m ms)
  obtain k j where m: "m = (k, j)" by (cases m) auto
  define t where "t = commas (map member_text (map (map_prod id marshal_text) ms)) @ CHR ''}'' # r"
  have t: "parse_members d t = Some (map (map_prod coerce coerced) ms, r)"
    unfolding t_def by (rule cons.IH) (use cons.prems in simp)
  have "commas (map member_text (map (map_prod id marshal_text) (m # ms))) @ CHR ''}'' # r =
      quote_char # concat (map escape_chunk (chunks k)) @ quote_char # CHR '':'' # marshal_text j @ CHR '','' # t"
    using cons.hyps m by (simp add: commas_Cons t_def member_text_def quote_def)
  moreover have "reads_back d j" using cons.prems m by simp
  ultimately show ?case
    by (simp only:, subst parse_members.simps) (simp add: reads_backD body_quoted t m)
qed

lemma opens_commas: "xs \<noteq> [] \<Longrightarrow> opens (hd xs) \<Longrightarrow> opens (commas xs @ r)"
  by (cases xs rule: commas.cases) (auto simp: opens_def)

lemma opens_take: "opens s \<Longrightarrow> take 1 (skip_ws s) \<noteq> '']'' \<and> take 1 (skip_ws s) \<noteq> ''}''"
  using skip_ws_opens[of s "[]"] by (cases s) (auto simp: opens_def)

lemma reads_back_array:
  assumes "numbers_ok (JArr js)" "\<forall>j \<in> set js. reads_back e j"
  shows "reads_back (Suc e) (JArr js)"
proof (cases "js = []")
  case True
  then show ?thesis
    using opens_text[OF assms(1)]
    by (simp add: reads_back_def) (simp add: parse_value.simps[of "Suc e"] quote_char_def)
next
  case False
  then have "opens (commas (map marshal_text js) @ CHR '']'' # r)" for r
    using assms(2) by (intro opens_commas) (auto simp: reads_back_def hd_map)
  then have "take 1 (skip_ws (commas (map marshal_text js) @ CHR '']'' # r)) \<noteq> '']''" for r
    using opens_take by blast
  then show ?thesis
    using parse_elems_text[OF False assms(2)] opens_text[OF assms(1)]
    by (simp add: reads_back_def) (simp add: parse_value.simps[of "Suc e"] quote_char_def)
qed

lemma reads_back_object:
  assumes "numbers_ok (JObj ms)" "\<forall>m \<in> set ms. reads_back e (snd m)"
  shows "reads_back (Suc e) (JObj ms)"
proof (cases "ms = []")
  case True
  then show ?thesis
    using opens_text[OF assms(1)]
    by (simp add: reads_back_def) (simp add: parse_value.simps[of "Suc e"] quote_char_def)
next
  case False
  let ?t = "\<lambda>r. commas (map member_text (map (map_prod id marshal_text) ms)) @ CHR ''}'' # r"
  have "opens (?t r)" for r
    using False by (intro opens_commas) (auto simp: hd_map member_text_def quote_def opens_def quote_char_def is_ws_def)
  then have "take 1 (skip_ws (?t r)) \<noteq> ''}''" for r using opens_take by blast
  then show ?thesis
    using parse_members_text[OF False assms(2)] opens_text[OF assms(1)]
    by (simp add: reads_back_def) (simp add: parse_value.simps[of "Suc e"] quote_char_def)
qed

lemma reads_back_text: "numbers_ok j \<Longrightarrow> nesting j \<le> d \<Longrightarrow> reads_back d j"
proof (induction j arbitrary: d)
  case (JNum l)
  then have l: "is_number l" by simp
  then obtain c t where "l = c # t" "is_digit c \<or> c = CHR ''-''" by (rule is_number_first)
  then have "hd l \<noteq> quote_char" "hd l \<noteq> CHR ''[''" "hd l \<noteq> CHR ''{''"
    by (auto simp: quote_char_def digit_val_def)
  moreover have "opens l" using opens_text[OF JNum.prems(1)] by simp
  ultimately show ?case by (simp add: reads_back_def parse_scalar scalar_number[OF l])
next
  case (JBool b)
  have "opens (marshal_text (JBool b))" by (rule opens_text) simp
  then show ?case
    unfolding reads_back_def
    by (intro conjI allI impI, assumption, subst parse_scalar)
       (cases b; simp add: quote_char_def scalar_names[simplified])+
next
  case JNull
  have "opens (marshal_text JNull)" by (rule opens_text) simp
  then show ?case
    unfolding reads_back_def
    by (intro conjI allI impI, assumption, subst parse_scalar)
       (simp_all add: quote_char_def scalar_names[simplified])
next
  case (JStr s)
  then show ?case using opens_text[OF JStr.prems(1)] by (simp add: reads_back_def parse_quoted)
next
  case (JArr js)
  then obtain e where d: "d = Suc e" "\<forall>j \<in> set js. nesting j \<le> e"
    by (cases d) (auto simp: fold_max_le)
  show ?case
    unfolding d(1) by (rule reads_back_array[OF JArr.prems(1)])
      (use JArr.IH JArr.prems(1) d(2) in \<open>simp add: list_all_iff\<close>)
next
  case (JObj ms)
  then obtain e where d: "d = Suc e" "\<forall>m \<in> set ms. nesting (snd m) \<le> e"
    by (cases d) (auto simp: fold_max_le)
  show ?case
    unfolding d(1) by (rule reads_back_object[OF JObj.prems(1)])
      (use JObj.IH JObj.prems(1) d(2) in \<open>fastforce simp: list_all_iff\<close>)
qed

text \<open>What was written is read back, coerced.\<close>

lemma text_roundtrip:
  assumes "numbers_ok j" "nesting j \<le> max_nesting"
  shows "unmarshal_text (marshal_text j) = Some (coerced j)"
proof -
  have "parse_value max_nesting (marshal_text j @ []) = Some (coerced j, [])"
    by (rule reads_backD[OF reads_back_text[OF assms]]) simp
  then show ?thesis by (simp add: unmarshal_text_def skip_ws_def)
qed

lemma coerced_ok: "strings_ok j \<Longrightarrow> coerced j = j"
proof (induction j)
  case (JArr js)
  then show ?case by (simp add: list_all_iff map_idI)
next
  case (JObj ms)
  have "map (map_prod coerce coerced) ms = ms"
    using JObj by (intro map_idI) (fastforce simp: list_all_iff coerce_valid)
  then show ?case by simp
qed (simp_all add: coerce_valid)

end
