(* ===== verification/WireText.thy ===== *)
theory WireText
  imports JsonRoundtrip EndToEnd
begin

text \<open>
  Frames as the bytes that are on the socket. What a pump marshals is \<open>marshal_text\<close> of the
  value that \<^verbatim>\<open>Transport\<close> and \<^verbatim>\<open>Server\<close> write, and what it unmarshals is \<open>unmarshal_text\<close> of
  the bytes it read. A \<open>json.RawMessage\<close> inside is written in the form that \<open>marshal_text\<close>
  gives its value; Go keeps the spelling its sender chose, which reads as the same value.
\<close>

section \<open>Values that survive as text\<close>

definition text_ok :: "nat \<Rightarrow> json \<Rightarrow> bool" where
  "text_ok d j \<longleftrightarrow> numbers_ok j \<and> strings_ok j \<and> nesting j \<le> d"

lemma text_ok_simps [simp]:
  "text_ok d JNull" "text_ok d (JBool b)" "text_ok d (JNum l) \<longleftrightarrow> is_number l"
  "text_ok d (JStr s) \<longleftrightarrow> valid_utf8 s"
  by (simp_all add: text_ok_def)

lemma text_ok_obj:
  "text_ok (Suc d) (JObj ms) \<longleftrightarrow> (\<forall>m \<in> set ms. valid_utf8 (fst m) \<and> text_ok d (snd m))"
  by (auto simp: text_ok_def list_all_iff fold_max_le)

lemma text_ok_read: "text_ok max_nesting j \<Longrightarrow> unmarshal_text (marshal_text j) = Some j"
  by (simp add: text_ok_def text_roundtrip coerced_ok)

lemma text_ok_mono: "text_ok d j \<Longrightarrow> d \<le> e \<Longrightarrow> text_ok e j"
  by (simp add: text_ok_def)

lemma text_ok_int [simp]: "text_ok d (enc_int i)"
  by (simp add: enc_int_def is_number_itoa)

lemma valid_lit: "list_all (\<lambda>c. byte c < 128) s \<Longrightarrow> valid_utf8 s"
  by (rule valid_ascii) (simp add: list_all_iff)

lemma valid_Nil [simp]: "valid_utf8 []"
  by (simp add: valid_utf8_def)

lemma omit_empty_set [simp]: "x \<in> set (omit_empty e m) \<longleftrightarrow> \<not> e \<and> x = m"
  by (simp add: omit_empty_def)

text \<open>Envelopes of either package.\<close>

definition envelope_text_ok :: "ws_message \<Rightarrow> bool" where
  "envelope_text_ok m \<longleftrightarrow> valid_utf8 (t_type m) \<and> valid_utf8 (t_from m) \<and> valid_utf8 (t_to m) \<and>
     text_ok 9999 (enc_raw (t_data m))"

lemma names_valid:
  "valid_utf8 ''type''" "valid_utf8 ''from''" "valid_utf8 ''to''" "valid_utf8 ''data''"
  "valid_utf8 ''timestamp''" "valid_utf8 ''signal_type''" "valid_utf8 ''payload''" "valid_utf8 ''sdp''"
  "valid_utf8 ''version''" "valid_utf8 ''signal''" "valid_utf8 ''offer''" "valid_utf8 ''answer''"
  by (rule valid_lit, simp)+

lemmas text_ok_levels =
  text_ok_obj[of 9999, simplified] text_ok_obj[of 9998, simplified] text_ok_obj[of 9997, simplified]

lemma text_ok_envelope:
  "envelope_text_ok m \<Longrightarrow> text_ok max_nesting (enc_ws_message m)"
  "envelope_text_ok (ws_view m') \<Longrightarrow> text_ok max_nesting (enc_message m')"
  by (auto simp: envelope_text_ok_def enc_ws_message_def enc_message_def names_valid ws_view_def max_nesting_def text_ok_levels)

lemma client_frame_read:
  assumes "ws_message_ok m" "envelope_text_ok m"
  shows "unmarshal_raw dec_message (unmarshal_text (marshal_text (enc_ws_message m))) = Inr (server_view m)"
  using to_server.dec_enc[OF assms(1)] text_ok_read[OF text_ok_envelope(1)[OF assms(2)]]
  by (simp add: unmarshal_raw_def)

lemma server_frame_read:
  assumes "message_ok m" "envelope_text_ok (ws_view m)"
  shows "unmarshal_raw dec_ws_message (unmarshal_text (marshal_text (enc_message m))) = Inr (ws_view m)"
  using to_client.dec_enc[OF assms(1)] text_ok_read[OF text_ok_envelope(2)[OF assms(2)]]
  by (simp add: unmarshal_raw_def)

section \<open>A signal as text\<close>

lemma print_time_ascii: "c \<in> set (print_time tm) \<Longrightarrow> byte c < 128"
proof -
  have d: "byte c < 128" if "is_digit c" for c using that by (auto simp: digit_val_def Let_def split: if_splits)
  have "byte c < 128" if "c \<in> set (pad n v)" for c n v using that pad_digits d by blast
  moreover have "byte c < 128" if "c \<in> set (print_frac v)" for c v
    using that trim_zeros_digits pad_digits d by (auto simp: print_frac_def split: if_splits) blast
  ultimately show "c \<in> set (print_time tm) \<Longrightarrow> byte c < 128"
    by (auto simp: print_time_def print_zone_def split: if_splits)
qed

lemma text_ok_time [simp]: "text_ok d (enc_time tm)"
  by (simp add: enc_time_def valid_ascii print_time_ascii)

definition signal_text_ok :: "signal \<Rightarrow> bool" where
  "signal_text_ok sg \<longleftrightarrow> valid_utf8 (sig_type sg) \<and> valid_utf8 (sig_from sg) \<and> valid_utf8 (sig_to sg) \<and>
     text_ok 9998 (enc_raw (sig_payload sg))"

lemma text_ok_signal: "signal_text_ok sg \<Longrightarrow> text_ok 9999 (enc_signal sg)"
  by (auto simp: signal_text_ok_def enc_signal_def names_valid text_ok_levels)

section \<open>An offer as text\<close>

lemma valid_names:
  "valid_utf8 TypeOffer" "valid_utf8 TypeAnswer" "valid_utf8 MsgSignal"
  by (simp_all add: sdp_type_defs MsgSignal_def valid_lit)

text \<open>What a description loses on its way: bytes that are not UTF-8.\<close>

definition readable :: "session_description \<Rightarrow> session_description" where
  "readable s = s\<lparr>sd_sdp := coerce (sd_sdp s)\<rparr>"

lemma readable_offer [simp]: "readable (NewOffer s) = NewOffer (coerce s)" "readable (NewAnswer s) = NewAnswer (coerce s)"
  by (simp_all add: readable_def NewOffer_def NewAnswer_def)

lemma coerce_names [simp]:
  "coerce ''type'' = ''type''" "coerce ''from'' = ''from''" "coerce ''to'' = ''to''" "coerce ''data'' = ''data''"
  "coerce ''timestamp'' = ''timestamp''" "coerce ''signal_type'' = ''signal_type''"
  "coerce ''payload'' = ''payload''" "coerce ''sdp'' = ''sdp''" "coerce ''version'' = ''version''"
  by (simp_all add: names_valid coerce_valid)

lemma enc_time_coerced [simp]: "coerced (enc_time tm) = enc_time tm"
  using text_ok_time[of 0 tm] by (intro coerced_ok) (simp add: text_ok_def)

lemma enc_int_coerced [simp]: "coerced (enc_int i) = enc_int i"
  by (simp add: enc_int_def)

lemma envelope_coerced:
  assumes "valid_utf8 to" "valid_utf8 (sd_type s)"
  shows "coerced (envelope t to (session_signal tm s)) = envelope t to (session_signal tm (readable s))"
  using assms
  by (simp add: envelope_def enc_ws_message_def enc_signal_def session_signal_def enc_session_description_def
      readable_def enc_raw_def omit_empty_def coerce_valid valid_names)

text \<open>What the server passes on of a description whose strings are UTF-8.\<close>

lemma session_text_ok:
  "valid_utf8 (sd_type s) \<Longrightarrow> valid_utf8 (sd_sdp s) \<Longrightarrow> signal_text_ok (session_signal tm s)"
  by (auto simp: signal_text_ok_def session_signal_def enc_raw_def enc_session_description_def text_ok_levels names_valid)

lemma relayed_read:
  assumes "valid_utf8 (sd_type s)" "valid_utf8 (sd_sdp s)" "valid_utf8 i" "valid_utf8 to"
    and "j = enc_message \<lparr>m_type = MsgSignal, m_from = i, m_to = to,
      m_data = Some (enc_signal (session_signal tm s)), m_timestamp = t\<rparr>"
  shows "unmarshal_text (marshal_text j) = Some j"
  unfolding assms(5)
  by (rule text_ok_read, rule text_ok_envelope(2))
     (simp add: envelope_text_ok_def ws_view_def enc_raw_def assms(1-4) valid_names text_ok_signal session_text_ok)

lemma sd_type_New [simp]: "sd_type (NewOffer x) = TypeOffer" "sd_type (NewAnswer x) = TypeAnswer"
    "sd_sdp (NewOffer x) = x" "sd_sdp (NewAnswer x) = x"
  by (simp_all add: NewOffer_def NewAnswer_def)

lemma envelope_writable:
  "numbers_ok (envelope t to (session_signal tm s))" "nesting (envelope t to (session_signal tm s)) \<le> max_nesting"
  by (simp_all add: envelope_def enc_ws_message_def enc_signal_def session_signal_def enc_session_description_def
      enc_raw_def omit_empty_def enc_int_def enc_time_def is_number_itoa max_nesting_def)

end
