(* ===== verification/TextProps.thy ===== *)
theory TextProps
  imports WireText AppProps
begin

text \<open>
  The properties of frames as bytes: what the other side reads from the text that was written.
\<close>

section \<open>Frames\<close>

text \<open>C25: The bytes a client writes for an envelope make the server's reader forward that
  envelope under the reader's name and time, and the bytes the server writes for a message are
  read by a client as that message, as long as the strings are UTF-8 and numbers fit.\<close>

theorem frames_read_as_written:
  assumes client: "ws_message_ok w" "envelope_text_ok w"
    and server: "message_ok m" "envelope_text_ok (ws_view m)"
  shows "reader_turn (ReadText (unmarshal_text (marshal_text (enc_ws_message w)))) t c =
      c\<lparr>s_reader := Forwarding (stamp (s_peer c) t (server_view w))\<rparr> \<and>
    readPump_turn (ReadText (unmarshal_text (marshal_text (enc_message m)))) d =
      (if ws_cancelled d then Stop (d, None) else Continue (handleMessage (ws_view m) d))"
  using client_frame_read[OF client] server_frame_read[OF server]
  by (simp add: reader_turn_def readPump_turn_def)

theorem frames_read_as_written_witness:
  "let w = \<lparr>t_type = MsgSignal, t_from = '''', t_to = ''b2'', t_data = Some (JStr ''a<b''), t_timestamp = - 7\<rparr>
   in reader_turn (ReadText (unmarshal_text (marshal_text (enc_ws_message w)))) 8 (new_session peer_a) =
     (new_session peer_a)\<lparr>s_reader := Forwarding (stamp peer_a 8 (server_view w))\<rparr>"
proof -
  let ?w = "\<lparr>t_type = MsgSignal, t_from = '''', t_to = ''b2'', t_data = Some (JStr ''a<b''), t_timestamp = - 7\<rparr>"
  have w: "ws_message_ok ?w" "envelope_text_ok ?w"
    by (simp_all add: ws_message_ok_def in_int_def envelope_text_ok_def valid_lit MsgSignal_def enc_raw_def)
  have m: "message_ok (server_view ?w)" "envelope_text_ok (ws_view (server_view ?w))"
    using w by (simp_all add: message_ok_def ws_message_ok_def server_view_def ws_view_def envelope_text_ok_def enc_raw_def)
  from frames_read_as_written[OF w m, of 8 "new_session peer_a"] show ?thesis
    by (simp add: Let_def new_session_def)
qed

section \<open>Descriptions\<close>

text \<open>C8: An offer of any bytes, sent to a peer: the text the client writes is read by the
  server, what the hub forwards is written to the peer, and the peer's application gets an
  offer that parses to the same bytes with what was not UTF-8 replaced by U+FFFD. So an offer
  arrives as it was given exactly when it is UTF-8.\<close>

theorem offer_travels_as_text:
  assumes a: "connected a" "\<And>f. wr f = None"
    and b: "ready b" "cl_handler b"
    and times: "time_ok tm" "in_int 64 t" "in_int 64 t'"
    and names: "valid_utf8 to" "valid_utf8 (peer_id (s_peer c))"
  shows "\<exists>a' f m sg. SendOffer wr tm t to (NewOffer sdp) a = (Inr (), a') \<and>
    frames a' = frames a @ [TextFrame f] \<and>
    reader_turn (ReadText (unmarshal_text (marshal_text f))) t' c = c\<lparr>s_reader := Forwarding m\<rparr> \<and>
    m_to m = to \<and>
    (\<exists>j. unmarshal_text (marshal_text (enc_message m)) = Some j \<and>
       receive_frame j b = Done (b, Some (CallSignal (peer_id (s_peer c)) sg))) \<and>
    ParseOffer sg = Inr (NewOffer (coerce sdp)) \<and> (coerce sdp = sdp \<longleftrightarrow> valid_utf8 sdp)"
proof -
  let ?sg = "session_signal tm (NewOffer sdp)"
  let ?got = "session_signal tm (NewOffer (coerce sdp))"
  let ?i = "peer_id (s_peer c)"
  let ?m = "\<lparr>m_type = MsgSignal, m_from = ?i, m_to = to, m_data = Some (enc_signal ?got), m_timestamp = t'\<rparr>"
  obtain a' where a': "send_signal wr t to ?sg a = (Inr (), a')"
      "frames a' = frames a @ [TextFrame (envelope t to ?sg)]"
    using send_signal_connected[of a wr, OF a] by blast
  have "unmarshal_text (marshal_text (envelope t to ?sg)) = Some (envelope t to ?got)"
    using envelope_coerced[of to "NewOffer sdp" t tm] names(1) valid_names(1)
    by (simp add: text_roundtrip envelope_writable sd_type_New)
  moreover have "reader_turn (ReadText (Some (envelope t to ?got))) t' c = c\<lparr>s_reader := Forwarding ?m\<rparr>"
    by (simp add: reader_turn_def envelope_read[OF times(2)] server_view_def stamp_def)
  moreover have "unmarshal_text (marshal_text (enc_message ?m)) = Some (enc_message ?m)"
    by (rule relayed_read) (simp_all add: names valid_names sd_type_New valid_coerce)
  moreover have "receive_frame (enc_message ?m) b = Done (b, Some (CallSignal ?i (?got\<lparr>sig_from := ?i\<rparr>)))"
    by (rule relayed_received[OF b session_signal_ok[OF times(1)] times(3)])
  moreover have "ParseOffer (?got\<lparr>sig_from := ?i\<rparr>) = Inr (NewOffer (coerce sdp))"
    by (simp add: ParseOffer_def parse_session_signal)
  moreover have "coerce sdp = sdp \<longleftrightarrow> valid_utf8 sdp"
    using valid_coerce[of sdp] coerce_valid[of sdp] by auto
  ultimately show ?thesis
    using a' unfolding SendOffer_eq
    by (intro exI[of _ a'] exI[of _ "envelope t to ?sg"] exI[of _ ?m] exI[of _ "?got\<lparr>sig_from := ?i\<rparr>"]) simp
qed

theorem offer_travels_as_text_witness:
  "\<exists>a' f m j sg. SendOffer (\<lambda>f. None) noon 7 ''b2'' (NewOffer (''v='' @ [CHR 0xFF])) example_client = (Inr (), a') \<and>
     frames a' = frames example_client @ [TextFrame f] \<and>
     reader_turn (ReadText (unmarshal_text (marshal_text f))) 8 (new_session peer_a) =
       (new_session peer_a)\<lparr>s_reader := Forwarding m\<rparr> \<and>
     unmarshal_text (marshal_text (enc_message m)) = Some j \<and>
     receive_frame j example_client = Done (example_client, Some (CallSignal ''a1'' sg)) \<and>
     ParseOffer sg = Inr (NewOffer (''v='' @ replacement))"
proof -
  have c: "connected example_client" "ready example_client" "cl_handler example_client" by simp_all
  have i: "in_int 64 7" "in_int 64 8" by (simp_all add: in_int_def)
  have p: "peer_id (s_peer (new_session peer_a)) = ''a1''" by (simp add: new_session_def)
  then have names: "valid_utf8 ''b2''" "valid_utf8 (peer_id (s_peer (new_session peer_a)))"
    by (simp_all add: valid_lit)
  have "chunks [CHR ''v'', CHR ''='', CHR 0xFF] = [''v'', ''='', [CHR 0xFF]]"
    by (simp add: chunks_ascii_Cons chunks_bad rune_size.simps(2) lead_size_def)
  then have u: "coerce (''v='' @ [CHR 0xFF]) = ''v='' @ replacement"
    by (simp add: coerce_def coerce_chunk_def is_rune_def rune_size.simps(2) lead_size_def tail_ok_def)
  obtain a' f m j sg where "SendOffer (\<lambda>f. None) noon 7 ''b2'' (NewOffer (''v='' @ [CHR 0xFF])) example_client = (Inr (), a')"
      "frames a' = frames example_client @ [TextFrame f]"
      "reader_turn (ReadText (unmarshal_text (marshal_text f))) 8 (new_session peer_a) =
        (new_session peer_a)\<lparr>s_reader := Forwarding m\<rparr>"
      "unmarshal_text (marshal_text (enc_message m)) = Some j"
      "receive_frame j example_client = Done (example_client, Some (CallSignal ''a1'' sg))"
      "ParseOffer sg = Inr (NewOffer (coerce (''v='' @ [CHR 0xFF])))"
    using offer_travels_as_text[of example_client "\<lambda>f. None" example_client noon 7 8 "''b2''" "new_session peer_a"
        "''v='' @ [CHR 0xFF]", OF c(1) _ c(2,3) noon_ok i names]
    unfolding p by blast
  then show ?thesis unfolding u by blast
qed

end
