(* ===== verification/Keepalive.thy ===== *)
theory Keepalive
  imports Transport Server
begin

text \<open>
  The deadlines of a connection: both ends send a ping at a fixed period and read with a
  deadline that only a pong moves (\<open>readPump\<close> and \<open>writePump\<close> of \<^verbatim>\<open>cmd/server/main.go\<close> and of
  \<^verbatim>\<open>transport/websocket.go\<close>). Times are nanoseconds, as in \<open>time.Duration\<close>.

  The library \<open>gorilla/websocket\<close> answers a ping with a pong from within \<open>ReadMessage\<close>, so an
  end answers only while its reader reads: not during a callback of the client, nor while the
  server's reader waits for the hub, nor after the reader returned. A read returns with an
  error at its deadline.

  The locale \<open>keepalive_link\<close> is the contract between the two periods, the deadlines and the
  delay of the network and the readers under which no deadline passes.
\<close>

section \<open>The two ends\<close>

datatype side = ServerEnd | ClientEnd

primrec other :: "side \<Rightarrow> side" where
  "other ServerEnd = ClientEnd"
| "other ClientEnd = ServerEnd"

lemma other_other [simp]: "other (other i) = i"
  by (cases i) simp_all

lemma side_cases: "j = i \<or> j = other i"
  by (cases i; cases j) simp_all

lemma other_neq [simp]: "other i \<noteq> i" "i \<noteq> other i"
  by (cases i; simp)+

record keepalive =
  ping_every :: int
  read_wait :: int

abbreviation second :: int where
  "second \<equiv> 1000000000"

text \<open>The constants of the server's pumps, and of the client's with its configured period.\<close>

definition server_keepalive :: keepalive where
  "server_keepalive = \<lparr>ping_every = 30 * second, read_wait = 60 * second\<rparr>"

definition client_keepalive :: "ws_config \<Rightarrow> keepalive" where
  "client_keepalive cfg = \<lparr>ping_every = ping_interval cfg, read_wait = 60 * second\<rparr>"

primrec program_keepalive :: "ws_config \<Rightarrow> side \<Rightarrow> keepalive" where
  "program_keepalive cfg ServerEnd = server_keepalive"
| "program_keepalive cfg ClientEnd = client_keepalive cfg"

text \<open>\<open>time.NewTicker\<close>, which \<open>writePump\<close> calls first.\<close>

definition NewTicker :: "int \<Rightarrow> int outcome" where
  "NewTicker d = (if d \<le> 0 then Panicked ''non-positive interval for NewTicker'' else Done d)"

section \<open>Steps\<close>

text \<open>A reader: before its pump runs, in \<open>ReadMessage\<close>, busy with what it read, returned.\<close>

datatype reading = NotBegun | InRead | Busy | Ended

text \<open>\<open>busy_since\<close> is when the message that a busy reader handles was read.\<close>

datatype wire_frame = Ping | Pong | Payload

text \<open>A frame on its way is kept with the time at which it was sent.\<close>

record conn_end =
  reading :: reading
  deadline :: int
  next_ping :: int
  busy_since :: int
  inbox :: "(int \<times> wire_frame) list"

record link =
  clock :: int
  link_up :: bool
  ends_of :: "side \<Rightarrow> conn_end"

definition on_end :: "side \<Rightarrow> (conn_end \<Rightarrow> conn_end) \<Rightarrow> link \<Rightarrow> link" where
  "on_end i f s = s\<lparr>ends_of := (ends_of s)(i := f (ends_of s i))\<rparr>"

definition post :: "side \<Rightarrow> wire_frame \<Rightarrow> link \<Rightarrow> link" where
  "post i f s = (if link_up s then on_end i (\<lambda>e. e\<lparr>inbox := inbox e @ [(clock s, f)]\<rparr>) s else s)"

text \<open>Both pumps of an end start: the first deadline and the ticker.\<close>

definition begin_pumps :: "(side \<Rightarrow> keepalive) \<Rightarrow> side \<Rightarrow> link \<Rightarrow> link outcome" where
  "begin_pumps cfg i s = obind (NewTicker (ping_every (cfg i))) (\<lambda>d.
     Done (on_end i (\<lambda>e. e\<lparr>reading := InRead, deadline := clock s + read_wait (cfg i),
       next_ping := clock s + d\<rparr>) s))"

text \<open>The ticker's case of \<open>writePump\<close>.\<close>

definition send_ping :: "(side \<Rightarrow> keepalive) \<Rightarrow> side \<Rightarrow> link \<Rightarrow> link" where
  "send_ping cfg i s = post (other i) Ping (on_end i (\<lambda>e. e\<lparr>next_ping := next_ping e + ping_every (cfg i)\<rparr>) s)"

text \<open>A frame is read: a ping is answered, a pong moves the deadline, a message is handed on.\<close>

definition read_frame :: "(side \<Rightarrow> keepalive) \<Rightarrow> side \<Rightarrow> wire_frame \<Rightarrow> link \<Rightarrow> link" where
  "read_frame cfg i f s =
     (let s' = on_end i (\<lambda>e. e\<lparr>inbox := tl (inbox e)\<rparr>) s in
      case f of
        Ping \<Rightarrow> post (other i) Pong s'
      | Pong \<Rightarrow> on_end i (\<lambda>e. e\<lparr>deadline := clock s + read_wait (cfg i)\<rparr>) s'
      | Payload \<Rightarrow> on_end i (\<lambda>e. e\<lparr>reading := Busy, busy_since := clock s\<rparr>) s')"

definition set_reading :: "side \<Rightarrow> reading \<Rightarrow> link \<Rightarrow> link" where
  "set_reading i r = on_end i (\<lambda>e. e\<lparr>reading := r\<rparr>)"

definition new_link :: "int \<Rightarrow> link" where
  "new_link t = \<lparr>clock = t, link_up = True,
     ends_of = (\<lambda>_. \<lparr>reading = NotBegun, deadline = 0, next_ping = 0, busy_since = 0, inbox = []\<rparr>)\<rparr>"

text \<open>
  When the server's reader has returned, its handler closes the connection (\<open>hang_up\<close>); the
  client's only returns, and its pings go on. Time does not pass beyond the deadline of a
  reader that is in \<open>ReadMessage\<close>; a reader that was busy at its deadline can still read what
  had arrived and was buffered before, hence only frames sent before it.
\<close>

inductive link_step :: "(side \<Rightarrow> keepalive) \<Rightarrow> link \<Rightarrow> link \<Rightarrow> bool" for cfg where
  pumps: "reading (ends_of s i) = NotBegun \<Longrightarrow> begin_pumps cfg i s = Done u \<Longrightarrow> link_step cfg s u"
| ping: "reading (ends_of s i) \<noteq> NotBegun \<Longrightarrow> link_up s \<Longrightarrow> next_ping (ends_of s i) \<le> clock s \<Longrightarrow>
     link_step cfg s (send_ping cfg i s)"
| payload: "reading (ends_of s i) \<noteq> NotBegun \<Longrightarrow> link_step cfg s (post (other i) Payload s)"
| frame: "reading (ends_of s i) = InRead \<Longrightarrow> inbox (ends_of s i) = (t, f) # r \<Longrightarrow>
     t < deadline (ends_of s i) \<Longrightarrow> link_step cfg s (read_frame cfg i f s)"
| returns: "reading (ends_of s i) = Busy \<Longrightarrow> link_step cfg s (set_reading i InRead s)"
| expires: "reading (ends_of s i) = InRead \<Longrightarrow> deadline (ends_of s i) \<le> clock s \<Longrightarrow>
     link_step cfg s (set_reading i Ended s)"
| closed: "reading (ends_of s i) = InRead \<Longrightarrow> \<not> link_up s \<Longrightarrow> link_step cfg s (set_reading i Ended s)"
| hang_up: "reading (ends_of s ServerEnd) = Ended \<Longrightarrow> link_step cfg s (s\<lparr>link_up := False\<rparr>)"
| elapse: "0 < dt \<Longrightarrow> \<forall>i. reading (ends_of s i) = InRead \<longrightarrow> clock s + dt \<le> deadline (ends_of s i) \<Longrightarrow>
     link_step cfg s (s\<lparr>clock := clock s + dt\<rparr>)"

inductive run_in :: "(side \<Rightarrow> keepalive) \<Rightarrow> (link \<Rightarrow> bool) \<Rightarrow> link \<Rightarrow> link \<Rightarrow> bool" for cfg P s where
  stay: "P s \<Longrightarrow> run_in cfg P s s"
| more: "run_in cfg P s t \<Longrightarrow> link_step cfg t u \<Longrightarrow> P u \<Longrightarrow> run_in cfg P s u"

text \<open>
  No frame waits for an end longer than \<open>d\<close> after it was sent, on the network or because the
  reader is busy or has not begun; an end's ticker is not late.
\<close>

definition delivered :: "int \<Rightarrow> side \<Rightarrow> link \<Rightarrow> bool" where
  "delivered d i s \<longleftrightarrow>
     (reading (ends_of s i) \<noteq> Ended \<longrightarrow> list_all (\<lambda>(t, f). clock s \<le> t + d) (inbox (ends_of s i)))"

definition ticks :: "side \<Rightarrow> link \<Rightarrow> bool" where
  "ticks i s \<longleftrightarrow> (reading (ends_of s i) \<noteq> NotBegun \<longrightarrow> clock s \<le> next_ping (ends_of s i))"

definition prompt :: "int \<Rightarrow> link \<Rightarrow> bool" where
  "prompt d s \<longleftrightarrow> (\<forall>i. delivered d i s \<and> ticks i s)"

section \<open>What one step changes\<close>

lemma on_end_simps [simp]:
  "ends_of (on_end i f s) j = (if j = i then f (ends_of s i) else ends_of s j)"
  "clock (on_end i f s) = clock s" "link_up (on_end i f s) = link_up s"
  by (simp_all add: on_end_def)

lemma post_simps [simp]:
  "clock (post i f s) = clock s" "link_up (post i f s) = link_up s"
  "reading (ends_of (post i f s) j) = reading (ends_of s j)"
  "deadline (ends_of (post i f s) j) = deadline (ends_of s j)"
  "next_ping (ends_of (post i f s) j) = next_ping (ends_of s j)"
  "busy_since (ends_of (post i f s) j) = busy_since (ends_of s j)"
  "inbox (ends_of (post i f s) j) =
     inbox (ends_of s j) @ (if j = i \<and> link_up s then [(clock s, f)] else [])"
  by (simp_all add: post_def)

lemma begin_Done:
  "begin_pumps cfg i s = Done u \<longleftrightarrow> 0 < ping_every (cfg i) \<and>
     u = on_end i (\<lambda>e. e\<lparr>reading := InRead, deadline := clock s + read_wait (cfg i),
       next_ping := clock s + ping_every (cfg i)\<rparr>) s"
  by (auto simp: begin_pumps_def NewTicker_def)

lemma begin_Panicked: "(\<exists>e. begin_pumps cfg i s = Panicked e) \<longleftrightarrow> ping_every (cfg i) \<le> 0"
  by (simp add: begin_pumps_def NewTicker_def)

lemma set_reading_simps [simp]:
  "clock (set_reading i r s) = clock s" "link_up (set_reading i r s) = link_up s"
  "ends_of (set_reading i r s) j = (if j = i then (ends_of s i)\<lparr>reading := r\<rparr> else ends_of s j)"
  by (simp_all add: set_reading_def)

lemma read_frame_simps [simp]:
  "clock (read_frame cfg i f s) = clock s" "link_up (read_frame cfg i f s) = link_up s"
  "reading (ends_of (read_frame cfg i f s) j) = (if j = i \<and> f = Payload then Busy else reading (ends_of s j))"
  "deadline (ends_of (read_frame cfg i f s) j) =
     (if j = i \<and> f = Pong then clock s + read_wait (cfg i) else deadline (ends_of s j))"
  "next_ping (ends_of (read_frame cfg i f s) j) = next_ping (ends_of s j)"
  "busy_since (ends_of (read_frame cfg i f s) j) =
     (if j = i \<and> f = Payload then clock s else busy_since (ends_of s j))"
  "inbox (ends_of (read_frame cfg i f s) j) =
     (if j = i then tl (inbox (ends_of s i))
      else inbox (ends_of s j) @ (if f = Ping \<and> link_up s then [(clock s, Pong)] else []))"
  using side_cases[of j i]
  by (cases f; auto simp: read_frame_def Let_def)+

lemma run_trans: "run_in cfg P s t \<Longrightarrow> run_in cfg P t u \<Longrightarrow> run_in cfg P s u"
  by (rotate_tac, induction rule: run_in.induct) (auto intro: run_in.more)

lemma run_one: "P s \<Longrightarrow> link_step cfg s t \<Longrightarrow> P t \<Longrightarrow> run_in cfg P s t"
  by (rule run_in.more[OF run_in.stay])

lemma link_run_holds: "run_in cfg P s t \<Longrightarrow> P t"
  by (induction rule: run_in.induct) auto

text \<open>An invariant of the steps from the states of a run.\<close>

lemma link_run_inv:
  assumes "run_in cfg P s t" "I s" "\<And>u v. link_step cfg u v \<Longrightarrow> P u \<Longrightarrow> I u \<Longrightarrow> I v"
  shows "I t"
  using assms(1)
proof (induction rule: run_in.induct)
  case (more t u)
  show ?case by (rule assms(3)[OF more(2) link_run_holds[OF more(1)] more(4)])
qed (rule assms(2))

section \<open>Pings that are answered in time\<close>

text \<open>While its reader runs, an end is about to ping, or its ping or the pong is on the way.\<close>

definition awaits_pong :: "(side \<Rightarrow> keepalive) \<Rightarrow> int \<Rightarrow> side \<Rightarrow> link \<Rightarrow> bool" where
  "awaits_pong cfg d i s \<longleftrightarrow>
     next_ping (ends_of s i) \<le> clock s + ping_every (cfg i) \<and>
     (next_ping (ends_of s i) + 2 * d < deadline (ends_of s i) \<or>
      (\<exists>t. (t, Ping) \<in> set (inbox (ends_of s (other i))) \<and> t + 2 * d < deadline (ends_of s i)) \<or>
      (\<exists>t. (t, Pong) \<in> set (inbox (ends_of s i)) \<and> t + d < deadline (ends_of s i)))"

definition lively :: "(side \<Rightarrow> keepalive) \<Rightarrow> int \<Rightarrow> link \<Rightarrow> bool" where
  "lively cfg d s \<longleftrightarrow> link_up s \<and>
     (\<forall>i. reading (ends_of s i) \<noteq> Ended \<and> (reading (ends_of s i) \<noteq> NotBegun \<longrightarrow> awaits_pong cfg d i s))"

lemma awaits_more:
  assumes "awaits_pong cfg d i s" "clock u = clock s" "next_ping (ends_of u i) = next_ping (ends_of s i)"
    and "deadline (ends_of u i) = deadline (ends_of s i)"
    and "\<And>j. set (inbox (ends_of s j)) \<subseteq> set (inbox (ends_of u j))"
  shows "awaits_pong cfg d i u"
  using assms unfolding awaits_pong_def by (metis subsetD)

lemma lively_new: "lively cfg d (new_link t)"
  by (simp add: lively_def new_link_def)

lemma promptD:
  "prompt d s \<Longrightarrow> reading (ends_of s i) \<noteq> Ended \<Longrightarrow> (t, f) \<in> set (inbox (ends_of s i)) \<Longrightarrow> clock s \<le> t + d"
  "prompt d s \<Longrightarrow> reading (ends_of s i) \<noteq> NotBegun \<Longrightarrow> clock s \<le> next_ping (ends_of s i)"
  by (force simp: prompt_def delivered_def ticks_def list_all_iff)+

locale keepalive_link =
  fixes cfg :: "side \<Rightarrow> keepalive" and d :: int
  assumes delay: "0 \<le> d"
    and period: "0 < ping_every (cfg i)"
    and margin: "ping_every (cfg i) + 2 * d < read_wait (cfg i)"
begin

lemma deadline_ahead:
  assumes "lively cfg d s" "prompt d s" "reading (ends_of s i) \<noteq> NotBegun"
  shows "clock s < deadline (ends_of s i)"
proof -
  have "awaits_pong cfg d i s" "reading (ends_of s i) \<noteq> Ended" "reading (ends_of s (other i)) \<noteq> Ended"
    using assms(1,3) by (auto simp: lively_def)
  then show ?thesis
    using promptD[OF assms(2)] delay assms(3) unfolding awaits_pong_def by fastforce
qed

lemma lively_ping:
  assumes "lively cfg d s" "prompt d s"
    and ping: "reading (ends_of s i) \<noteq> NotBegun" "link_up s" "next_ping (ends_of s i) \<le> clock s"
  shows "lively cfg d (send_ping cfg i s)"
proof -
  have "next_ping (ends_of s i) = clock s" using promptD(2)[OF assms(2) ping(1)] ping(3) by simp
  then have "awaits_pong cfg d i (send_ping cfg i s)" if "awaits_pong cfg d i s"
    using that ping(2) period[of i] unfolding send_ping_def awaits_pong_def by auto
  moreover have "awaits_pong cfg d (other i) (send_ping cfg i s)" if "awaits_pong cfg d (other i) s"
    by (rule awaits_more[OF that]) (auto simp: send_ping_def)
  ultimately show ?thesis using assms(1) side_cases[of _ i]
    by (auto simp: lively_def send_ping_def)
qed

lemma lively_frame:
  assumes "lively cfg d s" "prompt d s"
    and frame: "reading (ends_of s i) = InRead" "inbox (ends_of s i) = (t, f) # r"
  shows "lively cfg d (read_frame cfg i f s)"
proof -
  have t: "clock s \<le> t + d" using promptD(1)[OF assms(2), of i t f] frame by simp
  have "awaits_pong cfg d i (read_frame cfg i f s)" if a: "awaits_pong cfg d i s"
  proof (cases "f = Pong")
    case True
    then show ?thesis using a margin[of i] unfolding awaits_pong_def by simp
  next
    case False
    then show ?thesis using a frame(2) unfolding awaits_pong_def by auto
  qed
  moreover have "awaits_pong cfg d (other i) (read_frame cfg i f s)" if a: "awaits_pong cfg d (other i) s"
  proof (cases "f = Ping")
    case True
    then show ?thesis using a t frame(2) assms(1) unfolding awaits_pong_def lively_def by auto
  next
    case False
    then show ?thesis using a frame(2) unfolding awaits_pong_def by auto
  qed
  ultimately have "awaits_pong cfg d j (read_frame cfg i f s)" if "reading (ends_of s j) \<noteq> NotBegun" for j
    using that assms(1) side_cases[of j i] by (auto simp: lively_def)
  then show ?thesis using assms(1) frame by (auto simp: lively_def)
qed

lemma lively_step:
  assumes "link_step cfg s u" "lively cfg d s" "prompt d s"
  shows "lively cfg d u"
  using assms(1)
proof cases
  case (pumps i)
  note u = pumps(2)[unfolded begin_Done]
  have "awaits_pong cfg d i u" using margin[of i] u by (simp add: awaits_pong_def)
  moreover have "awaits_pong cfg d (other i) u" if "awaits_pong cfg d (other i) s"
    by (rule awaits_more[OF that]) (simp_all add: u)
  ultimately show ?thesis using assms(2) u side_cases[of _ i] by (auto simp: lively_def)
next
  case (ping i)
  then show ?thesis using lively_ping[OF assms(2,3)] by simp
next
  case (payload i)
  have "awaits_pong cfg d j u" if "awaits_pong cfg d j s" for j
    by (rule awaits_more[OF that]) (auto simp: payload)
  then show ?thesis using assms(2) payload by (simp add: lively_def)
next
  case (frame i t f r)
  then show ?thesis using lively_frame[OF assms(2,3)] by simp
next
  case (returns i)
  have "awaits_pong cfg d j u" if "awaits_pong cfg d j s" for j
    by (rule awaits_more[OF that]) (auto simp: returns)
  then show ?thesis using assms(2) returns by (auto simp: lively_def)
next
  case (expires i)
  show ?thesis using expires deadline_ahead[OF assms(2,3), of i] by simp
next
  case (closed i)
  then show ?thesis using assms(2) by (simp add: lively_def)
next
  case hang_up
  then show ?thesis using assms(2) by (simp add: lively_def)
next
  case (elapse dt)
  then show ?thesis using assms(2) unfolding lively_def awaits_pong_def by fastforce
qed

lemma lively_run: "run_in cfg (prompt d) (new_link t) s \<Longrightarrow> lively cfg d s"
  by (erule link_run_inv) (auto intro: lively_new lively_step)

lemma stays_up:
  assumes "run_in cfg (prompt d) (new_link t) s"
  shows "link_up s \<and> reading (ends_of s i) \<noteq> Ended \<and>
    (reading (ends_of s i) \<noteq> NotBegun \<longrightarrow> clock s < deadline (ends_of s i))"
  using lively_run[OF assms] deadline_ahead[OF lively_run[OF assms] link_run_holds[OF assms], of i]
  by (simp add: lively_def)

end

text \<open>The program with its defaults bears delays of almost 15 seconds each way.\<close>

lemma program_link:
  assumes "0 \<le> d" "d < 15 * second" "0 < ping_interval c" "ping_interval c + 2 * d < 60 * second"
  shows "keepalive_link (program_keepalive c) d"
proof
  show "0 < ping_every (program_keepalive c i)" for i
    using assms by (cases i) (simp_all add: server_keepalive_def client_keepalive_def)
  show "ping_every (program_keepalive c i) + 2 * d < read_wait (program_keepalive c i)" for i
    using assms by (cases i) (simp_all add: server_keepalive_def client_keepalive_def)
qed (rule assms)

interpretation defaults: keepalive_link "program_keepalive (DefaultConfig url)" "14999999999" for url
  by (rule program_link) (simp_all add: DefaultConfig_def)

lemma defaults_stay_up:
  "run_in (program_keepalive (DefaultConfig url)) (prompt 14999999999) (new_link t) s \<Longrightarrow>
   link_up s \<and> reading (ends_of s i) \<noteq> Ended"
  using defaults.stays_up by blast

section \<open>A period of a quiet connection\<close>

definition quiet :: "int \<Rightarrow> link" where
  "quiet t = \<lparr>clock = t, link_up = True,
     ends_of = (\<lambda>_. \<lparr>reading = InRead, deadline = t + 60 * second, next_ping = t + 30 * second, busy_since = 0, inbox = []\<rparr>)\<rparr>"

lemma quiet_simps [simp]:
  "clock (quiet t) = t" "link_up (quiet t)" "reading (ends_of (quiet t) i) = InRead"
  "deadline (ends_of (quiet t) i) = t + 60 * second" "next_ping (ends_of (quiet t) i) = t + 30 * second"
  "busy_since (ends_of (quiet t) i) = 0" "inbox (ends_of (quiet t) i) = []"
  by (simp_all add: quiet_def)

lemma quietI:
  assumes "clock s = t" "link_up s" "\<forall>i. reading (ends_of s i) = InRead"
    "\<forall>i. deadline (ends_of s i) = t + 60 * second" "\<forall>i. next_ping (ends_of s i) = t + 30 * second"
    "\<forall>i. busy_since (ends_of s i) = 0" "\<forall>i. inbox (ends_of s i) = []"
  shows "s = quiet t"
  using assms by (auto simp: quiet_def intro!: link.equality conn_end.equality)

lemma clock_update_simps [simp]:
  "clock (s\<lparr>clock := x\<rparr>) = x" "link_up (s\<lparr>clock := x\<rparr>) = link_up s" "ends_of (s\<lparr>clock := x\<rparr>) = ends_of s"
  by simp_all

lemma send_ping_simps [simp]:
  "clock (send_ping cfg i s) = clock s" "link_up (send_ping cfg i s) = link_up s"
  "reading (ends_of (send_ping cfg i s) j) = reading (ends_of s j)"
  "deadline (ends_of (send_ping cfg i s) j) = deadline (ends_of s j)"
  "busy_since (ends_of (send_ping cfg i s) j) = busy_since (ends_of s j)"
  "next_ping (ends_of (send_ping cfg i s) j) =
     next_ping (ends_of s j) + (if j = i then ping_every (cfg i) else 0)"
  "inbox (ends_of (send_ping cfg i s) j) =
     inbox (ends_of s j) @ (if j = other i \<and> link_up s then [(clock s, Ping)] else [])"
  by (auto simp: send_ping_def)

lemma default_period [simp]:
  "ping_every (program_keepalive (DefaultConfig url) i) = 30 * second"
  "read_wait (program_keepalive (DefaultConfig url) i) = 60 * second"
  by (cases i; simp add: server_keepalive_def client_keepalive_def DefaultConfig_def)+

declare program_keepalive.simps [simp del]

lemma all_sides: "(\<forall>i. P i) \<longleftrightarrow> P ServerEnd \<and> P ClientEnd"
  by (metis side.exhaust)

lemma quiet_period:
  "run_in (program_keepalive (DefaultConfig url)) (prompt 0) (quiet t) (quiet (t + 30 * second))"
proof -
  let ?c = "program_keepalive (DefaultConfig url)"
  let ?s1 = "(quiet t)\<lparr>clock := clock (quiet t) + 30 * second\<rparr>"
  let ?s2 = "send_ping ?c ServerEnd ?s1"
  let ?s3 = "send_ping ?c ClientEnd ?s2"
  let ?s4 = "read_frame ?c ServerEnd Ping ?s3"
  let ?s5 = "read_frame ?c ClientEnd Ping ?s4"
  let ?s6 = "read_frame ?c ServerEnd Pong ?s5"
  let ?s7 = "read_frame ?c ClientEnd Pong ?s6"
  note p = prompt_def delivered_def ticks_def all_sides
  have "run_in ?c (prompt 0) (quiet t) (quiet t)" by (rule run_in.stay) (simp add: p)
  then have "run_in ?c (prompt 0) (quiet t) ?s1"
    by (rule run_in.more) (rule link_step.elapse, simp_all add: p)
  then have "run_in ?c (prompt 0) (quiet t) ?s2"
    by (rule run_in.more) (rule link_step.ping, simp_all add: p)
  then have "run_in ?c (prompt 0) (quiet t) ?s3"
    by (rule run_in.more) (rule link_step.ping, simp_all add: p)
  then have "run_in ?c (prompt 0) (quiet t) ?s4"
    by (rule run_in.more) (rule link_step.frame, (simp add: p)+)
  then have "run_in ?c (prompt 0) (quiet t) ?s5"
    by (rule run_in.more) (rule link_step.frame, (simp add: p)+)
  then have "run_in ?c (prompt 0) (quiet t) ?s6"
    by (rule run_in.more) (rule link_step.frame, (simp add: p)+)
  then have "run_in ?c (prompt 0) (quiet t) ?s7"
    by (rule run_in.more) (rule link_step.frame, (simp add: p)+)
  moreover have "?s7 = quiet (t + 30 * second)"
    by (rule quietI) (simp_all add: all_sides)
  ultimately show ?thesis by simp
qed

text \<open>So there are runs of any length.\<close>

lemma quiet_run:
  "run_in (program_keepalive (DefaultConfig url)) (prompt 0) (new_link t) (quiet (t + int n * (30 * second)))"
proof (induction n)
  case 0
  let ?c = "program_keepalive (DefaultConfig url)"
  let ?s1 = "on_end ServerEnd (\<lambda>e. e\<lparr>reading := InRead, deadline := t + 60 * second, next_ping := t + 30 * second\<rparr>) (new_link t)"
  let ?s2 = "on_end ClientEnd (\<lambda>e. e\<lparr>reading := InRead, deadline := t + 60 * second, next_ping := t + 30 * second\<rparr>) ?s1"
  note p = prompt_def delivered_def ticks_def all_sides new_link_def
  have "run_in ?c (prompt 0) (new_link t) (new_link t)" by (rule run_in.stay) (simp add: p)
  then have "run_in ?c (prompt 0) (new_link t) ?s1"
    by (rule run_in.more) (rule link_step.pumps, simp_all add: p begin_Done)
  then have "run_in ?c (prompt 0) (new_link t) ?s2"
    by (rule run_in.more) (rule link_step.pumps, simp_all add: p begin_Done)
  moreover have "?s2 = quiet t"
    by (rule quietI) (simp_all add: all_sides new_link_def)
  ultimately show ?case by simp
next
  case (Suc n)
  then show ?case using run_trans[OF Suc quiet_period] by (simp add: algebra_simps)
qed

end
