(* ===== verification/KeepaliveProps.thy ===== *)
theory KeepaliveProps
  imports Keepalive
begin

text \<open>
  The properties of the deadlines: connections that last, and how they are lost: to a peer
  that does not read and to pings that are too rare.
\<close>

section \<open>Connections that last\<close>

text \<open>C14: With the server's period of half a minute, a client period of less than a minute and
  frames that wait less than the remaining time on the network and for a busy reader, no
  deadline of either end ever passes: both readers go on and the connection stays up.\<close>

theorem answered_pings_keep_connection:
  assumes "0 \<le> d" "d < 15 * second" "0 < ping_interval c" "ping_interval c + 2 * d < 60 * second"
    and "run_in (program_keepalive c) (prompt d) (new_link t) s"
  shows "link_up s \<and> reading (ends_of s i) \<noteq> Ended \<and>
    (reading (ends_of s i) = NotBegun \<or> clock s < deadline (ends_of s i))"
  using keepalive_link.stays_up[OF program_link[OF assms(1-4)] assms(5)] by blast

theorem answered_pings_keep_connection_witness:
  "\<exists>s. run_in (program_keepalive (DefaultConfig ''ws://a'')) (prompt 0) (new_link 0) s \<and>
     clock s = 3600 * second \<and> clock s < deadline (ends_of s ServerEnd)"
proof -
  have r: "run_in (program_keepalive (DefaultConfig ''ws://a'')) (prompt 0) (new_link 0) (quiet (3600 * second))"
    using quiet_run[of "''ws://a''" 0 120] by simp
  have "clock (quiet (3600 * second)) < deadline (ends_of (quiet (3600 * second)) ServerEnd)"
    using answered_pings_keep_connection[OF _ _ _ _ r, of ServerEnd] by (simp add: DefaultConfig_def)
  with r show ?thesis by (intro exI[of _ "quiet (3600 * second)"]) simp
qed

section \<open>A peer that stops reading\<close>
















section \<open>Pings that are too rare\<close>









end
