(* ===== verification/Spec2Isabelle.thy ===== *)
theory Spec2Isabelle
  imports HubProps ServerProps IceProps AppProps WireProps WorldProps MainProps SessionProps ThreadProps TextProps KeepaliveProps
begin

text \<open>
  A verification of the P2P signaling hub and its client (Go module \<^verbatim>\<open>p2phub\<close>).

  \<^bold>\<open>The program.\<close> A server (\<^verbatim>\<open>cmd/server\<close>) accepts WebSocket connections. Each has a handler,
  a reader and a writer goroutine; one more goroutine runs the hub
  (\<^verbatim>\<open>internal/signaling/hub.go\<close>), which owns the table of peers and forwards messages into the
  peers' buffered channels. A client library (\<^verbatim>\<open>pkg/p2p\<close>) connects to the server
  (\<^verbatim>\<open>transport/websocket.go\<close>), keeps the list of known peers and passes signals on
  (\<^verbatim>\<open>client.go\<close>); signals carry session descriptions and candidates (\<^verbatim>\<open>sdp/sdp.go\<close>). For direct
  UDP connections it gathers ICE candidates (\<^verbatim>\<open>ice/gatherer.go\<close>) and connects to the peer's
  (\<^verbatim>\<open>ice/connection.go\<close>). \<^verbatim>\<open>cmd/client\<close> is a demo application with a shell.

  \<^bold>\<open>The theories.\<close>
  \<^item> \<open>GoBase\<close>: the prelude. Errors as sums, \<open>outcome\<close> (finished, waiting, panicked),
    \<open>foreach\<close> for range loops over maps in an arbitrary order, channels, read/write locks, and
    the interfaces \<open>cell_store\<close> (loops over independent cells) and \<open>simulation\<close>
    (refinement of a specification by runs). \<open>Strconv\<close>, \<open>Sscanf\<close>, \<open>GoTime\<close>, \<open>Flags\<close>,
    \<open>Json\<close> and \<open>Shell\<close> model what the program uses of the standard library; \<open>Json\<close> holds the interfaces
    \<open>json_link\<close> and \<open>json_codec\<close> between an encoder and a decoder, which every struct that
    crosses the wire interprets.
  \<^item> \<open>SigMessage\<close> (\<^verbatim>\<open>message.go\<close>) and \<open>Hub\<close> (\<^verbatim>\<open>hub.go\<close>): one definition per
    method. \<open>HubDelivery\<close> gives the broadcast loops in closed form, \<open>HubCorrect\<close> the handlers,
    the invariant and the refinement of a directory of mailboxes, \<open>HubOrder\<close> the facts that
    hold in every state: a channel is only appended to.
  \<^item> \<open>Server\<close> (\<^verbatim>\<open>cmd/server/main.go\<close>): all goroutines as a step relation.
    \<open>ServerSafety\<close> proves its invariant, \<open>ServerDelivery\<close> what reaches a client, in which order
    and from whom, \<open>ServerDeadlock\<close> the reachable state in which the hub waits for ever,
    \<open>ServerOrder\<close> that messages between two peers keep their order and are neither doubled nor
    invented, \<open>ServerTyping\<close> that every message on its way holds the data its type promises.
    \<open>ServerMain\<close> is the process around it: \<open>main\<close>, the HTTP routes, the listener, the
    signal, the shutdown and the exit.
  \<^item> \<open>Transport\<close>, \<open>Sdp\<close>, \<open>Wire\<close>, \<open>P2PClient\<close>: the client library; \<open>Wire\<close> is
    the agreement of the two packages on their formats. \<open>ClientThreads\<close> takes the methods of
    the transport apart and lets its goroutines interleave. \<open>PeerView\<close> combines the hub with
    the clients and proves that their views agree with the hub's table.
  \<^item> \<open>IceCandidate\<close>, \<open>IceGatherer\<close>, \<open>IceConnection\<close>: the package \<^verbatim>\<open>ice\<close>.
  \<^item> \<open>ClientApp\<close> and \<open>ClientMain\<close> (\<^verbatim>\<open>cmd/client/main.go\<close>): the callbacks and the shell, and
    the program from its arguments to its exit status. A run is a list of what happens to the
    program; one in which nothing ends the shell leaves it waiting for its input.
  \<^item> The parts put together: \<open>EndToEnd\<close> is a signal's way from one application to another.
    \<open>World\<close> is the whole system, the server's steps and any number of client libraries with
    the sockets between them; \<open>WorldOrder\<close> carries order and types through it, and
    \<open>WorldDelivery\<close> builds the run that delivers an offer. \<open>IceSession\<close> is the exchange of
    candidates of two applications through the hub, the direct connection they end up with and
    what travels on it. The demo application sets no receive handler on a connection, so what
    arrives is an entry of its log (\<open>Logged\<close>); the model keeps the calls of a handler apart
    (\<open>Handled\<close>).
  \<^item> The bytes: \<open>Utf8\<close> and \<open>JsonText\<close> model the text that \<open>encoding/json\<close> writes and reads,
    with escapes, UTF-8 and the limit on nesting, and \<open>JsonRoundtrip\<close> proves that reading what
    was written gives the value back, with bad bytes replaced. \<open>WireText\<close> applies it to
    the envelopes and the signals; so the other theories can take values for texts.
  \<^item> The time: \<open>Keepalive\<close> models the pings, pongs and read deadlines of the two ends of a
    connection with a clock, and how long a reader is busy with a message. Its locale \<open>keepalive_link\<close> states how periods, deadlines and
    delays must relate; the program's constants interpret it.
  \<^item> \<open>HubProps\<close>, \<open>ServerProps\<close>, \<open>IceProps\<close>, \<open>ClientProps\<close>, \<open>AppProps\<close>,
    \<open>WireProps\<close>, \<open>WorldProps\<close>, \<open>MainProps\<close>, \<open>SessionProps\<close>, \<open>ThreadProps\<close>,
    \<open>TextProps\<close>, \<open>KeepaliveProps\<close>: the properties, each with a concrete instance.

  \<^bold>\<open>How code corresponds to definitions.\<close> Structs are records, methods are functions on them
  that return the new record. A method that takes a lock or uses a channel returns an
  \<open>outcome\<close>. A pointer whose identity matters is a number: a peer's channel (\<open>peer_send\<close>),
  a candidate (\<open>cand_ptr\<close>). An \<open>int\<close> is a HOL integer, which is checked to fit 64 bits where it
  is parsed; the priority is a 32-bit word. What the runtime chooses, the clock and the order of
  map iteration, is the argument \<open>env\<close> of a hub turn. A goroutine is a program counter
  (\<open>Server\<close>, \<open>ClientThreads\<close>, \<open>receiveLoop\<close>) or a loop over what happens to it
  (\<open>readPump\<close>, \<open>app_loop\<close>); the loops recurse over that input or, for the port search, over
  the remaining ports, so no fuel is used. \<open>Transport\<close> and \<open>ClientApp\<close> run a method, a
  callback or a command as one step; for the transport, \<open>ClientThreads\<close> shows that the steps
  inside a write cannot be told apart from outside, as \<open>writeMu\<close> serialises them. A \<open>Send\<close> of
  a direct connection is a check and a later write, between which \<open>Close\<close> may come
  (\<open>conn_event\<close>). Text is a list of bytes; where the library goes by runes (\<open>Sscanf\<close>,
  \<open>Shell\<close>, \<open>JsonText\<close>), \<open>Utf8\<close> cuts it into them.

  \<^bold>\<open>Parameters.\<close> The packages \<^verbatim>\<open>gorilla/websocket\<close>, \<^verbatim>\<open>net\<close> and \<^verbatim>\<open>crypto/rand\<close> are outside: the
  results of dials, reads, writes, name resolution and socket creation are arguments. \<open>udp_law\<close>
  states what \<open>net.ListenUDP\<close> documents, \<open>resolve_law\<close> what \<open>net.ResolveUDPAddr\<close> does of
  literal addresses; \<^verbatim>\<open>net/http\<close> is modelled by what \<open>main\<close> relies on (\<open>ServerMain\<close>), and
  \<open>Keepalive\<close> by what \<^verbatim>\<open>gorilla/websocket\<close> documents of pings and deadlines. Hypotheses of the properties on the hub (\<open>request_ok\<close>)
  say that a registered peer is new and that an iteration visits each key once; \<open>ServerSafety\<close>
  proves the former for the server, as long as random identifiers do not collide.

  \<^bold>\<open>Not modelled.\<close> The spelling of a payload on its way: \<open>json.RawMessage\<close> keeps its sender's
  escapes, here it is written anew from its value, which reads the same. Write deadlines (a write
  that takes too long is a write that fails) and the time of timers other than the pings' and the
  read deadlines; logging, apart from the data that a direct
  connection logs; the locks of the hub, of the gatherer and of a direct connection, whose
  methods take and release them on their own; and data races of the demo client, whose steps run one after another here. What the standard
  library does inside (HTTP, WebSocket framing, sockets) is outside.
\<close>

end
